(* ===== verification/Prelude.thy ===== *)
theory Prelude
  imports Main "HOL-Library.Word" "HOL-Library.Sublist" "HOL-Library.Product_Lexorder"
begin

text \<open>
  Shared vocabulary of the development: the Rust and PostgreSQL base types, the result type
  with the question-mark operator, relational tables as lists of rows with the four SQL
  statement forms the service uses, and the generic notion of a transition system with an
  invariant. Everything here is program independent; the components import it.
\<close>

named_theorems result_simps \<open>evaluation and inversion of the result combinators\<close>
named_theorems table_simps \<open>how the SQL statement forms act on a table\<close>

section \<open>Base types\<close>

type_synonym u8 = "8 word"
type_synonym i64 = "64 word"
type_synonym u64 = "64 word"
type_synonym uuid = "128 word"

text \<open>A \<^verbatim>\<open>timestamptz\<close> or \<^verbatim>\<open>DateTime<Utc>\<close> is a count of microseconds since the epoch.\<close>
type_synonym timestamp = int

text \<open>Rust's \<^verbatim>\<open>Result\<close>: \<open>Inl\<close> is \<^verbatim>\<open>Err\<close>, \<open>Inr\<close> is \<^verbatim>\<open>Ok\<close>.\<close>
type_synonym ('e, 'a) result = "'e + 'a"

abbreviation (input) Err :: "'e \<Rightarrow> ('e, 'a) result" where "Err \<equiv> Inl"
abbreviation (input) Ok :: "'a \<Rightarrow> ('e, 'a) result" where "Ok \<equiv> Inr"

definition seconds :: "int \<Rightarrow> timestamp" where
  "seconds n = n * 1000000"

section \<open>Results\<close>

text \<open>\<open>res_bind\<close> is the question-mark operator followed by the rest of the body.\<close>

fun res_bind :: "('e, 'a) result \<Rightarrow> ('a \<Rightarrow> ('e, 'b) result) \<Rightarrow> ('e, 'b) result" where
  "res_bind (Inl e) f = Inl e"
| "res_bind (Inr x) f = f x"

fun res_map :: "('a \<Rightarrow> 'b) \<Rightarrow> ('e, 'a) result \<Rightarrow> ('e, 'b) result" where
  "res_map f (Inl e) = Inl e"
| "res_map f (Inr x) = Inr (f x)"

fun res_map_err :: "('e \<Rightarrow> 'f) \<Rightarrow> ('e, 'a) result \<Rightarrow> ('f, 'a) result" where
  "res_map_err f (Inl e) = Inl (f e)"
| "res_map_err f (Inr x) = Inr x"

fun ok_or :: "'e \<Rightarrow> 'a option \<Rightarrow> ('e, 'a) result" where
  "ok_or e None = Inl e"
| "ok_or e (Some x) = Inr x"

lemma res_bind_Inr [result_simps]:
  "res_bind m f = Inr y \<longleftrightarrow> (\<exists>x. m = Inr x \<and> f x = Inr y)"
  by (cases m) auto

lemma res_bind_Inl [result_simps]:
  "res_bind m f = Inl e \<longleftrightarrow> m = Inl e \<or> (\<exists>x. m = Inr x \<and> f x = Inl e)"
  by (cases m) auto

lemma res_map_Inr [result_simps]: "res_map f m = Inr y \<longleftrightarrow> (\<exists>x. m = Inr x \<and> y = f x)"
  by (cases m) auto

lemma res_map_Inl [result_simps]: "res_map f m = Inl e \<longleftrightarrow> m = Inl e"
  by (cases m) auto

lemma res_map_err_Inr [result_simps]: "res_map_err f m = Inr y \<longleftrightarrow> m = Inr y"
  by (cases m) auto

lemma res_map_err_Inl [result_simps]:
  "res_map_err f m = Inl e \<longleftrightarrow> (\<exists>x. m = Inl x \<and> e = f x)"
  by (cases m) auto

lemma ok_or_Inr [result_simps]: "ok_or e m = Inr x \<longleftrightarrow> m = Some x"
  by (cases m) auto

lemma ok_or_Inl [result_simps]: "ok_or e m = Inl e' \<longleftrightarrow> m = None \<and> e' = e"
  by (cases m) auto

section \<open>Tables\<close>

text \<open>
  A table is the list of its rows in insertion order. \<open>fetch_optional\<close> is a SELECT of at most
  one row, \<open>select_where\<close> a SELECT of all matching rows, \<open>update_where\<close> an UPDATE, and an INSERT
  appends a row once the constraints of the table have been checked.
\<close>

definition fetch_optional :: "('r \<Rightarrow> bool) \<Rightarrow> 'r list \<Rightarrow> 'r option" where
  "fetch_optional P t = find P t"

definition select_where :: "('r \<Rightarrow> bool) \<Rightarrow> 'r list \<Rightarrow> 'r list" where
  "select_where P t = filter P t"

definition update_where :: "('r \<Rightarrow> bool) \<Rightarrow> ('r \<Rightarrow> 'r) \<Rightarrow> 'r list \<Rightarrow> 'r list" where
  "update_where P f t = map (\<lambda>r. if P r then f r else r) t"

definition rows_affected :: "('r \<Rightarrow> bool) \<Rightarrow> 'r list \<Rightarrow> nat" where
  "rows_affected P t = length (filter P t)"

definition exists_row :: "('r \<Rightarrow> bool) \<Rightarrow> 'r list \<Rightarrow> bool" where
  "exists_row P t = list_ex P t"

lemma fetch_optional_SomeD:
  "fetch_optional P t = Some r \<Longrightarrow> r \<in> set t \<and> P r"
  by (auto simp: fetch_optional_def find_Some_iff in_set_conv_nth)

lemma fetch_optional_None: "fetch_optional P t = None \<longleftrightarrow> (\<forall>r \<in> set t. \<not> P r)"
  by (auto simp: fetch_optional_def find_None_iff)

lemma fetch_optional_unique:
  assumes "r \<in> set t" and "P r" and "\<And>r'. r' \<in> set t \<Longrightarrow> P r' \<Longrightarrow> r' = r"
  shows "fetch_optional P t = Some r"
proof (cases "fetch_optional P t")
  case None
  with assms(1,2) show ?thesis by (auto simp: fetch_optional_None)
next
  case (Some r')
  with assms(3) show ?thesis by (auto dest: fetch_optional_SomeD)
qed

lemma set_update_where [table_simps]:
  "set (update_where P f t) = (\<lambda>r. if P r then f r else r) ` set t"
  by (simp add: update_where_def)

lemma length_update_where [table_simps]: "length (update_where P f t) = length t"
  by (simp add: update_where_def)

lemma update_where_none [table_simps]:
  "(\<And>r. r \<in> set t \<Longrightarrow> \<not> P r) \<Longrightarrow> update_where P f t = t"
  by (simp add: update_where_def map_idI)

lemma rows_affected_0 [table_simps]: "rows_affected P t = 0 \<longleftrightarrow> (\<forall>r \<in> set t. \<not> P r)"
  by (auto simp: rows_affected_def filter_empty_conv)

lemma exists_row_iff [table_simps]: "exists_row P t \<longleftrightarrow> (\<exists>r \<in> set t. P r)"
  by (auto simp: exists_row_def list_ex_iff)

lemma set_select_where [table_simps]: "set (select_where P t) = {r \<in> set t. P r}"
  by (auto simp: select_where_def)

text \<open>Rows related one by one, as after an UPDATE.\<close>

lemma list_all2_back: "list_all2 R xs ys \<Longrightarrow> y \<in> set ys \<Longrightarrow> \<exists>x \<in> set xs. R x y"
  by (induction rule: list_all2_induct) auto

lemma list_all2_fwd: "list_all2 R xs ys \<Longrightarrow> x \<in> set xs \<Longrightarrow> \<exists>y \<in> set ys. R x y"
  by (induction rule: list_all2_induct) auto

lemma list_all2_map_eq: "list_all2 R xs ys \<Longrightarrow> (\<And>x y. R x y \<Longrightarrow> f y = f x) \<Longrightarrow> map f ys = map f xs"
  by (induction rule: list_all2_induct) auto

text \<open>
  The contract of an UPDATE that leaves a column alone: the column read off the table is the
  same list as before, so any uniqueness of it survives. The columns that carry a primary key
  or a unique index are interpretations of this locale in the database theory.
\<close>

locale column_frame =
  fixes col :: "'r \<Rightarrow> 'c" and f :: "'r \<Rightarrow> 'r"
  assumes col_f: "col (f r) = col r"
begin

lemma map_update_where: "map col (update_where P f t) = map col t"
  by (simp add: update_where_def col_f)

lemma distinct_update_where: "distinct (map col t) \<Longrightarrow> distinct (map col (update_where P f t))"
  by (simp only: map_update_where)

lemma ex_update_where:
  "(\<exists>r \<in> set (update_where P f t). Q (col r)) \<longleftrightarrow> (\<exists>r \<in> set t. Q (col r))"
proof -
  have "(\<exists>r \<in> set u. Q (col r)) \<longleftrightarrow> (\<exists>c \<in> set (map col u). Q c)" for u by auto
  then show ?thesis by (simp only: map_update_where)
qed

end

section \<open>Leases\<close>

text \<open>
  The work queues of the service: \<^verbatim>\<open>UPDATE ... WHERE id IN (SELECT id ... WHERE due ORDER BY key FOR
  UPDATE SKIP LOCKED LIMIT n)\<close>. \<open>due_rows\<close> is the inner SELECT. A queue is an interpretation of the
  locale when its UPDATE makes the taken rows not due for the next thirty seconds; then two
  workers that take batches within that time take different rows.
\<close>

definition due_rows :: "('r \<Rightarrow> 'k :: linorder) \<Rightarrow> nat \<Rightarrow> ('r \<Rightarrow> bool) \<Rightarrow> 'r list \<Rightarrow> 'r list" where
  "due_rows key n P t = take n (sort_key key (filter P t))"

lemma due_rows_due: "r \<in> set (due_rows key n P t) \<Longrightarrow> r \<in> set t \<and> P r"
  by (auto simp: due_rows_def dest!: in_set_takeD)

lemma due_rows_all: "length (filter P t) \<le> n \<Longrightarrow> set (due_rows key n P t) = {r \<in> set t. P r}"
  by (simp add: due_rows_def)

lemma due_rows_full: "r \<in> set t \<Longrightarrow> P r \<Longrightarrow> r \<notin> set (due_rows key n P t) \<Longrightarrow> length (due_rows key n P t) = n"
proof (rule ccontr)
  assume r: "r \<in> set t" "P r" "r \<notin> set (due_rows key n P t)" and "length (due_rows key n P t) \<noteq> n"
  then have "length (filter P t) \<le> n" by (auto simp: due_rows_def min_def split: if_splits)
  from due_rows_all [OF this, of key] r show False by simp
qed

lemma length_due_rows: "length (due_rows key n P t) \<le> n"
  by (simp add: due_rows_def)

locale leasing =
  fixes ident :: "'r \<Rightarrow> uuid" and due :: "timestamp \<Rightarrow> 'r \<Rightarrow> bool" and extend :: "timestamp \<Rightarrow> 'r \<Rightarrow> 'r"
  assumes ident_extend: "ident (extend now r) = ident r"
    and extend_not_due: "now' < now + seconds 30 \<Longrightarrow> \<not> due now' (extend now r)"
begin

lemma taken_not_due:
  assumes "r \<in> set (update_where (\<lambda>r. ident r \<in> I) (extend now) t)" and "ident r \<in> I" and "now' < now + seconds 30"
  shows "\<not> due now' r"
proof -
  obtain r0 where "r = (if ident r0 \<in> I then extend now r0 else r0)"
    using assms(1) unfolding set_update_where by blast
  with assms(2) have "r = extend now r0" by (auto split: if_splits)
  then show ?thesis using extend_not_due assms(3) by simp
qed

lemma batches_disjoint:
  assumes "t' = update_where (\<lambda>r. ident r \<in> ident ` set (due_rows key n P t)) (extend now) t"
    and "now' < now + seconds 30" and "\<And>r. P' r \<Longrightarrow> due now' r"
  shows "ident ` set (due_rows key n P t) \<inter> ident ` set (due_rows key' n' P' t') = {}"
proof -
  have "ident r \<notin> ident ` set (due_rows key n P t)" if r: "r \<in> set (due_rows key' n' P' t')" for r
  proof
    assume "ident r \<in> ident ` set (due_rows key n P t)"
    moreover have "r \<in> set t'" "due now' r" using due_rows_due [OF r] assms(3) by auto
    ultimately show False using taken_not_due assms(1,2) by blast
  qed
  then show ?thesis unfolding disjoint_iff by (metis imageE)
qed

end

section \<open>Transition systems\<close>

text \<open>
  Reachability and invariants, once for all machines of the development: a machine is a start
  predicate and a step relation, and a predicate that holds at the start and is kept by every
  step taken from a reachable state holds in every reachable state.
\<close>

inductive reach :: "('s \<Rightarrow> bool) \<Rightarrow> ('s \<Rightarrow> 's \<Rightarrow> bool) \<Rightarrow> 's \<Rightarrow> bool"
  for start :: "'s \<Rightarrow> bool" and step :: "'s \<Rightarrow> 's \<Rightarrow> bool" where
  reach_start: "start s \<Longrightarrow> reach start step s"
| reach_step: "reach start step s \<Longrightarrow> step s t \<Longrightarrow> reach start step t"

locale machine_invariant =
  fixes start :: "'s \<Rightarrow> bool" and step :: "'s \<Rightarrow> 's \<Rightarrow> bool" and inv :: "'s \<Rightarrow> bool"
  assumes inv_start: "start s \<Longrightarrow> inv s"
    and inv_step: "inv s \<Longrightarrow> step s t \<Longrightarrow> inv t"
begin

lemma reach_inv: "reach start step s \<Longrightarrow> inv s"
  by (induction rule: reach.induct) (auto intro: inv_start inv_step)

lemma steps_inv: "inv s \<Longrightarrow> step\<^sup>*\<^sup>* s t \<Longrightarrow> inv t"
  by (rotate_tac, induction rule: rtranclp_induct) (auto intro: inv_step)

end

text \<open>A property of single steps from reachable states lifts to whole runs.\<close>

locale machine_stable = machine_invariant +
  fixes stable :: "'s \<Rightarrow> bool"
  assumes stable_step: "inv s \<Longrightarrow> stable s \<Longrightarrow> step s t \<Longrightarrow> stable t"
begin

lemma steps_stable:
  assumes "step\<^sup>*\<^sup>* s t" and "inv s" and "stable s"
  shows "inv t \<and> stable t"
  using assms by (induction rule: rtranclp_induct) (auto intro: inv_step stable_step)

end

lemma reach_steps: "reach start step s \<Longrightarrow> step\<^sup>*\<^sup>* s t \<Longrightarrow> reach start step t"
  by (rotate_tac, induction rule: rtranclp_induct) (auto intro: reach_step)

text \<open>
  A queue that is drained in batches: while a given entry waits, every working event takes a full
  batch off the backlog and no other event adds to it, so the entry is done once the working
  events have covered the backlog. \<open>ready es s\<close> says that the events \<open>es\<close> can be run from \<open>s\<close>.
\<close>

locale draining =
  fixes work :: "'e \<Rightarrow> 's \<Rightarrow> 's" and ready :: "'e list \<Rightarrow> 's \<Rightarrow> bool" and counts :: "'e \<Rightarrow> bool"
    and backlog :: "'s \<Rightarrow> nat" and waiting :: "'s \<Rightarrow> bool" and batch :: nat
  assumes ready_step: "ready (e # es) s \<Longrightarrow> ready es (work e s)"
    and done_step: "ready (e # es) s \<Longrightarrow> \<not> waiting s \<Longrightarrow> \<not> waiting (work e s)"
    and takes_batch: "ready (e # es) s \<Longrightarrow> counts e \<Longrightarrow> waiting s \<Longrightarrow> waiting (work e s) \<Longrightarrow> backlog (work e s) + batch \<le> backlog s"
    and adds_nothing: "ready (e # es) s \<Longrightarrow> \<not> counts e \<Longrightarrow> backlog (work e s) \<le> backlog s"
    and waits_in_backlog: "ready es s \<Longrightarrow> waiting s \<Longrightarrow> 0 < backlog s"
begin

lemma done_stays: "ready es s \<Longrightarrow> \<not> waiting s \<Longrightarrow> \<not> waiting (fold work es s)"
  by (induction es arbitrary: s) (simp_all add: ready_step done_step)

lemma ready_end: "ready es s \<Longrightarrow> ready [] (fold work es s)"
  by (induction es arbitrary: s) (auto intro: ready_step)

lemma backlog_falls:
  "ready es s \<Longrightarrow> waiting (fold work es s) \<Longrightarrow> backlog (fold work es s) + batch * length (filter counts es) \<le> backlog s"
proof (induction es arbitrary: s)
  case (Cons e es)
  have rest: "ready es (work e s)" using Cons.prems(1) by (rule ready_step)
  with Cons have IH: "backlog (fold work es (work e s)) + batch * length (filter counts es) \<le> backlog (work e s)" by simp
  have "waiting (work e s)" using done_stays [OF rest] Cons.prems(2) by auto
  moreover from this have "waiting s" using done_step [OF Cons.prems(1)] by blast
  ultimately have "counts e \<Longrightarrow> backlog (work e s) + batch \<le> backlog s" using takes_batch [OF Cons.prems(1)] by blast
  with IH adds_nothing [OF Cons.prems(1)] show ?case by (cases "counts e") auto
qed simp

lemma drained:
  assumes "ready es s" and "backlog s \<le> batch * length (filter counts es)"
  shows "\<not> waiting (fold work es s)"
proof
  assume w: "waiting (fold work es s)"
  have "0 < backlog (fold work es s)" using waits_in_backlog [OF ready_end [OF assms(1)] w] .
  with backlog_falls [OF assms(1) w] assms(2) show False by linarith
qed

end

end
