(* ===== verification/Rust_Std.thy ===== *)
theory Rust_Std
  imports Prelude
begin

text \<open>
  The parts of the Rust standard library the service calls: byte strings and their UTF-8 view,
  \<^verbatim>\<open>str::trim\<close>, \<^verbatim>\<open>split_once\<close>, \<^verbatim>\<open>strip_prefix\<close>, decimal printing and parsing of integers, checked
  and saturating machine arithmetic. A Rust \<^verbatim>\<open>str\<close> is the list of its UTF-8 bytes.
\<close>

unbundle bit_operations_syntax

section \<open>Strings as byte lists\<close>

definition as_bytes :: "string \<Rightarrow> u8 list" where
  "as_bytes s = map (\<lambda>c. word_of_nat (of_char c)) s"

lemma inj_byte_of_char: "inj (\<lambda>c. word_of_nat (of_char c) :: u8)"
proof (rule injI)
  fix c d :: char
  assume "(word_of_nat (of_char c) :: u8) = word_of_nat (of_char d)"
  then have "unat (word_of_nat (of_char c) :: u8) = unat (word_of_nat (of_char d) :: u8)"
    by simp
  then have "(of_char c :: nat) mod 256 = of_char d mod 256"
    by (simp add: unat_of_nat)
  then show "c = d"
    by (simp add: of_char_mod_256 of_char_eq_iff)
qed

lemma as_bytes_inject [simp]: "as_bytes s = as_bytes t \<longleftrightarrow> s = t"
  unfolding as_bytes_def by (rule inj_map_eq_map [OF inj_byte_of_char])

lemma as_bytes_append [simp]: "as_bytes (s @ t) = as_bytes s @ as_bytes t"
  by (simp add: as_bytes_def)

lemma length_as_bytes [simp]: "length (as_bytes s) = length s"
  by (simp add: as_bytes_def)

text \<open>The encodings of the code points with the Unicode property \<^verbatim>\<open>White_Space\<close>.\<close>

definition white_space :: "string list" where
  "white_space =
     [[CHR 0x09], [CHR 0x0A], [CHR 0x0B], [CHR 0x0C], [CHR 0x0D], [CHR 0x20],
      [CHR 0xC2, CHR 0x85], [CHR 0xC2, CHR 0xA0], [CHR 0xE1, CHR 0x9A, CHR 0x80],
      [CHR 0xE2, CHR 0x80, CHR 0x80], [CHR 0xE2, CHR 0x80, CHR 0x81],
      [CHR 0xE2, CHR 0x80, CHR 0x82], [CHR 0xE2, CHR 0x80, CHR 0x83],
      [CHR 0xE2, CHR 0x80, CHR 0x84], [CHR 0xE2, CHR 0x80, CHR 0x85],
      [CHR 0xE2, CHR 0x80, CHR 0x86], [CHR 0xE2, CHR 0x80, CHR 0x87],
      [CHR 0xE2, CHR 0x80, CHR 0x88], [CHR 0xE2, CHR 0x80, CHR 0x89],
      [CHR 0xE2, CHR 0x80, CHR 0x8A], [CHR 0xE2, CHR 0x80, CHR 0xA8],
      [CHR 0xE2, CHR 0x80, CHR 0xA9], [CHR 0xE2, CHR 0x80, CHR 0xAF],
      [CHR 0xE2, CHR 0x81, CHR 0x9F], [CHR 0xE3, CHR 0x80, CHR 0x80]]"

definition strip_any :: "string list \<Rightarrow> string \<Rightarrow> string option" where
  "strip_any ps s =
     map_option (\<lambda>p. drop (length p) s) (find (\<lambda>p. p \<noteq> [] \<and> prefix p s) ps)"

lemma strip_any_shorter: "strip_any ps s = Some r \<Longrightarrow> length r < length s"
proof -
  assume "strip_any ps s = Some r"
  then obtain p where p: "p \<noteq> []" "prefix p s" "r = drop (length p) s"
    by (auto simp: strip_any_def find_Some_iff)
  then have "0 < length p" "length p \<le> length s" by (auto dest: prefix_length_le)
  with p show ?thesis by (simp only: length_drop)
qed

function trim_with :: "string list \<Rightarrow> string \<Rightarrow> string" where
  "trim_with ps s = (case strip_any ps s of None \<Rightarrow> s | Some r \<Rightarrow> trim_with ps r)"
  by pat_completeness auto
termination
  by (relation "measure (\<lambda>(ps, s). length s)") (auto dest: strip_any_shorter)

declare trim_with.simps [simp del]

definition trim_start :: "string \<Rightarrow> string" where
  "trim_start s = trim_with white_space s"

definition trim_end :: "string \<Rightarrow> string" where
  "trim_end s = rev (trim_with (map rev white_space) (rev s))"

definition trim :: "string \<Rightarrow> string" where
  "trim s = trim_end (trim_start s)"

lemma trim_with_stripped: "strip_any ps (trim_with ps s) = None"
proof (induction ps s rule: trim_with.induct)
  case (1 ps s)
  then show ?case by (subst trim_with.simps) (auto split: option.splits)
qed

lemma trim_with_id: "strip_any ps s = None \<Longrightarrow> trim_with ps s = s"
  by (subst trim_with.simps) simp

lemma trim_with_idem: "trim_with ps (trim_with ps s) = trim_with ps s"
  by (rule trim_with_id [OF trim_with_stripped])

definition strip_prefix :: "string \<Rightarrow> string \<Rightarrow> string option" where
  "strip_prefix p s = (if prefix p s then Some (drop (length p) s) else None)"

definition starts_with :: "string \<Rightarrow> string \<Rightarrow> bool" where
  "starts_with s p = prefix p s"

fun split_once :: "char \<Rightarrow> string \<Rightarrow> (string \<times> string) option" where
  "split_once c [] = None"
| "split_once c (x # xs) =
     (if x = c then Some ([], xs)
      else map_option (\<lambda>(a, b). (x # a, b)) (split_once c xs))"

lemma split_once_append: "c \<notin> set a \<Longrightarrow> split_once c (a @ c # b) = Some (a, b)"
  by (induction a) auto

lemma split_once_SomeD: "split_once c s = Some (a, b) \<Longrightarrow> s = a @ c # b \<and> c \<notin> set a"
  by (induction s arbitrary: a) (auto split: if_splits)

lemma split_once_Some: "split_once c s = Some (a, b) \<longleftrightarrow> s = a @ c # b \<and> c \<notin> set a"
  using split_once_SomeD split_once_append by blast

lemma split_once_None: "split_once c s = None \<longleftrightarrow> c \<notin> set s"
  by (induction s) auto

text \<open>
  A byte that does not continue a UTF-8 sequence starts a character; \<open>char_indices\<close> lists the
  offsets of those bytes.
\<close>

definition is_char_start :: "char \<Rightarrow> bool" where
  "is_char_start c = (of_char c < (128 :: nat) \<or> of_char c \<ge> (192 :: nat))"

definition char_indices :: "string \<Rightarrow> nat list" where
  "char_indices s = filter (\<lambda>i. is_char_start (s ! i)) [0..<length s]"

text \<open>\<^verbatim>\<open>String::from_utf8\<close>: the well-formed byte sequences of the Unicode standard.\<close>

definition is_cont :: "nat \<Rightarrow> bool" where
  "is_cont b = (0x80 \<le> b \<and> b \<le> 0xBF)"

text \<open>The number of continuation bytes and the range of the first of them, by lead byte.\<close>

definition utf8_lead :: "nat \<Rightarrow> (nat \<times> nat \<times> nat) option" where
  "utf8_lead b =
     (if b < 0x80 then Some (0, 0, 0)
      else if 0xC2 \<le> b \<and> b \<le> 0xDF then Some (1, 0x80, 0xBF)
      else if b = 0xE0 then Some (2, 0xA0, 0xBF)
      else if b = 0xED then Some (2, 0x80, 0x9F)
      else if 0xE1 \<le> b \<and> b \<le> 0xEF then Some (2, 0x80, 0xBF)
      else if b = 0xF0 then Some (3, 0x90, 0xBF)
      else if 0xF1 \<le> b \<and> b \<le> 0xF3 then Some (3, 0x80, 0xBF)
      else if b = 0xF4 then Some (3, 0x80, 0x8F)
      else None)"

function utf8_valid :: "nat list \<Rightarrow> bool" where
  "utf8_valid [] = True"
| "utf8_valid (b # bs) =
     (case utf8_lead b of
        None \<Rightarrow> False
      | Some (n, lo, hi) \<Rightarrow>
          n \<le> length bs
          \<and> (n > 0 \<longrightarrow> lo \<le> hd bs \<and> hd bs \<le> hi)
          \<and> list_all is_cont (take n bs)
          \<and> utf8_valid (drop n bs))"
  by pat_completeness auto
termination
  by (relation "measure length") auto

definition char_of_byte :: "u8 \<Rightarrow> char" where
  "char_of_byte b = char_of (unat b)"

definition from_utf8 :: "u8 list \<Rightarrow> string option" where
  "from_utf8 bs = (if utf8_valid (map unat bs) then Some (map char_of_byte bs) else None)"

lemma char_of_byte_as_bytes [simp]: "map char_of_byte (as_bytes s) = s"
  by (induction s) (simp_all add: as_bytes_def char_of_byte_def unat_of_nat)

definition is_ascii :: "string \<Rightarrow> bool" where
  "is_ascii s = list_all (\<lambda>c. of_char c < (128 :: nat)) s"

lemma utf8_valid_ascii: "is_ascii s \<Longrightarrow> utf8_valid (map unat (as_bytes s))"
proof (induction s)
  case (Cons c s)
  then have "unat (word_of_nat (of_char c) :: u8) < 128"
    by (simp add: is_ascii_def unat_of_nat)
  with Cons show ?case by (simp add: as_bytes_def utf8_lead_def is_ascii_def)
qed (simp add: as_bytes_def)

lemma from_utf8_ascii: "is_ascii s \<Longrightarrow> from_utf8 (as_bytes s) = Some s"
  by (simp add: from_utf8_def utf8_valid_ascii)

section \<open>Printing and parsing integers\<close>

definition digit_char :: "nat \<Rightarrow> char" where
  "digit_char d = char_of (48 + d)"

fun show_nat :: "nat \<Rightarrow> string" where
  "show_nat n = (if n < 10 then [digit_char n] else show_nat (n div 10) @ [digit_char (n mod 10)])"

declare show_nat.simps [simp del]

definition show_int :: "int \<Rightarrow> string" where
  "show_int i = (if i < 0 then CHR ''-'' # show_nat (nat (- i)) else show_nat (nat i))"

definition digit_val :: "char \<Rightarrow> nat option" where
  "digit_val c =
     (let n = of_char c in if 48 \<le> n \<and> n \<le> (57 :: nat) then Some (n - 48) else None)"

fun parse_digits :: "nat \<Rightarrow> string \<Rightarrow> nat option" where
  "parse_digits acc [] = Some acc"
| "parse_digits acc (c # cs) =
     (case digit_val c of None \<Rightarrow> None | Some d \<Rightarrow> parse_digits (10 * acc + d) cs)"

definition parse_nat :: "string \<Rightarrow> nat option" where
  "parse_nat s = (if s = [] then None else parse_digits 0 s)"

text \<open>\<^verbatim>\<open>u64::from_str\<close>: an optional plus sign, at least one digit, no overflow.\<close>

definition parse_u64 :: "string \<Rightarrow> u64 option" where
  "parse_u64 s =
     (case parse_nat (case strip_prefix ''+'' s of Some r \<Rightarrow> r | None \<Rightarrow> s) of
        None \<Rightarrow> None
      | Some n \<Rightarrow> if n < 2 ^ 64 then Some (of_nat n) else None)"

text \<open>\<^verbatim>\<open>i32::from_str\<close>: an optional sign, at least one digit, within range.\<close>

definition parse_i32 :: "string \<Rightarrow> int option" where
  "parse_i32 s =
     (let v = (case strip_prefix ''-'' s of
                 Some r \<Rightarrow> map_option (\<lambda>n. - int n) (parse_nat r)
               | None \<Rightarrow> map_option int (parse_nat (case strip_prefix ''+'' s of Some r \<Rightarrow> r | None \<Rightarrow> s)))
      in case v of None \<Rightarrow> None
         | Some i \<Rightarrow> if - (2 ^ 31) \<le> i \<and> i < 2 ^ 31 then Some i else None)"

lemma digit_val_digit_char: "d < 10 \<Longrightarrow> digit_val (digit_char d) = Some d"
  by (simp add: digit_val_def digit_char_def Let_def)

lemma parse_digits_append:
  "parse_digits acc (s @ t) =
     (case parse_digits acc s of None \<Rightarrow> None | Some a \<Rightarrow> parse_digits a t)"
  by (induction acc s rule: parse_digits.induct) (auto split: option.splits)

lemma parse_digits_show_nat: "parse_digits 0 (show_nat n) = Some n"
proof (induction n rule: show_nat.induct)
  case (1 n)
  show ?case
  proof (cases "n < 10")
    case True
    then show ?thesis by (subst show_nat.simps) (simp add: digit_val_digit_char)
  next
    case False
    with "1" have "parse_digits 0 (show_nat (n div 10)) = Some (n div 10)" by simp
    with False show ?thesis
      by (subst show_nat.simps) (simp add: parse_digits_append digit_val_digit_char)
  qed
qed

lemma show_nat_nonempty [simp]: "show_nat n \<noteq> []"
  by (subst show_nat.simps) simp

lemma parse_nat_show_nat [simp]: "parse_nat (show_nat n) = Some n"
  by (simp add: parse_nat_def parse_digits_show_nat)

lemma show_nat_inject [simp]: "show_nat m = show_nat n \<longleftrightarrow> m = n"
  by (metis option.inject parse_nat_show_nat)

lemma show_nat_digits: "c \<in> set (show_nat n) \<Longrightarrow> digit_val c \<noteq> None"
proof (induction n rule: show_nat.induct)
  case (1 n)
  then show ?case
    by (subst (asm) (2) show_nat.simps) (auto simp: digit_val_digit_char split: if_splits)
qed

lemma show_int_chars: "c \<in> set (show_int i) \<Longrightarrow> c = CHR ''-'' \<or> digit_val c \<noteq> None"
  by (auto simp: show_int_def dest: show_nat_digits split: if_splits)

lemma digit_val_minus: "digit_val CHR ''-'' = None"
  by (simp add: digit_val_def)

lemma show_nat_no_minus: "CHR ''-'' # s \<noteq> show_nat n"
proof
  assume "CHR ''-'' # s = show_nat n"
  then have "CHR ''-'' \<in> set (show_nat n)" by (metis list.set_intros(1))
  then show False using show_nat_digits digit_val_minus by blast
qed

lemma show_int_inject [simp]: "show_int i = show_int j \<longleftrightarrow> i = j"
  using show_nat_no_minus show_nat_no_minus [symmetric]
  by (auto simp: show_int_def split: if_splits)

section \<open>Machine arithmetic\<close>

definition i64_min :: int where "i64_min = - (2 ^ 63)"
definition i64_max :: int where "i64_max = 2 ^ 63 - 1"

text \<open>\<open>fit_i64\<close> is the range check of \<^verbatim>\<open>i64::checked_*\<close> and of a PostgreSQL \<^verbatim>\<open>bigint\<close> result.\<close>

definition fit_i64 :: "int \<Rightarrow> i64 option" where
  "fit_i64 v = (if i64_min \<le> v \<and> v \<le> i64_max then Some (word_of_int v) else None)"

definition checked_add_i64 :: "i64 \<Rightarrow> i64 \<Rightarrow> i64 option" where
  "checked_add_i64 a b = fit_i64 (sint a + sint b)"

definition checked_sub_i64 :: "i64 \<Rightarrow> i64 \<Rightarrow> i64 option" where
  "checked_sub_i64 a b = fit_i64 (sint a - sint b)"

definition checked_mul_i64 :: "i64 \<Rightarrow> i64 \<Rightarrow> i64 option" where
  "checked_mul_i64 a b = fit_i64 (sint a * sint b)"

definition saturating_mul_u64 :: "u64 \<Rightarrow> u64 \<Rightarrow> u64" where
  "saturating_mul_u64 a b =
     (if unat a * unat b < 2 ^ 64 then a * b else 2 ^ 64 - 1)"

text \<open>
  \<^verbatim>\<open>1u64 << n\<close> in a build without overflow checks (the release profile of the workspace): the
  shift count is taken modulo the width.
\<close>

definition shl_u64 :: "u64 \<Rightarrow> nat \<Rightarrow> u64" where
  "shl_u64 a n = push_bit (n mod 64) a"

text \<open>The cast \<^verbatim>\<open>as i32\<close> keeps the low 32 bits, read as two's complement.\<close>

definition as_i32 :: "int \<Rightarrow> int" where
  "as_i32 v = sint (word_of_int v :: 32 word)"

lemma i64_range: "i64_min \<le> sint (a :: i64)" "sint (a :: i64) \<le> i64_max"
  using sint_greater_eq [of a] sint_less [of a] by (simp_all add: i64_min_def i64_max_def)

lemma sint_word_of_int_i64:
  "i64_min \<le> v \<Longrightarrow> v \<le> i64_max \<Longrightarrow> sint (word_of_int v :: i64) = v"
  by (simp add: i64_min_def i64_max_def signed_take_bit_int_eq_self sint_uint
      uint_word_of_int_eq signed_take_bit_take_bit)

lemma fit_i64_Some: "fit_i64 v = Some w \<longleftrightarrow> sint w = v"
proof
  assume "fit_i64 v = Some w"
  then show "sint w = v" by (auto simp: fit_i64_def sint_word_of_int_i64 split: if_splits)
next
  assume "sint w = v"
  then show "fit_i64 v = Some w" using i64_range [of w] by (auto simp: fit_i64_def)
qed

lemma fit_i64_sint [simp]: "fit_i64 (sint w) = Some w"
  by (simp add: fit_i64_Some)

lemma fit_i64_None: "fit_i64 v = None \<longleftrightarrow> v < i64_min \<or> i64_max < v"
  by (auto simp: fit_i64_def)

lemma as_i32_small: "- (2 ^ 31) \<le> v \<Longrightarrow> v < 2 ^ 31 \<Longrightarrow> as_i32 v = v"
  by (simp add: as_i32_def signed_take_bit_int_eq_self sint_uint uint_word_of_int_eq
      signed_take_bit_take_bit)

lemma unat_saturating_mul: "unat (saturating_mul_u64 a b) = min (unat a * unat b) (2 ^ 64 - 1)"
proof (cases "unat a * unat b < 2 ^ 64")
  case True
  then show ?thesis by (simp add: saturating_mul_u64_def unat_word_ariths)
next
  case False
  then have "saturating_mul_u64 a b = - 1" by (simp add: saturating_mul_u64_def)
  moreover have "unat (- 1 :: u64) = 2 ^ 64 - 1"
    by (simp add: unsigned_minus_1_eq_mask mask_eq_exp_minus_1)
  ultimately show ?thesis using False by simp
qed

lemma unat_shl_one: "n < 64 \<Longrightarrow> unat (shl_u64 1 n) = 2 ^ n"
proof -
  assume n: "n < 64"
  then have "(2 :: nat) ^ n < 2 ^ 64" by (rule power_strict_increasing) simp
  then have "unat (of_nat (2 ^ n) :: u64) = 2 ^ n" by (simp only: unat_of_nat) simp
  with n show ?thesis by (simp add: shl_u64_def)
qed

end
