(* ===== verification/Money.thy ===== *)
theory Money
  imports Rust_Std
begin

text \<open>
  \<^verbatim>\<open>crates/common/src/money.rs\<close>: an amount of money as a signed 64-bit count of cents, with
  checked arithmetic and the display format.
\<close>

section \<open>Definitions\<close>

datatype money = Money (money_cents: i64)

datatype money_overflow = MoneyOverflow

definition money_zero :: money where
  "money_zero = Money 0"

definition from_cents :: "i64 \<Rightarrow> money" where
  "from_cents c = Money c"

definition cents :: "money \<Rightarrow> i64" where
  "cents m = money_cents m"

definition is_negative :: "money \<Rightarrow> bool" where
  "is_negative m = (sint (money_cents m) < 0)"

definition checked_mul_qty :: "money \<Rightarrow> i64 \<Rightarrow> (money_overflow, money) result" where
  "checked_mul_qty m qty = ok_or MoneyOverflow (map_option Money (checked_mul_i64 (money_cents m) qty))"

definition checked_add :: "money \<Rightarrow> money \<Rightarrow> (money_overflow, money) result" where
  "checked_add m k =
     ok_or MoneyOverflow (map_option Money (checked_add_i64 (money_cents m) (money_cents k)))"

definition checked_sub :: "money \<Rightarrow> money \<Rightarrow> (money_overflow, money) result" where
  "checked_sub m k =
     ok_or MoneyOverflow (map_option Money (checked_sub_i64 (money_cents m) (money_cents k)))"

text \<open>\<^verbatim>\<open>impl Sum\<close>: a fold with the plain (wrapping in release) addition.\<close>

definition money_sum :: "money list \<Rightarrow> money" where
  "money_sum ms = foldl (\<lambda>acc m. Money (money_cents acc + money_cents m)) money_zero ms"

text \<open>\<^verbatim>\<open>try_fold(Money::ZERO, Money::checked_add)\<close>, the checked counterpart.\<close>

fun money_try_sum :: "money \<Rightarrow> money list \<Rightarrow> (money_overflow, money) result" where
  "money_try_sum acc [] = Inr acc"
| "money_try_sum acc (m # ms) = res_bind (checked_add acc m) (\<lambda>a. money_try_sum a ms)"

definition pad2 :: "string \<Rightarrow> string" where
  "pad2 s = (if length s < 2 then replicate (2 - length s) CHR ''0'' @ s else s)"

definition money_fmt :: "money \<Rightarrow> string" where
  "money_fmt m =
     (let c = sint (money_cents m);
          sign = (if c < 0 then ''-'' else '''');
          a = nat \<bar>c\<bar>
      in sign @ ''$'' @ show_nat (a div 100) @ ''.'' @ pad2 (show_nat (a mod 100)))"

section \<open>Lemmas\<close>

lemma checked_add_Inr: "checked_add m k = Inr r \<longleftrightarrow> sint (cents r) = sint (cents m) + sint (cents k)"
  by (cases r) (auto simp: checked_add_def checked_add_i64_def cents_def result_simps
      fit_i64_Some)

lemma checked_sub_Inr: "checked_sub m k = Inr r \<longleftrightarrow> sint (cents r) = sint (cents m) - sint (cents k)"
  by (cases r) (auto simp: checked_sub_def checked_sub_i64_def cents_def result_simps
      fit_i64_Some)

lemma checked_mul_qty_Inr: "checked_mul_qty m q = Inr r \<longleftrightarrow> sint (cents r) = sint (cents m) * sint q"
  by (cases r) (auto simp: checked_mul_qty_def checked_mul_i64_def cents_def result_simps
      fit_i64_Some)

lemma checked_add_Inl: "checked_add m k = Inl e \<longleftrightarrow>
    \<not> (i64_min \<le> sint (cents m) + sint (cents k) \<and> sint (cents m) + sint (cents k) \<le> i64_max)"
  by (cases e) (auto simp: checked_add_def checked_add_i64_def cents_def result_simps fit_i64_None)

lemma foldl_money_add:
  "foldl (\<lambda>acc m. Money (money_cents acc + money_cents m)) a ms
     = Money (money_cents a + sum_list (map money_cents ms))"
  by (induction ms arbitrary: a) (simp_all add: add.assoc)

lemma word_of_int_sum_list:
  "word_of_int (sum_list (map (\<lambda>m. sint (f m)) ms)) = (sum_list (map f ms) :: i64)"
  by (induction ms) (simp_all flip: wi_hom_add)

lemma money_try_sum_sint:
  "money_try_sum acc ms = Inr r \<Longrightarrow>
     sint (cents r) = sint (cents acc) + sum_list (map (\<lambda>m. sint (cents m)) ms)"
  by (induction ms arbitrary: acc) (auto simp: result_simps checked_add_Inr)

lemma money_try_sum_total:
  assumes "\<And>m. m \<in> set ms \<Longrightarrow> \<not> is_negative m" and "0 \<le> sint (cents acc)"
    and "sint (cents acc) + sum_list (map (\<lambda>m. sint (cents m)) ms) \<le> i64_max"
  shows "\<exists>r. money_try_sum acc ms = Inr r"
  using assms
proof (induction ms arbitrary: acc)
  case (Cons m ms)
  have pos: "0 \<le> sint (cents m)" using Cons.prems(1) [of m] by (simp add: is_negative_def cents_def)
  have rest: "0 \<le> sum_list (map (\<lambda>m. sint (cents m)) ms)"
    by (rule sum_list_nonneg) (use Cons.prems(1) in \<open>auto simp: is_negative_def cents_def not_less\<close>)
  let ?s = "sint (cents acc) + sint (cents m)"
  from pos rest Cons.prems(2,3) have range: "i64_min \<le> ?s" "?s \<le> i64_max"
    by (auto simp: i64_min_def)
  then obtain a where a: "checked_add acc m = Inr a"
    by (cases "checked_add acc m") (auto simp: checked_add_Inl)
  then have "sint (cents a) = ?s" by (simp add: checked_add_Inr)
  with pos Cons have "\<exists>r. money_try_sum a ms = Inr r" by (intro Cons.IH) (auto simp: algebra_simps)
  with a show ?case by auto
qed simp

lemma pad2_small: "n < 100 \<Longrightarrow> length (pad2 (show_nat n)) = 2"
  by (cases "n < 10") (simp_all add: pad2_def show_nat.simps [of n] show_nat.simps [of "n div 10"])

lemma pad2_inject:
  assumes "m < 100" "n < 100" "pad2 (show_nat m) = pad2 (show_nat n)"
  shows "m = n"
proof -
  have "parse_digits 0 (pad2 (show_nat k)) = Some k" if "k < 100" for k
  proof (cases "k < 10")
    case True
    then have "pad2 (show_nat k) = ''0'' @ show_nat k"
      by (simp add: pad2_def show_nat.simps [of k])
    then show ?thesis by (simp add: parse_digits_show_nat digit_val_def)
  next
    case False
    with that have "pad2 (show_nat k) = show_nat k"
      by (simp add: pad2_def show_nat.simps [of k] show_nat.simps [of "k div 10"])
    then show ?thesis by (simp add: parse_digits_show_nat)
  qed
  with assms show ?thesis by (metis option.inject)
qed

lemma show_nat_dot_split:
  assumes "show_nat a @ ''.'' @ s = show_nat b @ ''.'' @ t"
  shows "a = b \<and> s = t"
proof -
  have nodot: "CHR ''.'' \<notin> set (show_nat n)" for n
  proof
    assume "CHR ''.'' \<in> set (show_nat n)"
    then have "digit_val CHR ''.'' \<noteq> None" by (rule show_nat_digits)
    then show False by (simp add: digit_val_def)
  qed
  have "split_once CHR ''.'' (show_nat a @ CHR ''.'' # s) = Some (show_nat a, s)"
    by (rule split_once_append [OF nodot])
  moreover have "split_once CHR ''.'' (show_nat b @ CHR ''.'' # t) = Some (show_nat b, t)"
    by (rule split_once_append [OF nodot])
  moreover have "show_nat a @ CHR ''.'' # s = show_nat b @ CHR ''.'' # t" using assms by simp
  ultimately have "Some (show_nat a, s) = Some (show_nat b, t)" by (simp only:)
  then show ?thesis by simp
qed

lemma div_mod_eqI: "(a :: nat) div n = b div n \<Longrightarrow> a mod n = b mod n \<Longrightarrow> a = b"
  by (metis div_mult_mod_eq)

lemma money_fmt_sign: "hd (money_fmt m) = CHR ''-'' \<longleftrightarrow> is_negative m"
  by (simp add: money_fmt_def is_negative_def Let_def)

section \<open>Properties\<close>

text \<open>
  Checked money arithmetic is exact. Each operation returns the mathematical result
  whenever it is a 64-bit value, and the overflow error in every other case: nothing wraps.
\<close>

theorem checked_ops_exact:
  "(checked_add m k = (let v = sint (cents m) + sint (cents k) in
      if i64_min \<le> v \<and> v \<le> i64_max then Inr (from_cents (word_of_int v)) else Inl MoneyOverflow))
   \<and> (checked_sub m k = (let v = sint (cents m) - sint (cents k) in
      if i64_min \<le> v \<and> v \<le> i64_max then Inr (from_cents (word_of_int v)) else Inl MoneyOverflow))
   \<and> (checked_mul_qty m q = (let v = sint (cents m) * sint q in
      if i64_min \<le> v \<and> v \<le> i64_max then Inr (from_cents (word_of_int v)) else Inl MoneyOverflow))"
  by (simp add: checked_add_def checked_sub_def checked_mul_qty_def checked_add_i64_def
      checked_sub_i64_def checked_mul_i64_def fit_i64_def Let_def cents_def from_cents_def)

text \<open>
  Summing non-negative amounts whose exact total fits in 64 bits succeeds, the checked sum
  is that exact total, and the unchecked \<^verbatim>\<open>Sum\<close> implementation returns the same amount.
\<close>

theorem checked_sum_total:
  assumes "\<forall>m \<in> set ms. \<not> is_negative m"
    and "sum_list (map (\<lambda>m. sint (cents m)) ms) \<le> i64_max"
  shows "\<exists>r. money_try_sum money_zero ms = Inr r \<and> money_sum ms = r
           \<and> sint (cents r) = sum_list (map (\<lambda>m. sint (cents m)) ms)"
proof -
  have zero: "sint (cents money_zero) = 0" by (simp add: cents_def money_zero_def)
  obtain r where r: "money_try_sum money_zero ms = Inr r"
    using money_try_sum_total [of ms money_zero] assms zero by auto
  then have exact: "sint (cents r) = sum_list (map (\<lambda>m. sint (cents m)) ms)"
    using money_try_sum_sint zero by fastforce
  have "cents (money_sum ms) = sum_list (map cents ms)"
    by (simp add: money_sum_def foldl_money_add money_zero_def cents_def [abs_def])
  also have "\<dots> = word_of_int (sint (cents r))" by (simp only: exact word_of_int_sum_list)
  finally have "money_sum ms = r" by (cases r, cases "money_sum ms") (simp add: cents_def)
  with r exact show ?thesis by blast
qed

theorem checked_sum_total_witness:
  "\<exists>r. money_try_sum money_zero [Money 5997, Money 1] = Inr r \<and> money_sum [Money 5997, Money 1] = r
     \<and> sint (cents r) = 5998"
  using checked_sum_total [of "[Money 5997, Money 1]"]
  by (simp add: is_negative_def cents_def i64_max_def)

text \<open>
  The display format of money loses nothing: two amounts print alike only when they are the
  same amount, over the whole range of 64-bit cent counts.
\<close>

theorem money_fmt_injective: "inj money_fmt"
proof (rule injI)
  fix m k assume eq: "money_fmt m = money_fmt k"
  let ?a = "nat \<bar>sint (money_cents m)\<bar>" and ?b = "nat \<bar>sint (money_cents k)\<bar>"
  have sign: "is_negative m \<longleftrightarrow> is_negative k" using eq money_fmt_sign by metis
  with eq have "show_nat (?a div 100) @ ''.'' @ pad2 (show_nat (?a mod 100))
      = show_nat (?b div 100) @ ''.'' @ pad2 (show_nat (?b mod 100))"
    by (auto simp: money_fmt_def is_negative_def Let_def split: if_splits)
  then have "?a div 100 = ?b div 100" "pad2 (show_nat (?a mod 100)) = pad2 (show_nat (?b mod 100))"
    using show_nat_dot_split by blast+
  moreover from this(2) have "?a mod 100 = ?b mod 100" by (intro pad2_inject) simp_all
  ultimately have "?a = ?b" by (intro div_mod_eqI [of ?a 100 ?b])
  then have "\<bar>sint (money_cents m)\<bar> = \<bar>sint (money_cents k)\<bar>" by simp
  with sign have "sint (money_cents m) = sint (money_cents k)" by (auto simp: is_negative_def)
  then have "money_cents m = money_cents k" by (rule signed_word_eqI)
  then show "m = k" by (cases m, cases k) simp
qed

end
