(* ===== verification/External.thy ===== *)
theory External
  imports Rust_Std
begin

text \<open>
  The third-party functions the service calls and whose code is not part of the repository
  (crates hex, uuid, chrono, sha2, hmac, serde_json, http): one record of parameters, with the
  documented behaviour the service relies on as named predicates. A JSON value is the value
  type of serde_json. \<open>citext_lower\<close> is the case folding by which PostgreSQL compares \<^verbatim>\<open>citext\<close>
  values, which depends on the collation of the database.
\<close>

datatype json =
    JNull
  | JBool bool
  | JNumber int
  | JString string
  | JArray "json list"
  | JObject "(string \<times> json) list"

fun json_field :: "string \<Rightarrow> json \<Rightarrow> json option" where
  "json_field k (JObject fs) = map_of fs k"
| "json_field k _ = None"

record ext =
  hex_encode :: "u8 list \<Rightarrow> string"
  hex_decode :: "string \<Rightarrow> u8 list option"
  uuid_as_bytes :: "uuid \<Rightarrow> u8 list"
  uuid_to_string :: "uuid \<Rightarrow> string"
  uuid_parse_str :: "string \<Rightarrow> uuid option"
  to_rfc3339 :: "timestamp \<Rightarrow> string"
  parse_from_rfc3339 :: "string \<Rightarrow> timestamp option"
  sha256 :: "u8 list \<Rightarrow> u8 list"
  hmac_sha256 :: "u8 list \<Rightarrow> u8 list \<Rightarrow> u8 list"
  json_to_vec :: "json \<Rightarrow> u8 list"
  citext_lower :: "string \<Rightarrow> string"
  header_to_str :: "u8 list \<Rightarrow> string option"

definition hex_laws :: "ext \<Rightarrow> bool" where
  "hex_laws E \<longleftrightarrow> (\<forall>bs. hex_decode E (hex_encode E bs) = Some bs)"

text \<open>A printed UUID is made of hexadecimal digits and dashes.\<close>

definition uuid_laws :: "ext \<Rightarrow> bool" where
  "uuid_laws E \<longleftrightarrow>
     (\<forall>u. uuid_parse_str E (uuid_to_string E u) = Some u
        \<and> set (uuid_to_string E u) \<subseteq> set ''0123456789abcdef-'') \<and>
     (\<forall>u. length (uuid_as_bytes E u) = 16) \<and> inj (uuid_as_bytes E)"

text \<open>A printed RFC 3339 timestamp is made of digits and the characters \<^verbatim>\<open>-:.+TZ\<close>.\<close>

definition rfc3339_laws :: "ext \<Rightarrow> bool" where
  "rfc3339_laws E \<longleftrightarrow>
     (\<forall>t. parse_from_rfc3339 E (to_rfc3339 E t) = Some t
        \<and> set (to_rfc3339 E t) \<subseteq> set ''0123456789-:.+TZ'')"

text \<open>\<^verbatim>\<open>HeaderValue::to_str\<close> accepts every value made of visible ASCII characters and spaces.\<close>

definition visible_ascii :: "string \<Rightarrow> bool" where
  "visible_ascii s = list_all (\<lambda>c. (32 :: nat) \<le> of_char c \<and> of_char c < (127 :: nat)) s"

definition header_laws :: "ext \<Rightarrow> bool" where
  "header_laws E \<longleftrightarrow> (\<forall>s. visible_ascii s \<longrightarrow> header_to_str E (as_bytes s) = Some s)"

section \<open>An instance of the parameters\<close>

text \<open>
  A concrete record that satisfies every law, used where a theorem is applied at a concrete
  input: the theorems are about all records, this one shows that their hypotheses can hold.
\<close>

definition sample_hex_digit :: "nat \<Rightarrow> char" where
  "sample_hex_digit n = (if n < 10 then char_of (48 + n) else char_of (87 + n))"

definition sample_hex_val :: "char \<Rightarrow> nat" where
  "sample_hex_val c = (if of_char c < (58 :: nat) then of_char c - 48 else of_char c - 87)"

fun sample_hex_encode :: "u8 list \<Rightarrow> string" where
  "sample_hex_encode [] = []"
| "sample_hex_encode (b # bs) =
     sample_hex_digit (unat b div 16) # sample_hex_digit (unat b mod 16) # sample_hex_encode bs"

fun sample_hex_decode :: "string \<Rightarrow> u8 list option" where
  "sample_hex_decode [] = Some []"
| "sample_hex_decode [c] = None"
| "sample_hex_decode (c # d # s) =
     map_option (\<lambda>bs. word_of_nat (16 * sample_hex_val c + sample_hex_val d) # bs)
       (sample_hex_decode s)"

definition sample_uuid_bytes :: "uuid \<Rightarrow> u8 list" where
  "sample_uuid_bytes u = map (\<lambda>i. ucast (drop_bit (8 * i) u)) [0..<16]"

definition sample_uuid_parse :: "string \<Rightarrow> uuid option" where
  "sample_uuid_parse s = map_option word_of_nat (parse_nat s)"

definition sample_time_parse :: "string \<Rightarrow> timestamp option" where
  "sample_time_parse s =
     (case s of
        [] \<Rightarrow> None
      | c # cs \<Rightarrow> if c = CHR ''-'' then map_option (\<lambda>n. - int n) (parse_nat cs)
                 else map_option int (parse_nat s))"

definition sample_ext :: ext where
  "sample_ext = \<lparr>hex_encode = sample_hex_encode, hex_decode = sample_hex_decode,
     uuid_as_bytes = sample_uuid_bytes,
     uuid_to_string = (\<lambda>u. show_nat (unat u)), uuid_parse_str = sample_uuid_parse,
     to_rfc3339 = show_int, parse_from_rfc3339 = sample_time_parse,
     sha256 = (\<lambda>bs. bs), hmac_sha256 = (\<lambda>k m. k @ m), json_to_vec = (\<lambda>j. []),
     citext_lower = (\<lambda>s. s),
     header_to_str = (\<lambda>bs. let s = map char_of_byte bs in if visible_ascii s then Some s else None)\<rparr>"

lemma sample_hex_val_digit: "n < 16 \<Longrightarrow> sample_hex_val (sample_hex_digit n) = n"
  by (simp add: sample_hex_val_def sample_hex_digit_def)

lemma sample_hex_round_trip: "sample_hex_decode (sample_hex_encode bs) = Some bs"
proof (induction bs)
  case (Cons b bs)
  have "unat b < 256" using unsigned_less [of b] by simp
  then have "unat b div 16 < 16" "unat b mod 16 < 16" by simp_all
  then show ?case using Cons by (simp add: sample_hex_val_digit)
qed simp

lemma sample_uuid_bytes_inj: "inj sample_uuid_bytes"
proof (rule injI, rule bit_word_eqI)
  fix u v :: uuid and n
  assume eq: "sample_uuid_bytes u = sample_uuid_bytes v" and n: "n < LENGTH(128)"
  let ?i = "n div 8"
  from n have "?i < 16" by simp
  with eq have "(ucast (drop_bit (8 * ?i) u) :: u8) = ucast (drop_bit (8 * ?i) v)"
    by (auto simp: sample_uuid_bytes_def list_eq_iff_nth_eq dest: spec [of _ ?i])
  then have "bit (ucast (drop_bit (8 * ?i) u) :: u8) (n mod 8)
      = bit (ucast (drop_bit (8 * ?i) v) :: u8) (n mod 8)" by simp
  then show "bit u n = bit v n" by (simp add: bit_ucast_iff bit_drop_bit_eq)
qed

lemma digit_val_chars: "digit_val c \<noteq> None \<Longrightarrow> c \<in> set ''0123456789''"
proof -
  assume "digit_val c \<noteq> None"
  then have "48 \<le> (of_char c :: nat) \<and> of_char c < (58 :: nat)"
    by (simp add: digit_val_def Let_def split: if_splits)
  then have "of_char c \<in> set [48..<58 :: nat]" by (simp only: set_upt atLeastLessThan_iff)
  then have "char_of (of_char c :: nat) \<in> char_of ` set [48..<58 :: nat]" by (rule imageI)
  also have "char_of ` set [48..<58 :: nat] = set (map char_of [48..<58 :: nat])"
    by (simp only: set_map)
  also have "map char_of [48..<58 :: nat] = ''0123456789''" by code_simp
  finally show ?thesis by simp
qed

lemma show_nat_subset: "set (show_nat n) \<subseteq> set ''0123456789''"
  using show_nat_digits digit_val_chars by blast

lemma show_int_subset: "set (show_int i) \<subseteq> insert CHR ''-'' (set ''0123456789'')"
  using show_int_chars digit_val_chars by blast

lemma sample_hex_laws: "hex_laws sample_ext"
  by (simp add: hex_laws_def sample_ext_def sample_hex_round_trip)

lemma sample_uuid_laws: "uuid_laws sample_ext"
proof -
  have "set ''0123456789'' \<subseteq> set ''0123456789abcdef-''" by simp
  then have "set (show_nat (unat u)) \<subseteq> set ''0123456789abcdef-''" for u :: uuid
    by (rule subset_trans [OF show_nat_subset])
  moreover have "length (sample_uuid_bytes u) = 16" for u by (simp add: sample_uuid_bytes_def)
  ultimately show ?thesis
    by (simp add: uuid_laws_def sample_ext_def sample_uuid_parse_def sample_uuid_bytes_inj)
qed

lemma sample_rfc3339_laws: "rfc3339_laws sample_ext"
proof -
  have parse: "sample_time_parse (show_int t) = Some t" for t
  proof (cases "t < 0")
    case True
    then show ?thesis by (simp add: sample_time_parse_def show_int_def)
  next
    case False
    then obtain c cs where s: "show_nat (nat t) = c # cs"
      by (cases "show_nat (nat t)") auto
    then have "c \<noteq> CHR ''-''" using show_nat_no_minus by metis
    moreover have "parse_nat (c # cs) = Some (nat t)" using s parse_nat_show_nat by metis
    ultimately show ?thesis using False s by (simp add: sample_time_parse_def show_int_def)
  qed
  have "insert CHR ''-'' (set ''0123456789'') \<subseteq> set ''0123456789-:.+TZ''" by simp
  then have "set (show_int t) \<subseteq> set ''0123456789-:.+TZ''" for t
    by (rule subset_trans [OF show_int_subset])
  with parse show ?thesis by (simp add: rfc3339_laws_def sample_ext_def)
qed

lemma sample_header_laws: "header_laws sample_ext"
  by (simp add: header_laws_def sample_ext_def)

lemmas sample_laws = sample_hex_laws sample_uuid_laws sample_rfc3339_laws

end
