(* ===== verification/App_Error.thy ===== *)
theory App_Error
  imports External
begin

text \<open>
  \<^verbatim>\<open>crates/common/src/error.rs\<close> and the error helpers of \<^verbatim>\<open>repositories/mod.rs\<close>: the error type
  of every handler, its HTTP rendering, and the conversion of database errors.
\<close>

section \<open>Definitions\<close>

text \<open>
  The database errors the code tells apart: no row, an error with an SQLSTATE and perhaps a
  constraint name, and anything else (a lost connection, a decoding failure).
\<close>

datatype sqlx_error = RowNotFound | Database string "string option" | SqlxOther string

record field_error =
  fe_field :: string
  fe_issue :: string

definition new_field_error :: "string \<Rightarrow> string \<Rightarrow> field_error" where
  "new_field_error f i = \<lparr>fe_field = f, fe_issue = i\<rparr>"

text \<open>What an \<^verbatim>\<open>anyhow::Error\<close> inside \<^verbatim>\<open>Internal\<close> was made from.\<close>

datatype internal_cause = SqlxCause sqlx_error | SerdeCause string

datatype app_error =
    Unauthorized
  | NotFound string
  | Validation "field_error list"
  | Conflict string string
  | InvalidStateTransition string string
  | PaymentDeclined string
  | Internal internal_cause

fun conflict :: "string \<Rightarrow> string \<Rightarrow> app_error" where
  "conflict code message = Conflict code message"

fun parts :: "app_error \<Rightarrow> nat \<times> string \<times> string" where
  "parts Unauthorized = (401, ''unauthorized'', ''authentication_error'')"
| "parts (NotFound _) = (404, ''not_found'', ''invalid_request_error'')"
| "parts (Validation _) = (422, ''validation_error'', ''invalid_request_error'')"
| "parts (Conflict code _) = (409, code, ''invalid_request_error'')"
| "parts (InvalidStateTransition _ _) = (409, ''invalid_state_transition'', ''invalid_request_error'')"
| "parts (PaymentDeclined _) = (402, ''payment_declined'', ''card_error'')"
| "parts (Internal _) = (500, ''internal_error'', ''api_error'')"

text \<open>The \<^verbatim>\<open>Display\<close> strings of the \<^verbatim>\<open>#[error(...)]\<close> attributes.\<close>

fun app_error_display :: "app_error \<Rightarrow> string" where
  "app_error_display Unauthorized = ''authentication required or invalid credentials''"
| "app_error_display (NotFound s) = s"
| "app_error_display (Validation _) = ''validation failed''"
| "app_error_display (Conflict code m) = code @ '': '' @ m"
| "app_error_display (InvalidStateTransition f t) =
     ''cannot transition invoice from '' @ f @ '' to '' @ t"
| "app_error_display (PaymentDeclined c) = ''payment declined: '' @ c"
| "app_error_display (Internal (SqlxCause RowNotFound)) = ''no rows returned''"
| "app_error_display (Internal (SqlxCause (Database c k))) = c"
| "app_error_display (Internal (SqlxCause (SqlxOther m))) = m"
| "app_error_display (Internal (SerdeCause m)) = m"

record error_detail =
  ed_code :: string
  ed_type :: string
  ed_message :: string
  ed_details :: "field_error list"

record http_error =
  he_status :: nat
  he_error :: error_detail

fun message_details :: "app_error \<Rightarrow> string \<times> field_error list" where
  "message_details (Internal _) = (''an internal error occurred'', [])"
| "message_details (Validation fes) = (''one or more fields are invalid'', fes)"
| "message_details (Conflict _ m) = (m, [])"
| "message_details other = (app_error_display other, [])"

definition into_response :: "app_error \<Rightarrow> http_error" where
  "into_response e =
     (let (status, code, ty) = parts e; (message, details) = message_details e
      in \<lparr>he_status = status,
          he_error = \<lparr>ed_code = code, ed_type = ty, ed_message = message, ed_details = details\<rparr>\<rparr>)"

text \<open>The JSON body: \<^verbatim>\<open>details\<close> is left out when it is empty.\<close>

definition field_error_json :: "field_error \<Rightarrow> json" where
  "field_error_json f = JObject [(''field'', JString (fe_field f)), (''issue'', JString (fe_issue f))]"

definition error_body_json :: "error_detail \<Rightarrow> json" where
  "error_body_json d =
     JObject [(''error'', JObject
       ([(''code'', JString (ed_code d)), (''type'', JString (ed_type d)),
         (''message'', JString (ed_message d))]
        @ (if ed_details d = [] then []
           else [(''details'', JArray (map field_error_json (ed_details d)))])))]"

fun from_sqlx :: "sqlx_error \<Rightarrow> app_error" where
  "from_sqlx RowNotFound = NotFound ''resource not found''"
| "from_sqlx other = Internal (SqlxCause other)"

fun is_unique_violation :: "sqlx_error \<Rightarrow> bool" where
  "is_unique_violation (Database code _) = (code = ''23505'')"
| "is_unique_violation _ = False"

fun constraint_name :: "sqlx_error \<Rightarrow> string option" where
  "constraint_name (Database _ c) = c"
| "constraint_name _ = None"

section \<open>Lemmas\<close>

lemma he_status_into_response: "he_status (into_response e) = fst (parts e)"
  by (simp add: into_response_def split: prod.splits)

lemma ed_code_into_response: "ed_code (he_error (into_response e)) = fst (snd (parts e))"
  by (simp add: into_response_def split: prod.splits)

lemma json_details:
  "json_field ''details'' (JObject
       ([(''code'', a), (''type'', b), (''message'', c)] @ (if xs = [] then [] else [(''details'', d)])))
     = (if xs = [] then None else Some d)"
  by simp

section \<open>Properties\<close>

text \<open>
  The error envelope. Every error is rendered with a 4xx or 500 status; an internal error's
  response is the same whatever the cause was, so no cause reaches a client; and the body has
  a details field exactly for a validation error with at least one field problem.
\<close>

theorem error_envelope:
  "he_status (into_response e) \<in> {401, 402, 404, 409, 422, 500}
   \<and> into_response (Internal c) = into_response (Internal c')
   \<and> (he_status (into_response e) = 500 \<longleftrightarrow> (\<exists>c. e = Internal c))
   \<and> ((\<exists>o'. json_field ''error'' (error_body_json (he_error (into_response e))) = Some o'
          \<and> json_field ''details'' o' \<noteq> None)
      \<longleftrightarrow> (\<exists>f fs. e = Validation (f # fs)))"
proof -
  have "(\<exists>o'. json_field ''error'' (error_body_json (he_error (into_response e))) = Some o'
          \<and> json_field ''details'' o' \<noteq> None) \<longleftrightarrow> ed_details (he_error (into_response e)) \<noteq> []"
    by (simp add: error_body_json_def)
  also have "\<dots> \<longleftrightarrow> (\<exists>f fs. e = Validation (f # fs))"
    by (cases e) (auto simp: into_response_def neq_Nil_conv)
  finally show ?thesis
    by (cases e) (auto simp: into_response_def)
qed

end
