(* ===== verification/Domain.thy ===== *)
theory Domain
  imports Money App_Error
begin

text \<open>
  \<^verbatim>\<open>crates/invoice-service/src/domain\<close>: the entities, the enums mirrored by PostgreSQL enums, the
  request and response types, and the invoice state machine. Field names carry a prefix per
  struct, since record fields share one name space.
\<close>

section \<open>Invoices (\<^verbatim>\<open>domain/invoice.rs\<close>)\<close>

datatype invoice_state = Draft | Open | Paid | Void | Uncollectible

fun as_str :: "invoice_state \<Rightarrow> string" where
  "as_str Draft = ''draft''"
| "as_str Open = ''open''"
| "as_str Paid = ''paid''"
| "as_str Void = ''void''"
| "as_str Uncollectible = ''uncollectible''"

fun is_terminal :: "invoice_state \<Rightarrow> bool" where
  "is_terminal Paid = True"
| "is_terminal Void = True"
| "is_terminal Uncollectible = True"
| "is_terminal _ = False"

fun can_transition_to :: "invoice_state \<Rightarrow> invoice_state \<Rightarrow> bool" where
  "can_transition_to Draft Open = True"
| "can_transition_to Draft Void = True"
| "can_transition_to Open Paid = True"
| "can_transition_to Open Void = True"
| "can_transition_to Open Uncollectible = True"
| "can_transition_to _ _ = False"

record invoice =
  inv_id :: uuid
  inv_business_id :: uuid
  inv_customer_id :: uuid
  inv_state :: invoice_state
  inv_currency :: string
  inv_total_cents :: money
  inv_finalized_at :: "timestamp option"
  inv_paid_at :: "timestamp option"
  inv_voided_at :: "timestamp option"
  inv_version :: int
  inv_created_at :: timestamp
  inv_updated_at :: timestamp

record line_item =
  li_id :: uuid
  li_invoice_id :: uuid
  li_description :: string
  li_quantity :: i64
  li_unit_amount_cents :: money
  li_amount_cents :: money
  li_position :: int

record create_line_item =
  cl_description :: string
  cl_quantity :: i64
  cl_unit_amount_cents :: i64

record create_invoice_request =
  ci_customer_id :: uuid
  ci_line_items :: "create_line_item list"

record line_item_response =
  lr_description :: string
  lr_quantity :: i64
  lr_unit_amount_cents :: i64
  lr_amount_cents :: i64

definition line_item_into :: "line_item \<Rightarrow> line_item_response" where
  "line_item_into li =
     \<lparr>lr_description = li_description li, lr_quantity = li_quantity li,
      lr_unit_amount_cents = cents (li_unit_amount_cents li),
      lr_amount_cents = cents (li_amount_cents li)\<rparr>"

record invoice_response =
  ir_id :: uuid
  ir_customer_id :: uuid
  ir_state :: invoice_state
  ir_currency :: string
  ir_total_cents :: i64
  ir_line_items :: "line_item_response list"
  ir_finalized_at :: "timestamp option"
  ir_paid_at :: "timestamp option"
  ir_created_at :: timestamp

definition from_parts :: "invoice \<Rightarrow> line_item list \<Rightarrow> invoice_response" where
  "from_parts iv items =
     \<lparr>ir_id = inv_id iv, ir_customer_id = inv_customer_id iv, ir_state = inv_state iv,
      ir_currency = inv_currency iv, ir_total_cents = cents (inv_total_cents iv),
      ir_line_items = map line_item_into items, ir_finalized_at = inv_finalized_at iv,
      ir_paid_at = inv_paid_at iv, ir_created_at = inv_created_at iv\<rparr>"

section \<open>Payments (\<^verbatim>\<open>domain/payment.rs\<close>)\<close>

datatype payment_status = Pending | Succeeded | Failed | Expired

fun payment_status_str :: "payment_status \<Rightarrow> string" where
  "payment_status_str Pending = ''pending''"
| "payment_status_str Succeeded = ''succeeded''"
| "payment_status_str Failed = ''failed''"
| "payment_status_str Expired = ''expired''"

record payment_attempt =
  pa_id :: uuid
  pa_invoice_id :: uuid
  pa_business_id :: uuid
  pa_idempotency_key :: string
  pa_amount_cents :: money
  pa_currency :: string
  pa_card_token :: string
  pa_status :: payment_status
  pa_psp_ref :: "string option"
  pa_failure_code :: "string option"
  pa_last_error :: "string option"
  pa_attempt_count :: int
  pa_next_poll_at :: "timestamp option"
  pa_created_at :: timestamp
  pa_updated_at :: timestamp

record pay_request =
  pr_card_token :: string

record payment_attempt_response =
  rs_attempt_id :: uuid
  rs_invoice_id :: uuid
  rs_status :: payment_status
  rs_amount_cents :: i64
  rs_invoice_state :: string
  rs_psp_ref :: "string option"
  rs_failure_code :: "string option"
  rs_message :: "string option"
  rs_poll_url :: "string option"

text \<open>
  The derived \<^verbatim>\<open>Serialize\<close> and \<^verbatim>\<open>Deserialize\<close>: fields in order, an absent optional field is left
  out, a missing or null one reads as \<^verbatim>\<open>None\<close>. These carry the cached response of an
  idempotency key through its JSON column.
\<close>

definition opt_field :: "string \<Rightarrow> string option \<Rightarrow> (string \<times> json) list" where
  "opt_field k v = (case v of None \<Rightarrow> [] | Some s \<Rightarrow> [(k, JString s)])"

definition response_to_value :: "ext \<Rightarrow> payment_attempt_response \<Rightarrow> json" where
  "response_to_value E r =
     JObject ([(''attempt_id'', JString (uuid_to_string E (rs_attempt_id r))),
               (''invoice_id'', JString (uuid_to_string E (rs_invoice_id r))),
               (''status'', JString (payment_status_str (rs_status r))),
               (''amount_cents'', JNumber (sint (rs_amount_cents r))),
               (''invoice_state'', JString (rs_invoice_state r))]
              @ opt_field ''psp_ref'' (rs_psp_ref r)
              @ opt_field ''failure_code'' (rs_failure_code r)
              @ opt_field ''message'' (rs_message r)
              @ opt_field ''poll_url'' (rs_poll_url r))"

fun json_string :: "json \<Rightarrow> string option" where
  "json_string (JString s) = Some s"
| "json_string _ = None"

fun json_i64 :: "json \<Rightarrow> i64 option" where
  "json_i64 (JNumber n) = fit_i64 n"
| "json_i64 _ = None"

definition json_status :: "json \<Rightarrow> payment_status option" where
  "json_status j =
     Option.bind (json_string j) (\<lambda>s.
       find (\<lambda>st. payment_status_str st = s) [Pending, Succeeded, Failed, Expired])"

definition json_opt_string :: "string \<Rightarrow> json \<Rightarrow> string option option" where
  "json_opt_string k j =
     (case json_field k j of
        None \<Rightarrow> Some None
      | Some JNull \<Rightarrow> Some None
      | Some v \<Rightarrow> map_option Some (json_string v))"

definition response_from_value :: "ext \<Rightarrow> json \<Rightarrow> payment_attempt_response option" where
  "response_from_value E j =
     Option.bind (json_field ''attempt_id'' j) (\<lambda>ja.
     Option.bind (Option.bind (json_string ja) (uuid_parse_str E)) (\<lambda>attempt_id.
     Option.bind (json_field ''invoice_id'' j) (\<lambda>ji.
     Option.bind (Option.bind (json_string ji) (uuid_parse_str E)) (\<lambda>invoice_id.
     Option.bind (Option.bind (json_field ''status'' j) json_status) (\<lambda>status.
     Option.bind (Option.bind (json_field ''amount_cents'' j) json_i64) (\<lambda>amount.
     Option.bind (Option.bind (json_field ''invoice_state'' j) json_string) (\<lambda>st.
     Option.bind (json_opt_string ''psp_ref'' j) (\<lambda>psp_ref.
     Option.bind (json_opt_string ''failure_code'' j) (\<lambda>failure_code.
     Option.bind (json_opt_string ''message'' j) (\<lambda>message.
     Option.bind (json_opt_string ''poll_url'' j) (\<lambda>poll_url.
     Some \<lparr>rs_attempt_id = attempt_id, rs_invoice_id = invoice_id, rs_status = status,
           rs_amount_cents = amount, rs_invoice_state = st, rs_psp_ref = psp_ref,
           rs_failure_code = failure_code, rs_message = message,
           rs_poll_url = poll_url\<rparr>)))))))))))"

section \<open>Customers and API keys (\<^verbatim>\<open>domain/customer.rs\<close>, \<^verbatim>\<open>domain/api_key.rs\<close>)\<close>

record customer =
  cu_id :: uuid
  cu_business_id :: uuid
  cu_email :: "string option"
  cu_name :: "string option"
  cu_created_at :: timestamp
  cu_updated_at :: timestamp

record create_customer_request =
  cc_email :: "string option"
  cc_name :: "string option"

record customer_response =
  cr_id :: uuid
  cr_email :: "string option"
  cr_name :: "string option"
  cr_created_at :: timestamp

definition customer_into :: "customer \<Rightarrow> customer_response" where
  "customer_into c =
     \<lparr>cr_id = cu_id c, cr_email = cu_email c, cr_name = cu_name c,
      cr_created_at = cu_created_at c\<rparr>"

record create_api_key_request =
  ckq_name :: "string option"
  ckq_env :: "string option"

record create_api_key_response =
  ckr_id :: uuid
  ckr_prefix :: string
  ckr_key :: string

record api_key_list_item =
  al_id :: uuid
  al_name :: "string option"
  al_prefix :: string
  al_last_four :: string
  al_created_at :: timestamp
  al_revoked_at :: "timestamp option"

section \<open>Webhooks (\<^verbatim>\<open>domain/webhook.rs\<close>)\<close>

definition INVOICE_CREATED :: string where "INVOICE_CREATED = ''invoice.created''"
definition INVOICE_PAID :: string where "INVOICE_PAID = ''invoice.paid''"
definition INVOICE_PAYMENT_FAILED :: string where
  "INVOICE_PAYMENT_FAILED = ''invoice.payment_failed''"

record webhook_endpoint =
  ep_id :: uuid
  ep_business_id :: uuid
  ep_url :: string
  ep_secret :: "u8 list"
  ep_event_types :: "string list"
  ep_status :: string

record create_endpoint_request =
  ce_url :: string
  ce_event_types :: "string list"

record create_endpoint_response =
  cer_id :: uuid
  cer_url :: string
  cer_event_types :: "string list"
  cer_secret :: string

record webhook_event_row =
  er_id :: uuid
  er_event_type :: string
  er_aggregate_id :: uuid
  er_payload :: json
  er_sequence :: int
  er_created_at :: timestamp

record webhook_delivery_row =
  dr_id :: uuid
  dr_event_id :: uuid
  dr_endpoint_id :: uuid
  dr_status :: string
  dr_attempts :: int
  dr_next_attempt_at :: timestamp
  dr_last_status_code :: "int option"
  dr_last_error :: "string option"
  dr_last_attempt_at :: "timestamp option"
  dr_created_at :: timestamp

section \<open>Lemmas\<close>

lemma can_transition_edges:
  "can_transition_to a b \<longleftrightarrow>
     (a, b) \<in> {(Draft, Open), (Draft, Void), (Open, Paid), (Open, Void), (Open, Uncollectible)}"
  by (cases a; cases b) auto

lemma terminal_no_edge: "is_terminal a \<Longrightarrow> \<not> can_transition_to a b"
  by (cases a) auto

lemma nonterminal_edge: "\<not> is_terminal a \<Longrightarrow> \<exists>b. can_transition_to a b"
  by (cases a) (auto simp: can_transition_edges)

lemma can_transition_irrefl: "\<not> can_transition_to a a"
  by (cases a) auto

lemma as_str_inject [simp]: "as_str a = as_str b \<longleftrightarrow> a = b"
  by (cases a; cases b) auto

text \<open>How far an invoice is along its life: every edge of the machine increases the rank.\<close>

fun state_rank :: "invoice_state \<Rightarrow> nat" where
  "state_rank Draft = 0"
| "state_rank Open = 1"
| "state_rank _ = 2"

lemma can_transition_rank: "can_transition_to a b \<Longrightarrow> state_rank a < state_rank b"
  by (auto simp: can_transition_edges)

lemma json_status_str [simp]: "json_status (JString (payment_status_str s)) = Some s"
  by (cases s) (simp_all add: json_status_def)

lemma map_of_opt_field [simp]:
  "map_of (opt_field k v) k' = (if k = k' then map_option JString v else None)"
  by (simp add: opt_field_def split: option.split)

lemma response_value_required:
  "json_field ''attempt_id'' (response_to_value E r) = Some (JString (uuid_to_string E (rs_attempt_id r)))"
  "json_field ''invoice_id'' (response_to_value E r) = Some (JString (uuid_to_string E (rs_invoice_id r)))"
  "json_field ''status'' (response_to_value E r) = Some (JString (payment_status_str (rs_status r)))"
  "json_field ''amount_cents'' (response_to_value E r) = Some (JNumber (sint (rs_amount_cents r)))"
  "json_field ''invoice_state'' (response_to_value E r) = Some (JString (rs_invoice_state r))"
  by (simp_all add: response_to_value_def)

lemma response_value_optional:
  "json_opt_string ''psp_ref'' (response_to_value E r) = Some (rs_psp_ref r)"
  "json_opt_string ''failure_code'' (response_to_value E r) = Some (rs_failure_code r)"
  "json_opt_string ''message'' (response_to_value E r) = Some (rs_message r)"
  "json_opt_string ''poll_url'' (response_to_value E r) = Some (rs_poll_url r)"
proof -
  show "json_opt_string ''psp_ref'' (response_to_value E r) = Some (rs_psp_ref r)"
    by (cases "rs_psp_ref r") (simp_all add: response_to_value_def json_opt_string_def map_add_def)
  show "json_opt_string ''failure_code'' (response_to_value E r) = Some (rs_failure_code r)"
    by (cases "rs_failure_code r") (simp_all add: response_to_value_def json_opt_string_def map_add_def)
  show "json_opt_string ''message'' (response_to_value E r) = Some (rs_message r)"
    by (cases "rs_message r") (simp_all add: response_to_value_def json_opt_string_def map_add_def)
  show "json_opt_string ''poll_url'' (response_to_value E r) = Some (rs_poll_url r)"
    by (cases "rs_poll_url r") (simp_all add: response_to_value_def json_opt_string_def map_add_def)
qed

lemma response_from_to_value: "uuid_laws E \<Longrightarrow> response_from_value E (response_to_value E r) = Some r"
  by (simp add: response_from_value_def response_value_required response_value_optional
      uuid_laws_def)

section \<open>Properties\<close>

text \<open>
  The invoice state machine. Terminal states are exactly the states without outgoing
  transitions, no transition leaves a state unchanged, a paid invoice is only ever reached from
  open, and every chain of transitions is finite: at most two transitions happen in an
  invoice's life.
\<close>

theorem state_machine_shape:
  "(is_terminal a \<longleftrightarrow> (\<forall>b. \<not> can_transition_to a b))
   \<and> \<not> can_transition_to a a
   \<and> (can_transition_to a Paid \<longleftrightarrow> a = Open)
   \<and> (can_transition_to a Draft \<longleftrightarrow> False)
   \<and> (\<forall>n b. (can_transition_to ^^ n) a b \<longrightarrow> n \<le> state_rank b - state_rank a \<and> n \<le> 2)"
proof -
  have rank: "state_rank a + n \<le> state_rank b" if "(can_transition_to ^^ n) a b" for n b
    using that by (induction n arbitrary: b) (fastforce dest: can_transition_rank)+
  have two: "state_rank b \<le> 2" for b by (cases b) auto
  have "n \<le> state_rank b - state_rank a \<and> n \<le> 2" if "(can_transition_to ^^ n) a b" for n b
    using rank [OF that] two [of b] by simp
  moreover have "is_terminal a \<longleftrightarrow> (\<forall>b. \<not> can_transition_to a b)"
    using terminal_no_edge nonterminal_edge by blast
  ultimately show ?thesis by (auto simp: can_transition_irrefl) (auto simp: can_transition_edges)
qed

theorem state_machine_shape_witness:
  "(can_transition_to ^^ 2) Draft Paid \<and> (2 :: nat) \<le> state_rank Paid - state_rank Draft"
proof -
  have "(can_transition_to ^^ 2) Draft Paid"
    by (auto simp: numeral_2_eq_2 relcompp_apply intro!: exI [of _ Open])
  with state_machine_shape [of Draft] show ?thesis by blast
qed

text \<open>
  The cached payment response survives its JSON column. Decoding the encoded response gives
  the same response, for every combination of optional fields.
\<close>

theorem response_json_round_trip:
  assumes "uuid_laws E"
  shows "response_from_value E (response_to_value E r) = Some r"
  by (rule response_from_to_value [OF assms])

theorem response_json_round_trip_witness:
  "\<exists>r. response_from_value sample_ext (response_to_value sample_ext r) = Some r
     \<and> rs_status r = Succeeded \<and> rs_psp_ref r = Some ''ref''"
  using response_json_round_trip [OF sample_uuid_laws,
      of "\<lparr>rs_attempt_id = 1, rs_invoice_id = 2, rs_status = Succeeded, rs_amount_cents = 5000,
           rs_invoice_state = ''paid'', rs_psp_ref = Some ''ref'', rs_failure_code = None,
           rs_message = None, rs_poll_url = None\<rparr>"]
  by fastforce

end
