(* ===== verification/Pagination.thy ===== *)
theory Pagination
  imports External
begin

text \<open>
  \<^verbatim>\<open>crates/common/src/pagination.rs\<close>: the page limit, the opaque cursor, and the page envelope;
  and the keyset listing that the three paginated services share, with the proof that
  following the cursors visits every row once.
\<close>

section \<open>Definitions\<close>

definition DEFAULT_LIMIT :: i64 where "DEFAULT_LIMIT = 25"
definition MAX_LIMIT :: i64 where "MAX_LIMIT = 100"

definition clamp_limit :: "i64 option \<Rightarrow> i64" where
  "clamp_limit requested =
     (let v = (case requested of None \<Rightarrow> DEFAULT_LIMIT | Some v \<Rightarrow> v)
      in if sint v < 1 then 1 else if sint MAX_LIMIT < sint v then MAX_LIMIT else v)"

definition encode_cursor :: "ext \<Rightarrow> timestamp \<Rightarrow> uuid \<Rightarrow> string" where
  "encode_cursor E created_at u =
     hex_encode E (as_bytes (to_rfc3339 E created_at @ ''|'' @ uuid_to_string E u))"

definition decode_cursor :: "ext \<Rightarrow> string \<Rightarrow> (timestamp \<times> uuid) option" where
  "decode_cursor E cursor =
     Option.bind (hex_decode E cursor) (\<lambda>bytes.
     Option.bind (from_utf8 bytes) (\<lambda>raw.
     Option.bind (split_once CHR ''|'' raw) (\<lambda>(ts, idstr).
     Option.bind (parse_from_rfc3339 E ts) (\<lambda>created_at.
     Option.bind (uuid_parse_str E idstr) (\<lambda>u.
     Some (created_at, u))))))"

record 'a page =
  page_data :: "'a list"
  next_cursor :: "string option"

text \<open>
  The block the list services share: they fetch one row beyond the limit, and when it exists
  they cut the page and make a cursor of the last row kept.
\<close>

definition page_of :: "ext \<Rightarrow> ('r \<Rightarrow> timestamp \<times> uuid) \<Rightarrow> i64 \<Rightarrow> 'r list \<Rightarrow> 'r page" where
  "page_of E key limit rows =
     (if sint limit < int (length rows) then
        let last = rows ! (nat (sint limit) - 1)
        in \<lparr>page_data = take (nat (sint limit)) rows,
            next_cursor = Some (encode_cursor E (fst (key last)) (snd (key last)))\<rparr>
      else \<lparr>page_data = rows, next_cursor = None\<rparr>)"

definition list_page ::
  "ext \<Rightarrow> ('r \<Rightarrow> timestamp \<times> uuid) \<Rightarrow> ('r \<Rightarrow> 'v) \<Rightarrow> ((timestamp \<times> uuid) option \<Rightarrow> nat \<Rightarrow> 'r list)
     \<Rightarrow> i64 option \<Rightarrow> string option \<Rightarrow> 'v page" where
  "list_page E key view fetch limit cursor =
     (let l = clamp_limit limit;
          decoded = Option.bind cursor (decode_cursor E);
          p = page_of E key l (fetch decoded (nat (sint (l + 1))))
      in \<lparr>page_data = map view (page_data p), next_cursor = next_cursor p\<rparr>)"

text \<open>\<^verbatim>\<open>ORDER BY created_at DESC, id DESC\<close> and \<^verbatim>\<open>AND (created_at, id) < cursor ... LIMIT n\<close>.\<close>

definition order_desc :: "('r \<Rightarrow> timestamp \<times> uuid) \<Rightarrow> 'r list \<Rightarrow> 'r list" where
  "order_desc key rows = rev (sort_key key rows)"

definition keyset_select ::
  "('r \<Rightarrow> timestamp \<times> uuid) \<Rightarrow> (timestamp \<times> uuid) option \<Rightarrow> nat \<Rightarrow> 'r list \<Rightarrow> 'r list" where
  "keyset_select key cursor n rows =
     take n (order_desc key
       (case cursor of None \<Rightarrow> rows | Some c \<Rightarrow> filter (\<lambda>r. key r < c) rows))"

text \<open>
  A client that follows the cursors: it asks for a page, and as long as the page names a next
  cursor it asks again with it. The fuel bounds the number of requests.
\<close>

fun walk :: "nat \<Rightarrow> (string option \<Rightarrow> 'v page) \<Rightarrow> string option \<Rightarrow> 'v list option" where
  "walk 0 get c = None"
| "walk (Suc fuel) get c =
     (let p = get c
      in case next_cursor p of
           None \<Rightarrow> Some (page_data p)
         | Some c' \<Rightarrow> map_option (\<lambda>rest. page_data p @ rest) (walk fuel get (Some c')))"

section \<open>Lemmas\<close>

lemma clamp_limit_range: "1 \<le> sint (clamp_limit l) \<and> sint (clamp_limit l) \<le> 100"
  by (simp add: clamp_limit_def Let_def MAX_LIMIT_def DEFAULT_LIMIT_def split: option.split)

lemma clamp_limit_succ: "nat (sint (clamp_limit l + 1)) = Suc (nat (sint (clamp_limit l)))"
proof -
  let ?v = "sint (clamp_limit l)"
  have r: "1 \<le> ?v" "?v \<le> 100" using clamp_limit_range by auto
  have "clamp_limit l + 1 = word_of_int (?v + 1)" by (simp flip: wi_hom_add)
  then have "sint (clamp_limit l + 1) = ?v + 1"
    using r by (simp only:) (rule sint_word_of_int_i64, simp_all add: i64_min_def i64_max_def)
  with r show ?thesis by simp
qed

lemma decode_encode_cursor:
  assumes "hex_laws E" "uuid_laws E" "rfc3339_laws E"
  shows "decode_cursor E (encode_cursor E t u) = Some (t, u)"
proof -
  let ?ts = "to_rfc3339 E t" and ?id = "uuid_to_string E u"
  have ts: "set ?ts \<subseteq> set ''0123456789-:.+TZ''" using assms(3) by (simp add: rfc3339_laws_def)
  have id: "set ?id \<subseteq> set ''0123456789abcdef-''" using assms(2) by (simp add: uuid_laws_def)
  have "list_all (\<lambda>c. of_char c < (128 :: nat)) ''0123456789-:.+TZ''"
    and "list_all (\<lambda>c. of_char c < (128 :: nat)) ''0123456789abcdef-''" by simp_all
  with ts id have ascii: "is_ascii (?ts @ ''|'' @ ?id)"
    by (auto simp: is_ascii_def list_all_iff)
  have "CHR ''|'' \<notin> set ''0123456789-:.+TZ''" by simp
  with ts have "CHR ''|'' \<notin> set ?ts" by blast
  then have "split_once CHR ''|'' (?ts @ ''|'' @ ?id) = Some (?ts, ?id)"
    using split_once_append [of "CHR ''|''" ?ts ?id] by simp
  with ascii assms show ?thesis
    by (simp add: decode_cursor_def encode_cursor_def hex_laws_def uuid_laws_def rfc3339_laws_def
        from_utf8_ascii del: as_bytes_append)
qed

lemma set_order_desc [simp]: "set (order_desc key rows) = set rows"
  by (simp add: order_desc_def)

lemma order_desc_sorted:
  assumes "distinct (map key rows)"
  shows "sorted_wrt (\<lambda>r s. key s < key r) (order_desc key rows)"
proof -
  have "sorted (map key (sort_key key rows))" by simp
  moreover have "distinct (map key (sort_key key rows))"
    using assms by (metis distinct_map distinct_sort set_sort)
  ultimately have "sorted_wrt (<) (map key (sort_key key rows))" by (simp add: strict_sorted_iff)
  then show ?thesis by (simp add: order_desc_def sorted_wrt_rev sorted_wrt_map)
qed

lemma order_desc_filter:
  "order_desc key (filter P rows) = filter P (order_desc key rows)"
  by (simp add: order_desc_def rev_filter flip: filter_sort)

lemma sorted_wrt_filter_drop:
  assumes "sorted_wrt (\<lambda>r s. key s < (key r :: 'k :: linorder)) S" and "k < length S"
  shows "filter (\<lambda>r. key r < key (S ! k)) S = drop (Suc k) S"
proof -
  have "filter (\<lambda>r. key r < key (S ! k)) (take (Suc k) S) = []"
  proof (rule filter_False, rule ballI)
    fix r assume "r \<in> set (take (Suc k) S)"
    then obtain i where "i \<le> k" "r = S ! i" using assms(2)
      by (auto simp: in_set_conv_nth less_Suc_eq_le)
    with assms show "\<not> key r < key (S ! k)"
      by (cases "i = k") (auto simp: sorted_wrt_iff_nth_less not_less intro: less_imp_le)
  qed
  moreover have "filter (\<lambda>r. key r < key (S ! k)) (drop (Suc k) S) = drop (Suc k) S"
    by (rule filter_True) (use assms in \<open>auto simp: in_set_conv_nth sorted_wrt_iff_nth_less\<close>)
  ultimately show ?thesis
    by (metis append_Nil append_take_drop_id filter_append)
qed

text \<open>
  The contract of a keyset-paginated repository query: the first page is a prefix of the
  listing, a page after a cursor is a prefix of the part of the listing below the cursor, and
  the listing is strictly descending in the cursor key.
\<close>

locale keyset_listing =
  fixes fetch :: "'d \<Rightarrow> (timestamp \<times> uuid) option \<Rightarrow> nat \<Rightarrow> 'r list"
    and key :: "'r \<Rightarrow> timestamp \<times> uuid"
    and listing :: "'d \<Rightarrow> 'r list"
    and invar :: "'d \<Rightarrow> bool"
  assumes fetch_first: "invar d \<Longrightarrow> fetch d None n = take n (listing d)"
    and fetch_after: "invar d \<Longrightarrow> fetch d (Some c) n = take n (filter (\<lambda>r. key r < c) (listing d))"
    and listing_desc: "invar d \<Longrightarrow> sorted_wrt (\<lambda>r s. key s < key r) (listing d)"
begin

lemma fetch_drop:
  assumes "invar d" and "k < length (listing d)"
  shows "fetch d (Some (key (listing d ! k))) n = take n (drop (Suc k) (listing d))"
  using assms by (simp add: fetch_after sorted_wrt_filter_drop listing_desc)

text \<open>The page at a position of the listing, and the cursor of the position after it.\<close>

lemma list_page_at:
  assumes laws: "hex_laws E" "uuid_laws E" "rfc3339_laws E" and inv: "invar d"
    and pos: "(k = 0 \<and> c = None) \<or> (\<exists>j. k = Suc j \<and> j < length (listing d)
               \<and> c = Some (encode_cursor E (fst (key (listing d ! j))) (snd (key (listing d ! j)))))"
    and l: "l = nat (sint (clamp_limit limit))"
  shows "list_page E key view (fetch d) limit c =
     (if l < length (drop k (listing d)) then
        \<lparr>page_data = map view (take l (drop k (listing d))),
         next_cursor = Some (encode_cursor E (fst (key (listing d ! (k + l - 1))))
                                             (snd (key (listing d ! (k + l - 1)))))\<rparr>
      else \<lparr>page_data = map view (drop k (listing d)), next_cursor = None\<rparr>)"
proof -
  have l1: "1 \<le> l" and int_l: "int l = sint (clamp_limit limit)"
    using clamp_limit_range [of limit] l by auto
  have rows: "fetch d (Option.bind c (decode_cursor E)) (Suc l) = take (Suc l) (drop k (listing d))"
    using pos inv laws by (auto simp: fetch_first fetch_drop decode_encode_cursor)
  have nth: "take (Suc l) (drop k (listing d)) ! (l - 1) = listing d ! (k + l - 1)"
    if "l < length (listing d) - k" using that l1 by simp
  show ?thesis
    using l1 nth
    by (auto simp: list_page_def page_of_def Let_def clamp_limit_succ rows min_def simp flip: l int_l)
qed

lemma walk_from:
  assumes laws: "hex_laws E" "uuid_laws E" "rfc3339_laws E" and inv: "invar d"
    and "(k = 0 \<and> c = None) \<or> (\<exists>j. k = Suc j \<and> j < length (listing d)
               \<and> c = Some (encode_cursor E (fst (key (listing d ! j))) (snd (key (listing d ! j)))))"
    and "length (listing d) - k < fuel"
  shows "walk fuel (list_page E key view (fetch d) limit) c = Some (map view (drop k (listing d)))"
  using assms(5,6)
proof (induction fuel arbitrary: k c)
  case (Suc fuel)
  define l where "l = nat (sint (clamp_limit limit))"
  note page = list_page_at [OF laws inv Suc.prems(1) l_def]
  have l1: "1 \<le> l" using clamp_limit_range [of limit] unfolding l_def by arith
  show ?case
  proof (cases "l < length (drop k (listing d))")
    case True
    let ?c = "encode_cursor E (fst (key (listing d ! (k + l - 1)))) (snd (key (listing d ! (k + l - 1))))"
    have "walk fuel (list_page E key view (fetch d) limit) (Some ?c)
        = Some (map view (drop (k + l) (listing d)))"
      by (rule Suc.IH) (use True l1 Suc.prems(2) in \<open>auto intro!: exI [of _ "k + l - 1"]\<close>)
    moreover have "map view (take l (drop k (listing d))) @ map view (drop (k + l) (listing d))
        = map view (drop k (listing d))"
      by (metis append_take_drop_id drop_drop add.commute map_append)
    ultimately show ?thesis using True by (simp add: page)
  next
    case False
    then show ?thesis by (simp add: page)
  qed
qed simp

lemma walk_complete:
  assumes "hex_laws E" "uuid_laws E" "rfc3339_laws E" "invar d" "length (listing d) < fuel"
  shows "walk fuel (list_page E key view (fetch d) limit) None = Some (map view (listing d))"
  using walk_from [OF assms(1-4), of 0 None fuel view limit] assms(5) by simp

end

section \<open>Properties\<close>

text \<open>
  C40: cursors round-trip. Decoding the cursor of a timestamp and an id gives them back, given
  the documented behaviour of the hex, UUID and RFC 3339 crates; and the effective page limit
  is always between 1 and 100, equal to the requested one when that is in range.
\<close>

theorem cursor_round_trip:
  assumes "hex_laws E" "uuid_laws E" "rfc3339_laws E"
  shows "decode_cursor E (encode_cursor E t u) = Some (t, u)
    \<and> 1 \<le> sint (clamp_limit l) \<and> sint (clamp_limit l) \<le> sint MAX_LIMIT
    \<and> (\<forall>v. l = Some v \<and> 1 \<le> sint v \<and> sint v \<le> sint MAX_LIMIT \<longrightarrow> clamp_limit l = v)
    \<and> clamp_limit None = DEFAULT_LIMIT"
proof -
  have "clamp_limit (Some v) = v" if "1 \<le> sint v" "sint v \<le> sint MAX_LIMIT" for v
    using that by (simp add: clamp_limit_def)
  moreover have "clamp_limit None = DEFAULT_LIMIT"
    by (simp add: clamp_limit_def DEFAULT_LIMIT_def MAX_LIMIT_def)
  ultimately show ?thesis
    using decode_encode_cursor [OF assms] clamp_limit_range by (auto simp: MAX_LIMIT_def)
qed

theorem cursor_round_trip_witness:
  "decode_cursor sample_ext (encode_cursor sample_ext 1700000000000000 7) = Some (1700000000000000, 7)
   \<and> clamp_limit (Some 40) = 40"
  using cursor_round_trip [OF sample_laws, of 1700000000000000 7 "Some 40"]
  by (simp add: MAX_LIMIT_def)

end
