(* ===== verification/Database.thy ===== *)
theory Database
  imports Domain Pagination
begin

text \<open>
  The PostgreSQL schema of \<^verbatim>\<open>migrations\<close> that the SQL statements of the service run against:
  one list of rows per table, with the columns the statements read or write. Constraint
  violations are database errors with their SQLSTATE; an integer expression that leaves the
  range of its column is the error 22003.
\<close>

section \<open>Tables\<close>

record api_key_row =
  ak_id :: uuid
  ak_business_id :: uuid
  ak_name :: "string option"
  ak_prefix :: string
  ak_key_hash :: "u8 list"
  ak_last_four :: string
  ak_created_at :: timestamp
  ak_last_used_at :: "timestamp option"
  ak_revoked_at :: "timestamp option"
  ak_expires_at :: "timestamp option"

record idempotency_key_row =
  ik_id :: uuid
  ik_business_id :: uuid
  ik_idempotency_key :: string
  ik_request_fingerprint :: "u8 list"
  ik_status :: string
  ik_attempt_id :: "uuid option"
  ik_response_status :: "int option"
  ik_response_body :: "json option"
  ik_created_at :: timestamp
  ik_expires_at :: timestamp

record webhook_event =
  ev_id :: uuid
  ev_business_id :: uuid
  ev_event_type :: string
  ev_aggregate_id :: uuid
  ev_payload :: json
  ev_sequence :: int
  ev_created_at :: timestamp

record webhook_delivery =
  wd_id :: uuid
  wd_event_id :: uuid
  wd_endpoint_id :: uuid
  wd_business_id :: uuid
  wd_status :: string
  wd_attempts :: int
  wd_next_attempt_at :: timestamp
  wd_locked_until :: "timestamp option"
  wd_last_status_code :: "int option"
  wd_last_error :: "string option"
  wd_last_attempt_at :: "timestamp option"
  wd_created_at :: timestamp
  wd_updated_at :: timestamp

record db =
  db_api_keys :: "api_key_row list"
  db_customers :: "customer list"
  db_invoices :: "invoice list"
  db_line_items :: "line_item list"
  db_attempts :: "payment_attempt list"
  db_keys :: "idempotency_key_row list"
  db_endpoints :: "webhook_endpoint list"
  db_events :: "webhook_event list"
  db_event_seq :: int
  db_deliveries :: "webhook_delivery list"

definition empty_db :: db where
  "empty_db = \<lparr>db_api_keys = [], db_customers = [], db_invoices = [], db_line_items = [],
     db_attempts = [], db_keys = [], db_endpoints = [], db_events = [], db_event_seq = 1,
     db_deliveries = []\<rparr>"

section \<open>Constraint errors and column arithmetic\<close>

definition unique_violation :: "string \<Rightarrow> sqlx_error" where
  "unique_violation constraint = Database ''23505'' (Some constraint)"

definition check_violation :: "string \<Rightarrow> sqlx_error" where
  "check_violation constraint = Database ''23514'' (Some constraint)"

definition out_of_range :: sqlx_error where
  "out_of_range = Database ''22003'' None"

definition pg_int4 :: "int \<Rightarrow> (sqlx_error, int) result" where
  "pg_int4 v = (if - (2 ^ 31) \<le> v \<and> v < 2 ^ 31 then Inr v else Inl out_of_range)"

definition pg_bigint :: "int \<Rightarrow> (sqlx_error, i64) result" where
  "pg_bigint v = ok_or out_of_range (fit_i64 v)"

text \<open>An UPDATE whose column expressions can fail: the first failing row aborts the statement.\<close>

fun try_update_where ::
  "('r \<Rightarrow> bool) \<Rightarrow> ('r \<Rightarrow> (sqlx_error, 'r) result) \<Rightarrow> 'r list \<Rightarrow> (sqlx_error, 'r list) result" where
  "try_update_where P f [] = Inr []"
| "try_update_where P f (r # rs) =
     res_bind (if P r then f r else Inr r) (\<lambda>r'.
     res_bind (try_update_where P f rs) (\<lambda>rs'. Inr (r' # rs')))"

lemma is_unique_violation_simps [simp]:
  "is_unique_violation (unique_violation c)" "\<not> is_unique_violation (check_violation c)"
  "\<not> is_unique_violation out_of_range"
  by (simp_all add: unique_violation_def check_violation_def out_of_range_def)

lemma pg_int4_Inr: "pg_int4 v = Inr w \<longleftrightarrow> w = v \<and> - (2 ^ 31) \<le> v \<and> v < 2 ^ 31"
  by (auto simp: pg_int4_def)

lemma pg_bigint_Inr: "pg_bigint v = Inr w \<longleftrightarrow> sint w = v"
  by (simp add: pg_bigint_def result_simps fit_i64_Some)

lemma pg_bigint_Inl: "pg_bigint v = Inl e \<longleftrightarrow> e = out_of_range \<and> (v < i64_min \<or> i64_max < v)"
  by (auto simp: pg_bigint_def result_simps fit_i64_None)

lemma try_update_where_Inr:
  "try_update_where P f t = Inr t' \<longleftrightarrow>
     list_all2 (\<lambda>r r'. if P r then f r = Inr r' else r' = r) t t'"
  by (induction t arbitrary: t') (auto simp: result_simps list_all2_Cons1)

lemma try_update_where_total:
  assumes "\<And>r. r \<in> set t \<Longrightarrow> P r \<Longrightarrow> f r = Inr (g r)"
  shows "try_update_where P f t = Inr (update_where P g t)"
  using assms by (induction t) (auto simp: update_where_def)

text \<open>The order in which record updates of two tables are written.\<close>

lemma db_line_items_invoices [simp]:
  "d\<lparr>db_line_items := x, db_invoices := y\<rparr> = d\<lparr>db_invoices := y, db_line_items := x\<rparr>"
  by (cases d) simp

section \<open>Page keys\<close>

text \<open>The cursor key of the three paginated tables.\<close>

definition customer_key :: "customer \<Rightarrow> timestamp \<times> uuid" where
  "customer_key c = (cu_created_at c, cu_id c)"

definition invoice_key :: "invoice \<Rightarrow> timestamp \<times> uuid" where
  "invoice_key iv = (inv_created_at iv, inv_id iv)"

definition event_key :: "webhook_event \<Rightarrow> timestamp \<times> uuid" where
  "event_key e = (ev_created_at e, ev_id e)"

lemma distinct_filter_pair:
  "distinct (map g rows) \<Longrightarrow> distinct (map (\<lambda>r. (f r, g r)) (filter P rows))"
  by (induction rows) auto

end
