(* ===== verification/Repositories.thy ===== *)
theory Repositories
  imports Database
begin

text \<open>
  \<^verbatim>\<open>crates/invoice-service/src/repositories\<close>: one definition per SQL statement of the data
  access layer. Identifiers made by \<^verbatim>\<open>new_id()\<close> and the statement time \<^verbatim>\<open>now()\<close> are arguments. A
  statement that fails leaves the database as it was.
\<close>

section \<open>Customers (\<^verbatim>\<open>customer_repo.rs\<close>)\<close>

text \<open>The partial unique index on \<^verbatim>\<open>(business_id, email) WHERE email IS NOT NULL\<close>, a citext column.\<close>

definition same_email :: "ext \<Rightarrow> string option \<Rightarrow> string option \<Rightarrow> bool" where
  "same_email E a b =
     (case (a, b) of (Some x, Some y) \<Rightarrow> citext_lower E x = citext_lower E y | _ \<Rightarrow> False)"

definition customer_insert ::
  "ext \<Rightarrow> timestamp \<Rightarrow> uuid \<Rightarrow> uuid \<Rightarrow> string option \<Rightarrow> string option \<Rightarrow> db
     \<Rightarrow> (sqlx_error, customer \<times> db) result" where
  "customer_insert E now new_id business_id email name d =
     (if exists_row (\<lambda>c. cu_id c = new_id) (db_customers d) then
        Inl (unique_violation ''customers_pkey'')
      else if exists_row (\<lambda>c. cu_business_id c = business_id \<and> same_email E (cu_email c) email)
                (db_customers d) then
        Inl (unique_violation ''uq_customers_business_email'')
      else
        let c = \<lparr>cu_id = new_id, cu_business_id = business_id, cu_email = email, cu_name = name,
                 cu_created_at = now, cu_updated_at = now\<rparr>
        in Inr (c, d\<lparr>db_customers := db_customers d @ [c]\<rparr>))"

definition customer_get :: "uuid \<Rightarrow> uuid \<Rightarrow> db \<Rightarrow> customer option" where
  "customer_get business_id i d =
     fetch_optional (\<lambda>c. cu_id c = i \<and> cu_business_id c = business_id) (db_customers d)"

definition customer_list ::
  "uuid \<Rightarrow> nat \<Rightarrow> (timestamp \<times> uuid) option \<Rightarrow> db \<Rightarrow> customer list" where
  "customer_list business_id limit cursor d =
     keyset_select customer_key cursor limit
       (select_where (\<lambda>c. cu_business_id c = business_id) (db_customers d))"

section \<open>Invoices and line items (\<^verbatim>\<open>invoice_repo.rs\<close>)\<close>

definition insert_invoice ::
  "timestamp \<Rightarrow> uuid \<Rightarrow> uuid \<Rightarrow> uuid \<Rightarrow> db \<Rightarrow> (sqlx_error, invoice \<times> db) result" where
  "insert_invoice now new_id business_id customer_id d =
     (if exists_row (\<lambda>iv. inv_id iv = new_id) (db_invoices d) then
        Inl (unique_violation ''invoices_pkey'')
      else
        let iv = \<lparr>inv_id = new_id, inv_business_id = business_id, inv_customer_id = customer_id,
                  inv_state = Draft, inv_currency = ''USD'', inv_total_cents = from_cents 0,
                  inv_finalized_at = None, inv_paid_at = None, inv_voided_at = None,
                  inv_version = 0, inv_created_at = now, inv_updated_at = now\<rparr>
        in Inr (iv, d\<lparr>db_invoices := db_invoices d @ [iv]\<rparr>))"

text \<open>
  \<^verbatim>\<open>amount_cents\<close> is \<^verbatim>\<open>GENERATED ALWAYS AS (quantity * unit_amount_cents)\<close>, a bigint product that
  fails on overflow; the two CHECK constraints guard the factors.
\<close>

definition insert_line_item ::
  "uuid \<Rightarrow> uuid \<Rightarrow> string \<Rightarrow> i64 \<Rightarrow> i64 \<Rightarrow> int \<Rightarrow> db \<Rightarrow> (sqlx_error, db) result" where
  "insert_line_item new_id invoice_id description quantity unit_amount_cents position d =
     res_bind (pg_bigint (sint quantity * sint unit_amount_cents)) (\<lambda>amount.
       if \<not> 0 < sint quantity then Inl (check_violation ''invoice_line_items_quantity_check'')
       else if \<not> 0 \<le> sint unit_amount_cents then
         Inl (check_violation ''invoice_line_items_unit_amount_cents_check'')
       else if exists_row (\<lambda>li. li_id li = new_id) (db_line_items d) then
         Inl (unique_violation ''invoice_line_items_pkey'')
       else
         Inr (d\<lparr>db_line_items := db_line_items d @
                [\<lparr>li_id = new_id, li_invoice_id = invoice_id, li_description = description,
                  li_quantity = quantity, li_unit_amount_cents = from_cents unit_amount_cents,
                  li_amount_cents = from_cents amount, li_position = position\<rparr>]\<rparr>))"

definition line_sum :: "uuid \<Rightarrow> db \<Rightarrow> int" where
  "line_sum invoice_id d =
     sum_list (map (\<lambda>li. sint (cents (li_amount_cents li)))
       (select_where (\<lambda>li. li_invoice_id li = invoice_id) (db_line_items d)))"

text \<open>
  \<^verbatim>\<open>UPDATE invoices SET total_cents = (SELECT COALESCE(SUM(amount_cents), 0) ...) RETURNING\<close>: the sum
  is a numeric, its assignment to the bigint column can overflow, and \<^verbatim>\<open>fetch_one\<close> needs a row.
\<close>

definition sync_total :: "timestamp \<Rightarrow> uuid \<Rightarrow> db \<Rightarrow> (sqlx_error, money \<times> db) result" where
  "sync_total now invoice_id d =
     (if \<not> exists_row (\<lambda>iv. inv_id iv = invoice_id) (db_invoices d) then Inl RowNotFound
      else
        res_bind (pg_bigint (line_sum invoice_id d)) (\<lambda>total.
          if \<not> 0 \<le> sint total then Inl (check_violation ''invoices_total_cents_check'')
          else Inr (from_cents total,
                    d\<lparr>db_invoices := update_where (\<lambda>iv. inv_id iv = invoice_id)
                        (\<lambda>iv. iv\<lparr>inv_total_cents := from_cents total, inv_updated_at := now\<rparr>)
                        (db_invoices d)\<rparr>)))"

definition invoice_get :: "uuid \<Rightarrow> uuid \<Rightarrow> db \<Rightarrow> invoice option" where
  "invoice_get business_id i d =
     fetch_optional (\<lambda>iv. inv_id iv = i \<and> inv_business_id iv = business_id) (db_invoices d)"

definition list_line_items :: "uuid \<Rightarrow> db \<Rightarrow> line_item list" where
  "list_line_items invoice_id d =
     sort_key (\<lambda>li. (li_position li, li_id li))
       (select_where (\<lambda>li. li_invoice_id li = invoice_id) (db_line_items d))"

definition invoice_list ::
  "uuid \<Rightarrow> invoice_state option \<Rightarrow> nat \<Rightarrow> (timestamp \<times> uuid) option \<Rightarrow> db \<Rightarrow> invoice list" where
  "invoice_list business_id state limit cursor d =
     keyset_select invoice_key cursor limit
       (select_where (\<lambda>iv. inv_business_id iv = business_id
                          \<and> (case state of None \<Rightarrow> True | Some s \<Rightarrow> inv_state iv = s))
         (db_invoices d))"

text \<open>The SET clause of the status-conditional transition.\<close>

definition transition_row ::
  "timestamp \<Rightarrow> invoice_state \<Rightarrow> invoice \<Rightarrow> (sqlx_error, invoice) result" where
  "transition_row now to iv =
     res_map (\<lambda>v. iv\<lparr>inv_state := to, inv_version := v,
                    inv_finalized_at := (if to = Open then Some now else inv_finalized_at iv),
                    inv_voided_at := (if to = Void then Some now else inv_voided_at iv),
                    inv_updated_at := now\<rparr>)
       (pg_int4 (inv_version iv + 1))"

definition transition ::
  "timestamp \<Rightarrow> uuid \<Rightarrow> uuid \<Rightarrow> invoice_state \<Rightarrow> invoice_state \<Rightarrow> db
     \<Rightarrow> (sqlx_error, invoice option \<times> db) result" where
  "transition now business_id i frm to d =
     (let P = (\<lambda>iv. inv_id iv = i \<and> inv_business_id iv = business_id \<and> inv_state iv = frm)
      in case fetch_optional P (db_invoices d) of
           None \<Rightarrow> Inr (None, d)
         | Some iv \<Rightarrow>
             res_bind (transition_row now to iv) (\<lambda>iv'.
             res_bind (try_update_where P (transition_row now to) (db_invoices d)) (\<lambda>t.
               Inr (Some iv', d\<lparr>db_invoices := t\<rparr>))))"

section \<open>API keys (\<^verbatim>\<open>api_key_repo.rs\<close>)\<close>

definition api_key_insert ::
  "timestamp \<Rightarrow> uuid \<Rightarrow> uuid \<Rightarrow> string option \<Rightarrow> string \<Rightarrow> u8 list \<Rightarrow> string \<Rightarrow> db
     \<Rightarrow> (sqlx_error, uuid \<times> db) result" where
  "api_key_insert now new_id business_id name key_prefix key_hash last_four d =
     (if exists_row (\<lambda>k. ak_id k = new_id) (db_api_keys d) then
        Inl (unique_violation ''api_keys_pkey'')
      else if exists_row (\<lambda>k. ak_prefix k = key_prefix) (db_api_keys d) then
        Inl (unique_violation ''uq_api_keys_prefix'')
      else
        Inr (new_id, d\<lparr>db_api_keys := db_api_keys d @
               [\<lparr>ak_id = new_id, ak_business_id = business_id, ak_name = name,
                 ak_prefix = key_prefix, ak_key_hash = key_hash, ak_last_four = last_four,
                 ak_created_at = now, ak_last_used_at = None, ak_revoked_at = None,
                 ak_expires_at = None\<rparr>]\<rparr>))"

definition api_key_list_item_of :: "api_key_row \<Rightarrow> api_key_list_item" where
  "api_key_list_item_of k =
     \<lparr>al_id = ak_id k, al_name = ak_name k, al_prefix = ak_prefix k, al_last_four = ak_last_four k,
      al_created_at = ak_created_at k, al_revoked_at = ak_revoked_at k\<rparr>"

text \<open>\<^verbatim>\<open>ORDER BY created_at DESC\<close>: rows of one instant keep their table order.\<close>

definition api_key_list :: "uuid \<Rightarrow> db \<Rightarrow> api_key_list_item list" where
  "api_key_list business_id d =
     map api_key_list_item_of
       (sort_key (\<lambda>k. - ak_created_at k)
         (select_where (\<lambda>k. ak_business_id k = business_id) (db_api_keys d)))"

definition api_key_revoke :: "timestamp \<Rightarrow> uuid \<Rightarrow> uuid \<Rightarrow> db \<Rightarrow> bool \<times> db" where
  "api_key_revoke now business_id i d =
     (let P = (\<lambda>k. ak_id k = i \<and> ak_business_id k = business_id \<and> ak_revoked_at k = None)
      in (0 < rows_affected P (db_api_keys d),
          d\<lparr>db_api_keys := update_where P (\<lambda>k. k\<lparr>ak_revoked_at := Some now\<rparr>) (db_api_keys d)\<rparr>))"

section \<open>Lemmas\<close>

lemma transition_row_Inr:
  "transition_row now to iv = Inr iv' \<Longrightarrow>
     inv_id iv' = inv_id iv \<and> inv_business_id iv' = inv_business_id iv
     \<and> inv_customer_id iv' = inv_customer_id iv \<and> inv_total_cents iv' = inv_total_cents iv
     \<and> inv_created_at iv' = inv_created_at iv \<and> inv_currency iv' = inv_currency iv
     \<and> inv_paid_at iv' = inv_paid_at iv
     \<and> inv_state iv' = to \<and> inv_version iv' = inv_version iv + 1"
  by (auto simp: transition_row_def result_simps pg_int4_Inr)

lemma transition_Inr:
  assumes "transition now b i frm to d = Inr (Some iv', d')"
  obtains iv t where "iv \<in> set (db_invoices d)" "inv_id iv = i" "inv_business_id iv = b"
    "inv_state iv = frm" "transition_row now to iv = Inr iv'" "d' = d\<lparr>db_invoices := t\<rparr>"
    "list_all2 (\<lambda>r r'. if inv_id r = i \<and> inv_business_id r = b \<and> inv_state r = frm
        then transition_row now to r = Inr r' else r' = r) (db_invoices d) t"
  using assms
  by (auto simp: transition_def Let_def result_simps try_update_where_Inr
      split: option.splits dest!: fetch_optional_SomeD)

lemma transition_None:
  "transition now b i frm to d = Inr (None, d') \<longleftrightarrow>
     d' = d \<and> (\<forall>iv \<in> set (db_invoices d). \<not> (inv_id iv = i \<and> inv_business_id iv = b \<and> inv_state iv = frm))"
  by (auto simp: transition_def Let_def result_simps fetch_optional_None
      split: option.splits dest!: fetch_optional_SomeD)

lemma customer_keyset:
  assumes "distinct (map cu_id (db_customers d))"
  shows "sorted_wrt (\<lambda>r s. customer_key s < customer_key r)
           (order_desc customer_key (select_where (\<lambda>c. cu_business_id c = b) (db_customers d)))"
  by (rule order_desc_sorted)
    (use distinct_filter_pair [OF assms] in \<open>simp add: customer_key_def [abs_def] select_where_def\<close>)

lemma invoice_keyset:
  assumes "distinct (map inv_id (db_invoices d))"
  shows "sorted_wrt (\<lambda>r s. invoice_key s < invoice_key r)
           (order_desc invoice_key (select_where P (db_invoices d)))"
  by (rule order_desc_sorted)
    (use distinct_filter_pair [OF assms] in \<open>simp add: invoice_key_def [abs_def] select_where_def\<close>)

text \<open>The two list queries of this layer satisfy the keyset contract.\<close>

interpretation cust: keyset_listing
  "\<lambda>(b, d) cursor n. customer_list b n cursor d"
  customer_key
  "\<lambda>(b, d). order_desc customer_key (select_where (\<lambda>c. cu_business_id c = b) (db_customers d))"
  "\<lambda>(b, d). distinct (map cu_id (db_customers d))"
  by unfold_locales
    (auto simp: customer_list_def keyset_select_def order_desc_filter customer_keyset)

interpretation invl: keyset_listing
  "\<lambda>(b, s, d) cursor n. invoice_list b s n cursor d"
  invoice_key
  "\<lambda>(b, s, d). order_desc invoice_key
      (select_where (\<lambda>iv. inv_business_id iv = b
          \<and> (case s of None \<Rightarrow> True | Some s' \<Rightarrow> inv_state iv = s')) (db_invoices d))"
  "\<lambda>(b, s, d). distinct (map inv_id (db_invoices d))"
  by unfold_locales
    (auto simp: invoice_list_def keyset_select_def order_desc_filter invoice_keyset)

end
