(* ===== verification/Customer_Service.thy ===== *)
theory Customer_Service
  imports Repositories
begin

text \<open>
  \<^verbatim>\<open>services/customer_service.rs\<close>: creating a customer with validation and duplicate detection,
  reading one, and the paginated list. An \<open>Inl\<close> result leaves the database unchanged.
\<close>

section \<open>Definitions\<close>

definition is_plausible_email :: "string \<Rightarrow> bool" where
  "is_plausible_email s =
     (case split_once CHR ''@'' s of
        None \<Rightarrow> False
      | Some (a, b) \<Rightarrow> a \<noteq> [] \<and> CHR ''.'' \<in> set b)"

definition validate_customer :: "create_customer_request \<Rightarrow> field_error list" where
  "validate_customer req =
     (case cc_email req of
        Some email \<Rightarrow> if \<not> is_plausible_email email
                     then [new_field_error ''email'' ''must be a valid email address''] else []
      | None \<Rightarrow> [])
     @ (if cc_email req = None \<and> cc_name req = None
        then [new_field_error ''name'' ''provide at least a name or an email''] else [])"

definition customer_create ::
  "ext \<Rightarrow> timestamp \<Rightarrow> uuid \<Rightarrow> uuid \<Rightarrow> create_customer_request \<Rightarrow> db
     \<Rightarrow> (app_error, customer_response \<times> db) result" where
  "customer_create E now new_id business_id req d =
     (let errors = validate_customer req
      in if errors \<noteq> [] then Inl (Validation errors)
         else case customer_insert E now new_id business_id (cc_email req) (cc_name req) d of
                Inr (c, d') \<Rightarrow> Inr (customer_into c, d')
              | Inl e \<Rightarrow>
                  if is_unique_violation e then
                    Inl (conflict ''customer_email_exists''
                      ''a customer with this email already exists for this business'')
                  else Inl (from_sqlx e))"

definition customer_service_get :: "uuid \<Rightarrow> uuid \<Rightarrow> db \<Rightarrow> (app_error, customer_response) result" where
  "customer_service_get business_id i d =
     ok_or (NotFound ''customer not found'') (map_option customer_into (customer_get business_id i d))"

definition customer_service_list ::
  "ext \<Rightarrow> uuid \<Rightarrow> i64 option \<Rightarrow> string option \<Rightarrow> db \<Rightarrow> customer_response page" where
  "customer_service_list E business_id limit cursor d =
     list_page E customer_key customer_into (\<lambda>c n. customer_list business_id n c d) limit cursor"

section \<open>Lemmas\<close>

lemma customer_insert_Inr:
  "customer_insert E now i b email name d = Inr (c, d') \<longleftrightarrow>
     (\<forall>c' \<in> set (db_customers d). cu_id c' \<noteq> i
        \<and> \<not> (cu_business_id c' = b \<and> same_email E (cu_email c') email))
     \<and> c = \<lparr>cu_id = i, cu_business_id = b, cu_email = email, cu_name = name,
            cu_created_at = now, cu_updated_at = now\<rparr>
     \<and> d' = d\<lparr>db_customers := db_customers d @ [c]\<rparr>"
  by (auto simp: customer_insert_def table_simps Let_def)

lemma customer_create_Inr:
  "customer_create E now i b req d = Inr (r, d') \<longleftrightarrow>
     validate_customer req = [] \<and>
     (\<exists>c. customer_insert E now i b (cc_email req) (cc_name req) d = Inr (c, d') \<and> r = customer_into c)"
  by (auto simp: customer_create_def Let_def split: sum.splits if_splits)

lemma customer_insert_Inl_unique:
  "customer_insert E now i b email name d = Inl e \<Longrightarrow> is_unique_violation e"
  by (auto simp: customer_insert_def Let_def split: if_splits)

section \<open>Properties\<close>

text \<open>
  The uniqueness the table keeps: no two customers of one business share an email, up to the
  case folding of citext, and ids are unique.
\<close>

definition customers_unique :: "ext \<Rightarrow> db \<Rightarrow> bool" where
  "customers_unique E d \<longleftrightarrow>
     distinct (map cu_id (db_customers d)) \<and>
     (\<forall>i < length (db_customers d). \<forall>j < i.
        \<not> (cu_business_id (db_customers d ! i) = cu_business_id (db_customers d ! j)
           \<and> same_email E (cu_email (db_customers d ! j)) (cu_email (db_customers d ! i))))"

text \<open>
  Creating a customer. A request with a field problem is answered with every problem it has;
  a valid one is stored and returned, can then be read back by its business and by no other,
  and uniqueness of ids and of emails per business is kept; it is answered with the conflict
  error exactly when the id or the email is already taken.
\<close>

theorem customer_create_correct:
  "(validate_customer req \<noteq> [] \<longrightarrow>
      customer_create E now i b req d = Inl (Validation (validate_customer req)))
   \<and> (customer_create E now i b req d = Inr (r, d') \<longrightarrow>
        customer_service_get b i d' = Inr r
        \<and> cr_email r = cc_email req \<and> cr_name r = cc_name req
        \<and> (\<forall>b'. b' \<noteq> b \<longrightarrow> customer_service_get b' i d' = Inl (NotFound ''customer not found''))
        \<and> (customers_unique E d \<longrightarrow> customers_unique E d'))
   \<and> (validate_customer req = [] \<longrightarrow>
        (customer_create E now i b req d
           = Inl (Conflict ''customer_email_exists''
                    ''a customer with this email already exists for this business'')
         \<longleftrightarrow> (\<exists>c \<in> set (db_customers d).
               cu_id c = i \<or> (cu_business_id c = b \<and> same_email E (cu_email c) (cc_email req)))))"
proof (intro conjI impI)
  assume "validate_customer req \<noteq> []"
  then show "customer_create E now i b req d = Inl (Validation (validate_customer req))"
    by (simp add: customer_create_def)
next
  assume ok: "customer_create E now i b req d = Inr (r, d')"
  then obtain c where c: "customer_insert E now i b (cc_email req) (cc_name req) d = Inr (c, d')"
    and r: "r = customer_into c" by (auto simp: customer_create_Inr)
  then have d': "d' = d\<lparr>db_customers := db_customers d @ [c]\<rparr>" and ci: "cu_id c = i" "cu_business_id c = b"
    and fresh: "\<forall>c' \<in> set (db_customers d). cu_id c' \<noteq> i"
    and fields: "cu_email c = cc_email req" "cu_name c = cc_name req"
    by (auto simp: customer_insert_Inr)
  have "customer_get b i d' = Some c"
    unfolding customer_get_def by (rule fetch_optional_unique) (use fresh ci d' in auto)
  then show "customer_service_get b i d' = Inr r" by (simp add: customer_service_get_def r)
  show "cr_email r = cc_email req" "cr_name r = cc_name req"
    using r fields by (simp_all add: customer_into_def)
  show "\<forall>b'. b' \<noteq> b \<longrightarrow> customer_service_get b' i d' = Inl (NotFound ''customer not found'')"
  proof (intro allI impI)
    fix b' assume "b' \<noteq> b"
    then have "customer_get b' i d' = None"
      using fresh ci d' by (auto simp: customer_get_def fetch_optional_None)
    then show "customer_service_get b' i d' = Inl (NotFound ''customer not found'')"
      by (simp add: customer_service_get_def)
  qed
  show "customers_unique E d'" if "customers_unique E d"
    using that c d' by (auto simp: customers_unique_def customer_insert_Inr nth_append less_Suc_eq)
next
  assume valid: "validate_customer req = []"
  show "(customer_create E now i b req d
           = Inl (Conflict ''customer_email_exists''
                    ''a customer with this email already exists for this business''))
      \<longleftrightarrow> (\<exists>c \<in> set (db_customers d).
            cu_id c = i \<or> (cu_business_id c = b \<and> same_email E (cu_email c) (cc_email req)))"
    using valid by (auto simp: customer_create_def customer_insert_def table_simps Let_def)
qed

theorem customer_create_correct_witness:
  "\<exists>r d'. customer_create sample_ext 0 7 1 \<lparr>cc_email = Some ''a@b.c'', cc_name = None\<rparr> empty_db = Inr (r, d')
     \<and> customer_service_get 1 7 d' = Inr r"
proof -
  let ?req = "\<lparr>cc_email = Some ''a@b.c'', cc_name = None\<rparr>"
  obtain r d' where ok: "customer_create sample_ext 0 7 1 ?req empty_db = Inr (r, d')"
    by (simp add: customer_create_def validate_customer_def is_plausible_email_def
        customer_insert_def empty_db_def table_simps Let_def)
  with customer_create_correct [of ?req sample_ext 0 7 1 empty_db r d'] show ?thesis by blast
qed

text \<open>
  C39: following the cursors of the customer list, from the first page and with any limit,
  visits every customer of the business exactly once, newest first, and ends after at most as
  many requests as there are customers, plus one.
\<close>

theorem customer_list_walk:
  assumes "hex_laws E" "uuid_laws E" "rfc3339_laws E" and "distinct (map cu_id (db_customers d))"
    and "length (select_where (\<lambda>c. cu_business_id c = b) (db_customers d)) < fuel"
  shows "walk fuel (\<lambda>cursor. customer_service_list E b limit cursor d) None =
     Some (map customer_into
       (order_desc customer_key (select_where (\<lambda>c. cu_business_id c = b) (db_customers d))))"
  using cust.walk_complete [OF assms(1-3), of "(b, d)" fuel customer_into limit] assms(4,5)
  by (simp add: customer_service_list_def [abs_def] order_desc_def)

theorem customer_list_walk_witness:
  "walk 3 (\<lambda>cursor. customer_service_list sample_ext 1 (Some 1) cursor
      (empty_db\<lparr>db_customers := [\<lparr>cu_id = 1, cu_business_id = 1, cu_email = None, cu_name = Some ''x'',
                                cu_created_at = 5, cu_updated_at = 5\<rparr>,
                              \<lparr>cu_id = 2, cu_business_id = 1, cu_email = None, cu_name = Some ''y'',
                                cu_created_at = 6, cu_updated_at = 6\<rparr>]\<rparr>)) None
     = Some [\<lparr>cr_id = 2, cr_email = None, cr_name = Some ''y'', cr_created_at = 6\<rparr>,
             \<lparr>cr_id = 1, cr_email = None, cr_name = Some ''x'', cr_created_at = 5\<rparr>]"
  by (subst customer_list_walk [OF sample_laws])
    (simp_all add: select_where_def order_desc_def customer_key_def customer_into_def)

end
