(* ===== verification/Config.thy ===== *)
theory Config
  imports Rust_Std
begin

text \<open>
  \<^verbatim>\<open>crates/common/src/config.rs\<close>: the service configuration read from the environment. The
  environment is a map from variable names to values.
\<close>

section \<open>Definitions\<close>

record service_config =
  database_url :: string
  bind_addr :: string
  psp_base_url :: string
  psp_timeout_ms :: u64
  webhook_max_attempts :: int

definition from_env :: "(string \<rightharpoonup> string) \<Rightarrow> (string, service_config) result" where
  "from_env env =
     (case env ''DATABASE_URL'' of
        None \<Rightarrow> Inl ''DATABASE_URL must be set''
      | Some url \<Rightarrow>
          Inr \<lparr>database_url = url,
               bind_addr = (case env ''BIND_ADDR'' of Some a \<Rightarrow> a | None \<Rightarrow> ''0.0.0.0:8080''),
               psp_base_url =
                 (case env ''PSP_BASE_URL'' of Some u \<Rightarrow> u | None \<Rightarrow> ''http://localhost:9090''),
               psp_timeout_ms =
                 (case Option.bind (env ''PSP_TIMEOUT_MS'') parse_u64 of Some t \<Rightarrow> t | None \<Rightarrow> 5000),
               webhook_max_attempts =
                 (case Option.bind (env ''WEBHOOK_MAX_ATTEMPTS'') parse_i32 of
                    Some n \<Rightarrow> n | None \<Rightarrow> 8)\<rparr>)"

section \<open>Lemmas\<close>

lemma parse_nat_digits:
  "parse_nat s = Some n \<Longrightarrow> s \<noteq> [] \<and> (\<forall>c \<in> set s. digit_val c \<noteq> None)"
proof -
  have "parse_digits a t = Some n \<Longrightarrow> \<forall>c \<in> set t. digit_val c \<noteq> None" for a t
    by (induction a t rule: parse_digits.induct) (auto split: option.splits)
  then show "parse_nat s = Some n \<Longrightarrow> s \<noteq> [] \<and> (\<forall>c \<in> set s. digit_val c \<noteq> None)"
    by (auto simp: parse_nat_def split: if_splits)
qed

lemma no_sign_prefix: "strip_prefix ''-'' (show_nat n) = None" "strip_prefix ''+'' (show_nat n) = None"
proof -
  have "hd (show_nat n) \<in> set (show_nat n)" by simp
  then have "digit_val (hd (show_nat n)) \<noteq> None" by (rule show_nat_digits)
  then have "hd (show_nat n) \<noteq> CHR ''-''" "hd (show_nat n) \<noteq> CHR ''+''"
    by (auto simp: digit_val_def)
  then show "strip_prefix ''-'' (show_nat n) = None" "strip_prefix ''+'' (show_nat n) = None"
    by (cases "show_nat n"; simp add: strip_prefix_def)+
qed

lemma parse_u64_show: "n < 2 ^ 64 \<Longrightarrow> parse_u64 (show_nat n) = Some (of_nat n)"
  by (simp add: parse_u64_def no_sign_prefix)

lemma parse_i32_show: "- (2 ^ 31) \<le> i \<Longrightarrow> i < 2 ^ 31 \<Longrightarrow> parse_i32 (show_int i) = Some i"
  by (auto simp: parse_i32_def show_int_def no_sign_prefix strip_prefix_def [of "''-''" "_ # _"])

lemma parse_i32_range: "parse_i32 s = Some i \<Longrightarrow> - (2 ^ 31) \<le> i \<and> i < 2 ^ 31"
  by (auto simp: parse_i32_def Let_def split: option.splits if_splits)

lemma from_env_numbers:
  assumes "from_env env = Inr c"
  shows "webhook_max_attempts c =
           (case Option.bind (env ''WEBHOOK_MAX_ATTEMPTS'') parse_i32 of Some n \<Rightarrow> n | None \<Rightarrow> 8)"
    and "psp_timeout_ms c =
           (case Option.bind (env ''PSP_TIMEOUT_MS'') parse_u64 of Some t \<Rightarrow> t | None \<Rightarrow> 5000)"
  using assms by (cases "env ''DATABASE_URL''"; clarsimp simp: from_env_def)+

section \<open>Properties\<close>

text \<open>
  Configuration loading. It fails exactly when \<^verbatim>\<open>DATABASE_URL\<close> is unset; a loaded
  configuration takes a numeric setting from the environment when the value printed there is in
  range, and a value that does not parse (or is absent) falls back to the default.
\<close>

theorem from_env_loads:
  "((\<exists>m. from_env env = Inl m) \<longleftrightarrow> env ''DATABASE_URL'' = None)
   \<and> (from_env env = Inr c \<longrightarrow>
        (env ''WEBHOOK_MAX_ATTEMPTS'' = Some (show_int i) \<and> - (2 ^ 31) \<le> i \<and> i < 2 ^ 31
           \<longrightarrow> webhook_max_attempts c = i)
      \<and> (env ''PSP_TIMEOUT_MS'' = Some (show_nat n) \<and> n < 2 ^ 64 \<longrightarrow> unat (psp_timeout_ms c) = n)
      \<and> (Option.bind (env ''WEBHOOK_MAX_ATTEMPTS'') parse_i32 = None \<longrightarrow> webhook_max_attempts c = 8)
      \<and> (Option.bind (env ''PSP_TIMEOUT_MS'') parse_u64 = None \<longrightarrow> psp_timeout_ms c = 5000)
      \<and> - (2 ^ 31) \<le> webhook_max_attempts c \<and> webhook_max_attempts c < 2 ^ 31)"
proof -
  have "- (2 ^ 31) \<le> webhook_max_attempts c \<and> webhook_max_attempts c < 2 ^ 31"
    if "from_env env = Inr c"
    using parse_i32_range
    by (force simp: from_env_numbers [OF that] bind_eq_Some_conv split: option.split)
  moreover have "(\<exists>m. from_env env = Inl m) \<longleftrightarrow> env ''DATABASE_URL'' = None"
    by (simp add: from_env_def split: option.split)
  ultimately show ?thesis
    by (auto simp: from_env_numbers parse_i32_show parse_u64_show unat_of_nat)
qed

theorem from_env_loads_witness:
  "\<exists>c. from_env [''DATABASE_URL'' \<mapsto> ''pg'', ''WEBHOOK_MAX_ATTEMPTS'' \<mapsto> show_int 3] = Inr c
     \<and> webhook_max_attempts c = 3 \<and> psp_timeout_ms c = 5000"
proof -
  let ?env = "[''DATABASE_URL'' \<mapsto> ''pg'', ''WEBHOOK_MAX_ATTEMPTS'' \<mapsto> show_int 3]"
  obtain c where c: "from_env ?env = Inr c" by (auto simp: from_env_def)
  then show ?thesis using from_env_loads [of ?env c 3] by auto
qed

end
