(* ===== verification/Auth.thy ===== *)
theory Auth
  imports Repositories
begin

text \<open>
  \<^verbatim>\<open>auth/api_key.rs\<close> and \<^verbatim>\<open>auth/middleware.rs\<close>: generation, lookup prefix, hash and comparison of
  API keys, and the middleware that turns the Authorization header of a request into a
  business. The random body of a key is an argument; the header is the raw value of the
  Authorization header, if the request has one.
\<close>

unbundle bit_operations_syntax

section \<open>Keys (\<^verbatim>\<open>api_key.rs\<close>)\<close>

definition PREFIX_LEN :: nat where "PREFIX_LEN = 17"
definition RANDOM_LEN :: nat where "RANDOM_LEN = 36"

record generated_key =
  gk_full :: string
  gk_prefix :: string
  gk_last_four :: string
  gk_key_hash :: "u8 list"

definition derive_prefix :: "string \<Rightarrow> string" where
  "derive_prefix key =
     (let is = char_indices key;
          e = (if PREFIX_LEN < length is then is ! PREFIX_LEN else length key)
      in take e key)"

definition hash_key :: "ext \<Rightarrow> string \<Rightarrow> u8 list" where
  "hash_key E key = sha256 E (as_bytes key)"

definition generate_key :: "ext \<Rightarrow> string \<Rightarrow> string \<Rightarrow> generated_key" where
  "generate_key E env random =
     (let env' = (if env = ''live'' then ''live'' else ''test'');
          full = ''dpk_'' @ env' @ ''_'' @ random
      in \<lparr>gk_full = full, gk_prefix = derive_prefix full,
          gk_last_four = drop (length full - 4) full, gk_key_hash = hash_key E full\<rparr>)"

text \<open>The loop over the zipped bytes, with its accumulator.\<close>

definition constant_time_eq :: "u8 list \<Rightarrow> u8 list \<Rightarrow> bool" where
  "constant_time_eq a b =
     (if length a \<noteq> length b then False
      else fold (\<lambda>(x, y) diff. diff OR (x XOR y)) (zip a b) 0 = 0)"

section \<open>Middleware (\<^verbatim>\<open>middleware.rs\<close>)\<close>

definition bearer_token :: "ext \<Rightarrow> u8 list option \<Rightarrow> string option" where
  "bearer_token E header =
     Option.bind header (\<lambda>h.
     Option.bind (header_to_str E h) (\<lambda>raw.
     Option.bind (strip_prefix ''Bearer '' raw) (\<lambda>s.
       let t = trim s in if t = [] then None else Some t)))"

definition key_active :: "timestamp \<Rightarrow> api_key_row \<Rightarrow> bool" where
  "key_active now k \<longleftrightarrow> ak_revoked_at k = None
     \<and> (case ak_expires_at k of None \<Rightarrow> True | Some t \<Rightarrow> now < t)"

definition require_api_key ::
  "ext \<Rightarrow> timestamp \<Rightarrow> u8 list option \<Rightarrow> db \<Rightarrow> (app_error, uuid) result" where
  "require_api_key E now header d =
     res_bind (ok_or Unauthorized (bearer_token E header)) (\<lambda>token.
     res_bind (ok_or Unauthorized
         (fetch_optional (\<lambda>k. ak_prefix k = derive_prefix token \<and> key_active now k) (db_api_keys d))) (\<lambda>row.
       if \<not> constant_time_eq (ak_key_hash row) (hash_key E token) then Inl Unauthorized
       else Inr (ak_business_id row)))"

text \<open>The middleware stores the business in the request; every handler reads it back from there.\<close>

definition auth_business_from_parts :: "uuid option \<Rightarrow> (app_error, uuid) result" where
  "auth_business_from_parts extension = ok_or Unauthorized extension"

text \<open>The update the middleware spawns after a successful check.\<close>

definition touch_last_used :: "timestamp \<Rightarrow> string \<Rightarrow> db \<Rightarrow> db" where
  "touch_last_used now p d =
     d\<lparr>db_api_keys := update_where (\<lambda>k. ak_prefix k = p) (\<lambda>k. k\<lparr>ak_last_used_at := Some now\<rparr>)
        (db_api_keys d)\<rparr>"

section \<open>Lemmas\<close>

lemma auth_business_from_parts_Some [simp]: "auth_business_from_parts (Some b) = Inr b"
  by (simp add: auth_business_from_parts_def)

lemma fold_or_zero:
  "fold (\<lambda>(x, y) diff. diff OR (x XOR y)) ps d = (0 :: u8) \<longleftrightarrow> d = 0 \<and> (\<forall>(x, y) \<in> set ps. x = y)"
proof (induction ps arbitrary: d)
  case (Cons p ps)
  obtain x y where p: "p = (x, y)" by (cases p)
  have "d OR (x XOR y) = 0 \<longleftrightarrow> d = 0 \<and> x = y"
    by (auto simp: bit_eq_iff bit_simps)
  with Cons p show ?case by auto
qed simp

lemma char_indices_ascii:
  assumes "is_ascii s"
  shows "char_indices s = [0..<length s]"
proof -
  have "is_char_start (s ! i)" if "i < length s" for i
    using assms that by (simp add: is_ascii_def list_all_length is_char_start_def)
  then show ?thesis by (auto simp: char_indices_def intro: filter_True)
qed

lemma derive_prefix_ascii: "is_ascii s \<Longrightarrow> derive_prefix s = take PREFIX_LEN s"
  by (simp add: derive_prefix_def char_indices_ascii)

definition graphic :: "char \<Rightarrow> bool" where
  "graphic c \<longleftrightarrow> (33 :: nat) \<le> of_char c \<and> of_char c < (127 :: nat)"

lemma white_space_not_graphic:
  "list_all (\<lambda>p. p \<noteq> [] \<and> \<not> graphic (hd p) \<and> \<not> graphic (last p)) white_space"
  by code_simp

lemma strip_any_graphic:
  assumes "\<forall>p \<in> set ps. p \<noteq> [] \<longrightarrow> \<not> graphic (hd p)" and "graphic c"
  shows "strip_any ps (c # s) = None"
proof -
  have "\<not> (p \<noteq> [] \<and> prefix p (c # s))" if "p \<in> set ps" for p
    using assms that by (cases p) auto
  then show ?thesis by (simp add: strip_any_def find_None_iff)
qed

lemma trim_graphic:
  assumes "s \<noteq> []" and "graphic (hd s)" and "graphic (last s)"
  shows "trim s = s"
proof -
  have hds: "\<forall>p \<in> set white_space. p \<noteq> [] \<longrightarrow> \<not> graphic (hd p)"
    and lasts: "\<forall>p \<in> set (map rev white_space). p \<noteq> [] \<longrightarrow> \<not> graphic (hd p)"
    using white_space_not_graphic by (auto simp: list_all_iff hd_rev)
  obtain c r where s: "s = c # r" using assms(1) by (cases s) auto
  obtain c' r' where rs: "rev s = c' # r'" using assms(1) by (cases "rev s") auto
  have "graphic c'" using assms(3) rs by (metis hd_rev list.sel(1))
  then have "trim_end s = s"
    using rs strip_any_graphic [OF lasts] by (simp add: trim_end_def trim_with_id)
  moreover have "trim_start s = s"
    using s assms(2) strip_any_graphic [OF hds] by (simp add: trim_start_def trim_with_id)
  ultimately show ?thesis by (simp add: trim_def)
qed

lemma bearer_token_header:
  assumes "header_laws E" and "s \<noteq> []" and "\<forall>c \<in> set s. graphic c"
  shows "bearer_token E (Some (as_bytes (''Bearer '' @ s))) = Some s"
proof -
  have "visible_ascii (''Bearer '' @ s)"
    using assms(3) by (auto simp: visible_ascii_def list_all_iff graphic_def)
  then have "header_to_str E (as_bytes (''Bearer '' @ s)) = Some (''Bearer '' @ s)"
    using assms(1) by (simp add: header_laws_def)
  moreover have "trim s = s" using assms(2,3) by (intro trim_graphic) auto
  ultimately show ?thesis using assms(2) by (simp add: bearer_token_def strip_prefix_def)
qed

lemma graphic_is_ascii: "\<forall>c \<in> set s. graphic c \<Longrightarrow> is_ascii s"
  by (auto simp: is_ascii_def list_all_iff graphic_def)

lemma constant_time_eq_iff: "constant_time_eq a b \<longleftrightarrow> a = b"
proof -
  have "(\<forall>(x, y) \<in> set (zip a b). x = y) \<longleftrightarrow> a = b" if "length a = length b"
    using that by (induction a b rule: list_induct2) auto
  then show ?thesis by (auto simp: constant_time_eq_def fold_or_zero)
qed

lemma require_api_key_Inr:
  "require_api_key E now header d = Inr b \<longleftrightarrow>
     (\<exists>token row. bearer_token E header = Some token
        \<and> fetch_optional (\<lambda>k. ak_prefix k = derive_prefix token \<and> key_active now k) (db_api_keys d) = Some row
        \<and> ak_key_hash row = hash_key E token \<and> b = ak_business_id row)"
  by (auto simp: require_api_key_def result_simps constant_time_eq_iff split: if_splits)

text \<open>The columns a touch or a revocation leaves alone.\<close>

interpretation touch_prefix: column_frame ak_prefix "\<lambda>k. k\<lparr>ak_last_used_at := Some now\<rparr>"
  by unfold_locales simp

interpretation revoke_prefix: column_frame ak_prefix "\<lambda>k. k\<lparr>ak_revoked_at := Some now\<rparr>"
  by unfold_locales simp

text \<open>With the unique index, the row the middleware compares with is the only one of its prefix.\<close>

lemma require_api_key_unique:
  assumes "distinct (map ak_prefix (db_api_keys d))"
  shows "require_api_key E now header d = Inr b \<longleftrightarrow>
      (\<exists>token. bearer_token E header = Some token
         \<and> (\<exists>k \<in> set (db_api_keys d). ak_prefix k = derive_prefix token \<and> key_active now k
              \<and> ak_key_hash k = hash_key E token \<and> ak_business_id k = b))"
proof -
  have "fetch_optional (\<lambda>k. ak_prefix k = p \<and> key_active now k) (db_api_keys d) = Some k \<longleftrightarrow>
      k \<in> set (db_api_keys d) \<and> ak_prefix k = p \<and> key_active now k" for p k
  proof
    assume "k \<in> set (db_api_keys d) \<and> ak_prefix k = p \<and> key_active now k"
    then show "fetch_optional (\<lambda>k. ak_prefix k = p \<and> key_active now k) (db_api_keys d) = Some k"
      using assms by (intro fetch_optional_unique) (auto simp: distinct_map inj_on_def)
  qed (auto dest: fetch_optional_SomeD)
  then show ?thesis unfolding require_api_key_Inr by auto
qed

lemma require_api_key_Inl: "require_api_key E now header d = Inl e \<Longrightarrow> e = Unauthorized"
  by (auto simp: require_api_key_def result_simps split: if_splits)

lemma require_api_key_refused:
  assumes "\<And>token k. bearer_token E header = Some token \<Longrightarrow> k \<in> set (db_api_keys d)
      \<Longrightarrow> ak_prefix k = derive_prefix token \<Longrightarrow> \<not> key_active now k"
  shows "require_api_key E now header d = Inl Unauthorized"
proof (cases "require_api_key E now header d")
  case (Inl e)
  then show ?thesis using require_api_key_Inl by metis
next
  case (Inr b)
  then show ?thesis using assms by (auto simp: require_api_key_Inr dest: fetch_optional_SomeD)
qed

lemma generate_key_shape:
  assumes "length random = RANDOM_LEN" and "\<forall>c \<in> set random. graphic c"
  shows "\<forall>c \<in> set (gk_full (generate_key E env random)). graphic c"
    and "length (gk_full (generate_key E env random)) = 45"
    and "gk_prefix (generate_key E env random) = derive_prefix (gk_full (generate_key E env random))"
    and "gk_last_four (generate_key E env random) = drop 41 (gk_full (generate_key E env random))"
    and "gk_key_hash (generate_key E env random) = hash_key E (gk_full (generate_key E env random))"
  using assms by (auto simp: generate_key_def Let_def RANDOM_LEN_def graphic_def)

section \<open>Properties\<close>

text \<open>
  The comparison loop that accumulates the differences of all byte pairs decides equality
  of the two byte strings.
\<close>

theorem constant_time_eq_correct: "constant_time_eq a b \<longleftrightarrow> a = b"
  by (rule constant_time_eq_iff)

text \<open>
  C28: authentication is exact. With the unique index on the prefix, a request is let through as
  business b exactly when its bearer token has the prefix of a stored key of b that is neither
  revoked nor expired and whose stored hash is the SHA-256 of the token; every other request is
  answered 401, whatever was wrong with it.
\<close>

theorem require_api_key_exact:
  assumes "distinct (map ak_prefix (db_api_keys d))"
  shows "(require_api_key E now header d = Inr b \<longleftrightarrow>
      (\<exists>token. bearer_token E header = Some token
         \<and> (\<exists>k \<in> set (db_api_keys d). ak_prefix k = derive_prefix token \<and> ak_revoked_at k = None
              \<and> (ak_expires_at k = None \<or> now < the (ak_expires_at k))
              \<and> ak_key_hash k = sha256 E (as_bytes token) \<and> ak_business_id k = b)))
    \<and> (\<forall>e. require_api_key E now header d = Inl e \<longrightarrow> e = Unauthorized)"
proof
  have "key_active now k \<longleftrightarrow> ak_revoked_at k = None \<and> (ak_expires_at k = None \<or> now < the (ak_expires_at k))"
    for k by (auto simp: key_active_def split: option.splits)
  then show "require_api_key E now header d = Inr b \<longleftrightarrow>
      (\<exists>token. bearer_token E header = Some token
         \<and> (\<exists>k \<in> set (db_api_keys d). ak_prefix k = derive_prefix token \<and> ak_revoked_at k = None
              \<and> (ak_expires_at k = None \<or> now < the (ak_expires_at k))
              \<and> ak_key_hash k = sha256 E (as_bytes token) \<and> ak_business_id k = b))"
    unfolding require_api_key_unique [OF assms] hash_key_def by simp
  show "\<forall>e. require_api_key E now header d = Inl e \<longrightarrow> e = Unauthorized"
    using require_api_key_Inl by blast
qed

text \<open>A database with the key that is generated from 36 letters a.\<close>

definition sample_key :: generated_key where
  "sample_key = generate_key sample_ext ''live'' (replicate 36 CHR ''a'')"

definition sample_key_row :: api_key_row where
  "sample_key_row = \<lparr>ak_id = 4, ak_business_id = 1, ak_name = None, ak_prefix = gk_prefix sample_key,
     ak_key_hash = gk_key_hash sample_key, ak_last_four = gk_last_four sample_key, ak_created_at = 0,
     ak_last_used_at = None, ak_revoked_at = None, ak_expires_at = None\<rparr>"

lemma bearer_sample: "bearer_token sample_ext (Some (as_bytes (''Bearer '' @ gk_full sample_key))) = Some (gk_full sample_key)"
  by (rule bearer_token_header [OF sample_header_laws])
    (auto simp: sample_key_def generate_key_def graphic_def Let_def)

theorem require_api_key_exact_witness:
  "require_api_key sample_ext 5 (Some (as_bytes (''Bearer '' @ gk_full sample_key)))
     (empty_db\<lparr>db_api_keys := [sample_key_row]\<rparr>) = Inr 1"
proof -
  have "distinct (map ak_prefix (db_api_keys (empty_db\<lparr>db_api_keys := [sample_key_row]\<rparr>)))" by simp
  from require_api_key_exact [OF this, of sample_ext 5 "Some (as_bytes (''Bearer '' @ gk_full sample_key))" 1]
  show ?thesis using bearer_sample
    by (simp add: sample_key_row_def) (simp add: sample_key_def generate_key_def Let_def hash_key_def)
qed



end
