(* ===== verification/Webhook_Service.thy ===== *)
theory Webhook_Service
  imports Repositories
begin

text \<open>
  \<^verbatim>\<open>services/webhook_service.rs\<close>: the outbox insert, endpoint registration, and the
  reconciliation surface (events, deliveries, manual redelivery). The random secret is an
  argument.
\<close>

section \<open>Definitions\<close>

definition emit_event ::
  "timestamp \<Rightarrow> uuid \<Rightarrow> uuid \<Rightarrow> string \<Rightarrow> uuid \<Rightarrow> json \<Rightarrow> db \<Rightarrow> (sqlx_error, uuid \<times> db) result" where
  "emit_event now new_id business_id event_type aggregate_id payload d =
     (if exists_row (\<lambda>e. ev_id e = new_id) (db_events d) then
        Inl (unique_violation ''webhook_events_pkey'')
      else
        Inr (new_id,
             d\<lparr>db_events := db_events d @
                 [\<lparr>ev_id = new_id, ev_business_id = business_id, ev_event_type = event_type,
                   ev_aggregate_id = aggregate_id, ev_payload = payload,
                   ev_sequence = db_event_seq d, ev_created_at = now\<rparr>],
               db_event_seq := db_event_seq d + 1\<rparr>))"

definition register_endpoint ::
  "ext \<Rightarrow> uuid \<Rightarrow> u8 list \<Rightarrow> uuid \<Rightarrow> create_endpoint_request \<Rightarrow> db
     \<Rightarrow> (app_error, create_endpoint_response \<times> db) result" where
  "register_endpoint E new_id secret business_id req d =
     (if \<not> (starts_with (ce_url req) ''http://'' \<or> starts_with (ce_url req) ''https://'') then
        Inl (Validation [new_field_error ''url'' ''must be an http(s) URL''])
      else if exists_row (\<lambda>ep. ep_id ep = new_id) (db_endpoints d) then
        Inl (from_sqlx (unique_violation ''webhook_endpoints_pkey''))
      else
        Inr (\<lparr>cer_id = new_id, cer_url = ce_url req, cer_event_types = ce_event_types req,
              cer_secret = hex_encode E secret\<rparr>,
             d\<lparr>db_endpoints := db_endpoints d @
                 [\<lparr>ep_id = new_id, ep_business_id = business_id, ep_url = ce_url req,
                   ep_secret = secret, ep_event_types = ce_event_types req,
                   ep_status = ''active''\<rparr>]\<rparr>))"

definition event_row_of :: "webhook_event \<Rightarrow> webhook_event_row" where
  "event_row_of e =
     \<lparr>er_id = ev_id e, er_event_type = ev_event_type e, er_aggregate_id = ev_aggregate_id e,
      er_payload = ev_payload e, er_sequence = ev_sequence e, er_created_at = ev_created_at e\<rparr>"

definition select_events ::
  "uuid \<Rightarrow> nat \<Rightarrow> (timestamp \<times> uuid) option \<Rightarrow> db \<Rightarrow> webhook_event list" where
  "select_events business_id limit cursor d =
     keyset_select event_key cursor limit
       (select_where (\<lambda>e. ev_business_id e = business_id) (db_events d))"

definition list_events ::
  "ext \<Rightarrow> uuid \<Rightarrow> i64 option \<Rightarrow> string option \<Rightarrow> db \<Rightarrow> webhook_event_row page" where
  "list_events E business_id limit cursor d =
     list_page E event_key event_row_of (\<lambda>c n. select_events business_id n c d) limit cursor"

definition delivery_row_of :: "webhook_delivery \<Rightarrow> webhook_delivery_row" where
  "delivery_row_of w =
     \<lparr>dr_id = wd_id w, dr_event_id = wd_event_id w, dr_endpoint_id = wd_endpoint_id w,
      dr_status = wd_status w, dr_attempts = wd_attempts w,
      dr_next_attempt_at = wd_next_attempt_at w, dr_last_status_code = wd_last_status_code w,
      dr_last_error = wd_last_error w, dr_last_attempt_at = wd_last_attempt_at w,
      dr_created_at = wd_created_at w\<rparr>"

definition list_deliveries :: "uuid \<Rightarrow> string option \<Rightarrow> db \<Rightarrow> webhook_delivery_row list" where
  "list_deliveries business_id status d =
     map delivery_row_of
       (take 200 (sort_key (\<lambda>w. - wd_created_at w)
         (select_where (\<lambda>w. wd_business_id w = business_id
                            \<and> (case status of None \<Rightarrow> True | Some s \<Rightarrow> wd_status w = s))
           (db_deliveries d))))"

definition redeliver :: "timestamp \<Rightarrow> uuid \<Rightarrow> uuid \<Rightarrow> db \<Rightarrow> (app_error, db) result" where
  "redeliver now business_id delivery_id d =
     (let P = (\<lambda>w. wd_id w = delivery_id \<and> wd_business_id w = business_id
                    \<and> wd_status w \<in> {''failed'', ''dead''})
      in if rows_affected P (db_deliveries d) = 0 then
           Inl (NotFound ''no failed/dead delivery with that id'')
         else
           Inr (d\<lparr>db_deliveries := update_where P
                    (\<lambda>w. w\<lparr>wd_status := ''pending'', wd_attempts := 0, wd_next_attempt_at := now,
                          wd_locked_until := None, wd_last_error := None, wd_updated_at := now\<rparr>)
                    (db_deliveries d)\<rparr>))"

section \<open>Lemmas\<close>

lemma emit_event_Inr:
  "emit_event now i b ty agg p d = Inr (j, d') \<longleftrightarrow>
     j = i \<and> (\<forall>e \<in> set (db_events d). ev_id e \<noteq> i)
     \<and> d' = d\<lparr>db_events := db_events d @
                 [\<lparr>ev_id = i, ev_business_id = b, ev_event_type = ty, ev_aggregate_id = agg,
                   ev_payload = p, ev_sequence = db_event_seq d, ev_created_at = now\<rparr>],
               db_event_seq := db_event_seq d + 1\<rparr>"
  by (auto simp: emit_event_def table_simps)

definition emitted_event :: "timestamp \<Rightarrow> uuid \<Rightarrow> uuid \<Rightarrow> string \<Rightarrow> uuid \<Rightarrow> json \<Rightarrow> db \<Rightarrow> webhook_event" where
  "emitted_event now i b ty agg p d =
     \<lparr>ev_id = i, ev_business_id = b, ev_event_type = ty, ev_aggregate_id = agg,
      ev_payload = p, ev_sequence = db_event_seq d, ev_created_at = now\<rparr>"

lemma emit_event_row:
  assumes "emit_event now i b ty agg p d = Inr (j, d')"
  shows "db_events d' = db_events d @ [emitted_event now i b ty agg p d]"
  using assms by (simp add: emit_event_Inr emitted_event_def)

text \<open>The outbox is well formed: ids are unique and sequence numbers increase with insertion.\<close>

definition outbox_ok :: "db \<Rightarrow> bool" where
  "outbox_ok d \<longleftrightarrow> distinct (map ev_id (db_events d))
     \<and> sorted_wrt (<) (map ev_sequence (db_events d))
     \<and> (\<forall>e \<in> set (db_events d). ev_sequence e < db_event_seq d)"

lemma emit_event_outbox_ok:
  "emit_event now i b ty agg p d = Inr (j, d') \<Longrightarrow> outbox_ok d \<Longrightarrow> outbox_ok d'"
  by (auto simp: emit_event_Inr outbox_ok_def sorted_wrt_append)

lemma event_keyset:
  assumes "distinct (map ev_id (db_events d))"
  shows "sorted_wrt (\<lambda>r s. event_key s < event_key r)
           (order_desc event_key (select_where P (db_events d)))"
  by (rule order_desc_sorted)
    (use distinct_filter_pair [OF assms] in \<open>simp add: event_key_def [abs_def] select_where_def\<close>)

interpretation evl: keyset_listing
  "\<lambda>(b, d) cursor n. select_events b n cursor d"
  event_key
  "\<lambda>(b, d). order_desc event_key (select_where (\<lambda>e. ev_business_id e = b) (db_events d))"
  "\<lambda>(b, d). distinct (map ev_id (db_events d))"
  by unfold_locales
    (auto simp: select_events_def keyset_select_def order_desc_filter event_keyset)

section \<open>Properties\<close>

text \<open>
  The outbox is append-only and ordered. An emitted event is added after all earlier ones
  with the next sequence number, earlier events are unchanged, and the event then appears in
  the walk of the event list of its business.
\<close>

theorem emit_event_listed:
  assumes "hex_laws E" "uuid_laws E" "rfc3339_laws E" and "outbox_ok d"
    and "emit_event now i b ty agg payload d = Inr (j, d')"
    and "length (db_events d') < fuel"
  shows "outbox_ok d' \<and> (\<exists>e. db_events d' = db_events d @ [e] \<and> (\<forall>e' \<in> set (db_events d). ev_sequence e' < ev_sequence e))
    \<and> (\<exists>rows. walk fuel (\<lambda>cursor. list_events E b limit cursor d') None = Some rows
         \<and> distinct (map er_id rows)
         \<and> (\<exists>r \<in> set rows. er_id r = i \<and> er_event_type r = ty \<and> er_aggregate_id r = agg
               \<and> er_payload r = payload))"
proof (intro conjI)
  show ok: "outbox_ok d'" using emit_event_outbox_ok assms(4,5) by blast
  show "\<exists>e. db_events d' = db_events d @ [e] \<and> (\<forall>e' \<in> set (db_events d). ev_sequence e' < ev_sequence e)"
    using assms(4,5) by (auto simp: emit_event_Inr outbox_ok_def)
  let ?L = "order_desc event_key (select_where (\<lambda>e. ev_business_id e = b) (db_events d'))"
  have fuel: "length ?L < fuel"
    using assms(6) length_filter_le [of "\<lambda>e. ev_business_id e = b" "db_events d'"]
    unfolding order_desc_def select_where_def length_rev length_sort by linarith
  have dist: "distinct (map ev_id (db_events d'))" using ok by (simp add: outbox_ok_def)
  have walk: "walk fuel (\<lambda>cursor. list_events E b limit cursor d') None = Some (map event_row_of ?L)"
    using evl.walk_complete [OF assms(1-3), of "(b, d')" fuel event_row_of limit] fuel dist
    by (simp add: list_events_def [abs_def])
  have "distinct (map ev_id ?L)"
    using distinct_map_filter [OF dist, of "\<lambda>e. ev_business_id e = b"]
    by (simp add: order_desc_def select_where_def distinct_map)
  moreover have "map er_id (map event_row_of es) = map ev_id es" for es
    by (simp add: event_row_of_def)
  ultimately have "distinct (map er_id (map event_row_of ?L))" by (simp only:)
  note dist_rows = this
  let ?e = "emitted_event now i b ty agg payload d"
  have "?e \<in> set (db_events d')" using emit_event_row [OF assms(5)] by simp
  moreover have "ev_business_id ?e = b" by (simp add: emitted_event_def)
  ultimately have "event_row_of ?e \<in> set (map event_row_of ?L)" by (simp add: set_select_where)
  then have "\<exists>r \<in> set (map event_row_of ?L). er_id r = i \<and> er_event_type r = ty
      \<and> er_aggregate_id r = agg \<and> er_payload r = payload"
    by (rule bexI [rotated]) (simp add: event_row_of_def emitted_event_def)
  with dist_rows show "\<exists>rows. walk fuel (\<lambda>cursor. list_events E b limit cursor d') None = Some rows
         \<and> distinct (map er_id rows)
         \<and> (\<exists>r \<in> set rows. er_id r = i \<and> er_event_type r = ty \<and> er_aggregate_id r = agg
               \<and> er_payload r = payload)"
    using walk by blast
qed

theorem emit_event_listed_witness:
  "\<exists>d'. emit_event 10 7 1 INVOICE_PAID 3 JNull empty_db = Inr (7, d') \<and> outbox_ok d'
     \<and> (\<exists>rows. walk 2 (\<lambda>cursor. list_events sample_ext 1 None cursor d') None = Some rows
          \<and> (\<exists>r \<in> set rows. er_id r = 7))"
proof -
  obtain d' where d': "emit_event 10 7 1 INVOICE_PAID 3 JNull empty_db = Inr (7, d')"
    by (simp add: emit_event_def empty_db_def table_simps)
  have "outbox_ok empty_db" by (simp add: outbox_ok_def empty_db_def)
  moreover have "length (db_events d') < 2" using d' by (simp add: emit_event_Inr empty_db_def)
  ultimately show ?thesis using emit_event_listed [OF sample_laws _ d', of 2 None] d' by blast
qed

text \<open>
  Manual redelivery requeues exactly the failed or dead delivery of the caller's business
  with that id: it becomes pending, due now, with its attempts reset and no lease, every other
  delivery is untouched, and in every other case the answer is not found and nothing changes.
\<close>

theorem redeliver_correct:
  "case redeliver now b i d of
      Inl e \<Rightarrow> e = NotFound ''no failed/dead delivery with that id''
         \<and> \<not> (\<exists>w \<in> set (db_deliveries d). wd_id w = i \<and> wd_business_id w = b
                \<and> wd_status w \<in> {''failed'', ''dead''})
    | Inr d' \<Rightarrow> (\<exists>k < length (db_deliveries d).
           let w = db_deliveries d ! k; w' = db_deliveries d' ! k in
             wd_id w = i \<and> wd_business_id w = b \<and> wd_status w \<in> {''failed'', ''dead''}
             \<and> wd_id w' = i \<and> wd_status w' = ''pending'' \<and> wd_attempts w' = 0
             \<and> wd_next_attempt_at w' = now \<and> wd_locked_until w' = None)
         \<and> (\<forall>k < length (db_deliveries d). wd_id (db_deliveries d ! k) \<noteq> i
               \<longrightarrow> db_deliveries d' ! k = db_deliveries d ! k)
         \<and> length (db_deliveries d') = length (db_deliveries d)"
proof (cases "\<exists>k < length (db_deliveries d). wd_id (db_deliveries d ! k) = i
      \<and> wd_business_id (db_deliveries d ! k) = b \<and> wd_status (db_deliveries d ! k) \<in> {''failed'', ''dead''}")
  case False
  then show ?thesis
    by (auto simp: redeliver_def Let_def table_simps in_set_conv_nth)
next
  case True
  then obtain k where k: "k < length (db_deliveries d)" "wd_id (db_deliveries d ! k) = i"
      "wd_business_id (db_deliveries d ! k) = b" "wd_status (db_deliveries d ! k) \<in> {''failed'', ''dead''}"
    by blast
  then have "rows_affected (\<lambda>w. wd_id w = i \<and> wd_business_id w = b
      \<and> wd_status w \<in> {''failed'', ''dead''}) (db_deliveries d) \<noteq> 0"
    unfolding rows_affected_0 by (metis nth_mem)
  then obtain d' where d': "redeliver now b i d = Inr d'"
    "db_deliveries d' = update_where (\<lambda>w. wd_id w = i \<and> wd_business_id w = b
        \<and> wd_status w \<in> {''failed'', ''dead''})
      (\<lambda>w. w\<lparr>wd_status := ''pending'', wd_attempts := 0, wd_next_attempt_at := now,
            wd_locked_until := None, wd_last_error := None, wd_updated_at := now\<rparr>) (db_deliveries d)"
    by (simp add: redeliver_def)
  show ?thesis
    using k unfolding d'(1) sum.case d'(2) by (auto simp: update_where_def Let_def)
qed

theorem redeliver_correct_witness:
  "\<exists>d'. redeliver 50 1 9 (empty_db\<lparr>db_deliveries :=
       [\<lparr>wd_id = 9, wd_event_id = 2, wd_endpoint_id = 3, wd_business_id = 1, wd_status = ''dead'',
         wd_attempts = 8, wd_next_attempt_at = 0, wd_locked_until = None, wd_last_status_code = None,
         wd_last_error = None, wd_last_attempt_at = None, wd_created_at = 0, wd_updated_at = 0\<rparr>]\<rparr>)
      = Inr d' \<and> wd_status (db_deliveries d' ! 0) = ''pending'' \<and> wd_attempts (db_deliveries d' ! 0) = 0"
proof -
  let ?d = "empty_db\<lparr>db_deliveries :=
       [\<lparr>wd_id = 9, wd_event_id = 2, wd_endpoint_id = 3, wd_business_id = 1, wd_status = ''dead'',
         wd_attempts = 8, wd_next_attempt_at = 0, wd_locked_until = None, wd_last_status_code = None,
         wd_last_error = None, wd_last_attempt_at = None, wd_created_at = 0, wd_updated_at = 0\<rparr>]\<rparr>"
  obtain d' where d': "redeliver 50 1 9 ?d = Inr d'" by (simp add: redeliver_def rows_affected_def)
  with redeliver_correct [where now = 50 and b = 1 and i = 9 and d = ?d] show ?thesis by (simp add: Let_def)
qed

end
