(* ===== verification/Invoice_Service.thy ===== *)
theory Invoice_Service
  imports Webhook_Service
begin

text \<open>
  \<^verbatim>\<open>services/invoice_service.rs\<close>: creation with a server-computed total in one transaction with
  the outbox event, retrieval, listing, and the admin-driven transitions. The ids of one
  request are drawn in call order from \<open>new_ids\<close>: the invoice, its line items, the event.
\<close>

section \<open>Definitions\<close>

definition validate_item :: "nat \<Rightarrow> create_line_item \<Rightarrow> field_error list" where
  "validate_item i li =
     (if trim (cl_description li) = []
      then [new_field_error (''line_items['' @ show_nat i @ ''].description'') ''must not be empty'']
      else [])
     @ (if sint (cl_quantity li) \<le> 0
        then [new_field_error (''line_items['' @ show_nat i @ ''].quantity'') ''must be greater than 0'']
        else [])
     @ (if sint (cl_unit_amount_cents li) < 0
        then [new_field_error (''line_items['' @ show_nat i @ ''].unit_amount_cents'')
                ''must not be negative'']
        else [])"

definition line_item_errors :: "create_invoice_request \<Rightarrow> field_error list" where
  "line_item_errors req =
     (if ci_line_items req = []
      then [new_field_error ''line_items'' ''at least one line item is required''] else [])
     @ concat (map (\<lambda>(i, li). validate_item i li) (enumerate 0 (ci_line_items req)))"

definition validate_line_items :: "create_invoice_request \<Rightarrow> (app_error, unit) result" where
  "validate_line_items req =
     (let errors = line_item_errors req
      in if errors = [] then Inr () else Inl (Validation errors))"

fun insert_items ::
  "(nat \<Rightarrow> uuid) \<Rightarrow> uuid \<Rightarrow> nat \<Rightarrow> create_line_item list \<Rightarrow> db \<Rightarrow> (sqlx_error, db) result" where
  "insert_items new_ids iid pos [] d = Inr d"
| "insert_items new_ids iid pos (li # lis) d =
     res_bind (insert_line_item (new_ids (Suc pos)) iid (cl_description li) (cl_quantity li)
                 (cl_unit_amount_cents li) (as_i32 (int pos)) d)
       (insert_items new_ids iid (Suc pos) lis)"

definition created_payload :: "ext \<Rightarrow> invoice \<Rightarrow> money \<Rightarrow> json" where
  "created_payload E iv tot =
     JObject [(''id'', JString (uuid_to_string E (inv_id iv))),
              (''customer_id'', JString (uuid_to_string E (inv_customer_id iv))),
              (''state'', JString ''draft''),
              (''total_cents'', JNumber (sint (cents tot))),
              (''currency'', JString ''USD'')]"

definition create_tx ::
  "ext \<Rightarrow> timestamp \<Rightarrow> (nat \<Rightarrow> uuid) \<Rightarrow> uuid \<Rightarrow> create_invoice_request \<Rightarrow> db
     \<Rightarrow> (sqlx_error, invoice_response \<times> db) result" where
  "create_tx E now new_ids business_id req d =
     res_bind (insert_invoice now (new_ids 0) business_id (ci_customer_id req) d) (\<lambda>(iv, d1).
     res_bind (insert_items new_ids (inv_id iv) 0 (ci_line_items req) d1) (\<lambda>d2.
     res_bind (sync_total now (inv_id iv) d2) (\<lambda>(tot, d3).
     let items = list_line_items (inv_id iv) d3 in
     res_bind (emit_event now (new_ids (Suc (length (ci_line_items req)))) business_id
                 INVOICE_CREATED (inv_id iv) (created_payload E iv tot) d3) (\<lambda>(_, d4).
     Inr (from_parts (iv\<lparr>inv_total_cents := tot\<rparr>) items, d4)))))"

definition invoice_create ::
  "ext \<Rightarrow> timestamp \<Rightarrow> (nat \<Rightarrow> uuid) \<Rightarrow> uuid \<Rightarrow> create_invoice_request \<Rightarrow> db
     \<Rightarrow> (app_error, invoice_response \<times> db) result" where
  "invoice_create E now new_ids business_id req d =
     res_bind (validate_line_items req) (\<lambda>_.
       if \<not> exists_row (\<lambda>c. cu_id c = ci_customer_id req \<and> cu_business_id c = business_id)
              (db_customers d)
       then Inl (NotFound ''customer not found'')
       else res_map_err from_sqlx (create_tx E now new_ids business_id req d))"

definition invoice_service_get :: "uuid \<Rightarrow> uuid \<Rightarrow> db \<Rightarrow> (app_error, invoice_response) result" where
  "invoice_service_get business_id i d =
     res_bind (ok_or (NotFound ''invoice not found'') (invoice_get business_id i d)) (\<lambda>iv.
       Inr (from_parts iv (list_line_items i d)))"

definition invoice_service_list ::
  "ext \<Rightarrow> uuid \<Rightarrow> invoice_state option \<Rightarrow> i64 option \<Rightarrow> string option \<Rightarrow> db \<Rightarrow> invoice_response page" where
  "invoice_service_list E business_id state limit cursor d =
     list_page E invoice_key (\<lambda>iv. from_parts iv [])
       (\<lambda>c n. invoice_list business_id state n c d) limit cursor"

definition invalid_transition :: "invoice_state \<Rightarrow> invoice_state \<Rightarrow> app_error" where
  "invalid_transition frm to = InvalidStateTransition (as_str frm) (as_str to)"

text \<open>
  The transition reads the invoice and then updates it in a second statement; between the two
  the database may have changed. \<open>check_transition\<close> is the part before the UPDATE and
  \<open>apply_transition\<close> the part from the UPDATE on; \<open>service_transition\<close> is the undisturbed run.
\<close>

definition check_transition ::
  "uuid \<Rightarrow> uuid \<Rightarrow> invoice_state \<Rightarrow> db \<Rightarrow> (app_error, invoice) result" where
  "check_transition business_id i to d =
     res_bind (ok_or (NotFound ''invoice not found'') (invoice_get business_id i d)) (\<lambda>current.
       if inv_state current = to then Inl (invalid_transition (inv_state current) to)
       else if \<not> can_transition_to (inv_state current) to
         then Inl (invalid_transition (inv_state current) to)
       else Inr current)"

definition apply_transition ::
  "timestamp \<Rightarrow> uuid \<Rightarrow> uuid \<Rightarrow> invoice_state \<Rightarrow> invoice_state \<Rightarrow> db
     \<Rightarrow> (app_error, invoice_response \<times> db) result" where
  "apply_transition now business_id i frm to d =
     res_bind (res_map_err from_sqlx (transition now business_id i frm to d)) (\<lambda>(updated, d').
     res_bind (ok_or (invalid_transition frm to) updated) (\<lambda>iv.
       Inr (from_parts iv (list_line_items i d'), d')))"

definition service_transition ::
  "timestamp \<Rightarrow> uuid \<Rightarrow> uuid \<Rightarrow> invoice_state \<Rightarrow> db \<Rightarrow> (app_error, invoice_response \<times> db) result" where
  "service_transition now business_id i to d =
     res_bind (check_transition business_id i to d) (\<lambda>current.
       apply_transition now business_id i (inv_state current) to d)"

definition finalize_invoice ::
  "timestamp \<Rightarrow> uuid \<Rightarrow> uuid \<Rightarrow> db \<Rightarrow> (app_error, invoice_response \<times> db) result" where
  "finalize_invoice now business_id i d = service_transition now business_id i Open d"

definition void_invoice ::
  "timestamp \<Rightarrow> uuid \<Rightarrow> uuid \<Rightarrow> db \<Rightarrow> (app_error, invoice_response \<times> db) result" where
  "void_invoice now business_id i d = service_transition now business_id i Void d"

definition mark_uncollectible ::
  "timestamp \<Rightarrow> uuid \<Rightarrow> uuid \<Rightarrow> db \<Rightarrow> (app_error, invoice_response \<times> db) result" where
  "mark_uncollectible now business_id i d = service_transition now business_id i Uncollectible d"

section \<open>Lemmas: validation\<close>

definition item_ok :: "create_line_item \<Rightarrow> bool" where
  "item_ok li \<longleftrightarrow> trim (cl_description li) \<noteq> [] \<and> 0 < sint (cl_quantity li)
     \<and> 0 \<le> sint (cl_unit_amount_cents li)"

lemma validate_item_Nil: "validate_item i li = [] \<longleftrightarrow> item_ok li"
  by (auto simp: validate_item_def item_ok_def)

lemma validate_line_items_ok:
  "validate_line_items req = Inr () \<longleftrightarrow>
     ci_line_items req \<noteq> [] \<and> (\<forall>li \<in> set (ci_line_items req). item_ok li)"
proof -
  have "concat (map (\<lambda>(i, li). validate_item i li) (enumerate n lis)) = [] \<longleftrightarrow> (\<forall>li \<in> set lis. item_ok li)"
    for n lis by (induction lis arbitrary: n) (auto simp: validate_item_Nil)
  then show ?thesis
    by (auto simp: validate_line_items_def line_item_errors_def Let_def)
qed

section \<open>Lemmas: creation\<close>

definition item_amount :: "create_line_item \<Rightarrow> int" where
  "item_amount li = sint (cl_quantity li) * sint (cl_unit_amount_cents li)"

text \<open>The exact total of a request, as an unbounded integer.\<close>

definition request_total :: "create_invoice_request \<Rightarrow> int" where
  "request_total req = sum_list (map item_amount (ci_line_items req))"

fun item_rows :: "(nat \<Rightarrow> uuid) \<Rightarrow> uuid \<Rightarrow> nat \<Rightarrow> create_line_item list \<Rightarrow> line_item list" where
  "item_rows new_ids iid pos [] = []"
| "item_rows new_ids iid pos (li # lis) =
     \<lparr>li_id = new_ids (Suc pos), li_invoice_id = iid, li_description = cl_description li,
      li_quantity = cl_quantity li, li_unit_amount_cents = from_cents (cl_unit_amount_cents li),
      li_amount_cents = from_cents (word_of_int (item_amount li)), li_position = as_i32 (int pos)\<rparr>
     # item_rows new_ids iid (Suc pos) lis"

text \<open>
  The ids drawn for a request with \<open>n\<close> items are new: pairwise different and not used by a
  row of the tables they go into.
\<close>

definition fresh_ids :: "(nat \<Rightarrow> uuid) \<Rightarrow> nat \<Rightarrow> db \<Rightarrow> bool" where
  "fresh_ids new_ids n d \<longleftrightarrow>
     inj_on new_ids {..Suc n} \<and>
     (\<forall>k \<le> Suc n. (\<forall>iv \<in> set (db_invoices d). inv_id iv \<noteq> new_ids k)
        \<and> (\<forall>li \<in> set (db_line_items d). li_id li \<noteq> new_ids k \<and> li_invoice_id li \<noteq> new_ids k)
        \<and> (\<forall>e \<in> set (db_events d). ev_id e \<noteq> new_ids k))"

lemma item_amount_nonneg: "item_ok li \<Longrightarrow> 0 \<le> item_amount li"
  by (simp add: item_ok_def item_amount_def)

lemma sum_items_nonneg: "\<forall>li \<in> set lis. item_ok li \<Longrightarrow> 0 \<le> sum_list (map item_amount lis)"
  by (rule sum_list_nonneg) (auto intro: item_amount_nonneg)

lemma insert_line_item_Inr:
  "insert_line_item i iid desc q u pos d = Inr d' \<longleftrightarrow>
     0 < sint q \<and> 0 \<le> sint u \<and> sint q * sint u \<le> i64_max \<and> (\<forall>li \<in> set (db_line_items d). li_id li \<noteq> i)
     \<and> d' = d\<lparr>db_line_items := db_line_items d @
                [\<lparr>li_id = i, li_invoice_id = iid, li_description = desc, li_quantity = q,
                  li_unit_amount_cents = from_cents u,
                  li_amount_cents = from_cents (word_of_int (sint q * sint u)), li_position = pos\<rparr>]\<rparr>"
proof -
  have "0 < sint q \<Longrightarrow> 0 \<le> sint u \<Longrightarrow> i64_min \<le> sint q * sint u"
    by (rule order_trans [of _ 0]) (simp_all add: i64_min_def)
  then show ?thesis
    by (auto simp: insert_line_item_def pg_bigint_def fit_i64_def table_simps)
qed

lemma insert_line_item_Inl_range:
  assumes "i64_max < sint q * sint u"
  shows "insert_line_item i iid desc q u pos d = Inl out_of_range"
  using assms by (simp add: insert_line_item_def pg_bigint_def fit_i64_def)

lemma set_item_rows_invoice: "r \<in> set (item_rows f iid pos lis) \<Longrightarrow> li_invoice_id r = iid"
  by (induction lis arbitrary: pos) auto

lemma insert_items_ok:
  assumes "\<forall>li \<in> set lis. 0 < sint (cl_quantity li) \<and> 0 \<le> sint (cl_unit_amount_cents li)
      \<and> item_amount li \<le> i64_max"
    and "inj_on new_ids {Suc pos..pos + length lis}"
    and "\<forall>k \<in> {Suc pos..pos + length lis}. new_ids k \<notin> li_id ` set (db_line_items d)"
  shows "insert_items new_ids iid pos lis d
     = Inr (d\<lparr>db_line_items := db_line_items d @ item_rows new_ids iid pos lis\<rparr>)"
  using assms
proof (induction lis arbitrary: pos d)
  case (Cons li lis)
  let ?row = "hd (item_rows new_ids iid pos (li # lis))"
  let ?d = "d\<lparr>db_line_items := db_line_items d @ [?row]\<rparr>"
  have "new_ids (Suc pos) \<notin> li_id ` set (db_line_items d)" using Cons.prems(3) by simp
  then have "\<forall>r \<in> set (db_line_items d). li_id r \<noteq> new_ids (Suc pos)" by (metis imageI)
  then have first: "insert_line_item (new_ids (Suc pos)) iid (cl_description li) (cl_quantity li)
      (cl_unit_amount_cents li) (as_i32 (int pos)) d = Inr ?d"
    using Cons.prems(1) by (auto simp: insert_line_item_Inr item_amount_def)
  have "new_ids k \<noteq> new_ids (Suc pos)" if "k \<in> {Suc (Suc pos)..Suc pos + length lis}" for k
    using Cons.prems(2) that by (auto dest: inj_onD)
  then have "insert_items new_ids iid (Suc pos) lis ?d
      = Inr (?d\<lparr>db_line_items := db_line_items ?d @ item_rows new_ids iid (Suc pos) lis\<rparr>)"
    using Cons.prems by (intro Cons.IH) (auto simp: inj_on_def)
  then show ?case by (simp add: first)
qed simp

lemma line_sum_append:
  "line_sum iid (d\<lparr>db_line_items := xs @ ys\<rparr>)
     = line_sum iid (d\<lparr>db_line_items := xs\<rparr>) + line_sum iid (d\<lparr>db_line_items := ys\<rparr>)"
  by (simp add: line_sum_def select_where_def)

lemma line_sum_none:
  "\<forall>li \<in> set (db_line_items d). li_invoice_id li \<noteq> iid \<Longrightarrow> line_sum iid d = 0"
  by (simp add: line_sum_def select_where_def filter_False)

lemma sum_item_rows:
  assumes "\<forall>li \<in> set lis. item_ok li \<and> item_amount li \<le> i64_max"
  shows "sum_list (map (\<lambda>r. sint (cents (li_amount_cents r))) (item_rows f iid pos lis))
     = sum_list (map item_amount lis)"
  using assms
proof (induction lis arbitrary: pos)
  case (Cons li lis)
  then have "0 \<le> item_amount li" by (auto intro: item_amount_nonneg)
  then have "i64_min \<le> item_amount li" by (simp add: i64_min_def)
  with Cons show ?case by (simp add: cents_def from_cents_def sint_word_of_int_i64)
qed simp

lemma line_sum_item_rows:
  assumes "\<forall>li \<in> set lis. item_ok li \<and> item_amount li \<le> i64_max"
    and "\<forall>li \<in> set (db_line_items d). li_invoice_id li \<noteq> iid"
  shows "line_sum iid (d\<lparr>db_line_items := db_line_items d @ item_rows f iid pos lis\<rparr>)
     = sum_list (map item_amount lis)"
proof -
  have "select_where (\<lambda>li. li_invoice_id li = iid) (item_rows f iid pos lis) = item_rows f iid pos lis"
    by (auto simp: select_where_def set_item_rows_invoice intro: filter_True)
  then have "line_sum iid (d\<lparr>db_line_items := item_rows f iid pos lis\<rparr>) = sum_list (map item_amount lis)"
    by (simp add: line_sum_def sum_item_rows [OF assms(1)])
  moreover have "line_sum iid (d\<lparr>db_line_items := db_line_items d\<rparr>) = 0"
    using assms(2) by (intro line_sum_none) simp
  ultimately show ?thesis by (simp only: line_sum_append)
qed

lemma item_rows_sorted:
  assumes "pos + length lis \<le> 2 ^ 31"
  shows "sorted (map (\<lambda>li. (li_position li, li_id li)) (item_rows f iid pos lis))
     \<and> (\<forall>r \<in> set (item_rows f iid pos lis). int pos \<le> li_position r)"
  using assms
proof (induction lis arbitrary: pos)
  case (Cons li lis)
  then have IH: "sorted (map (\<lambda>li. (li_position li, li_id li)) (item_rows f iid (Suc pos) lis))"
    and lower: "\<forall>r \<in> set (item_rows f iid (Suc pos) lis). int (Suc pos) \<le> li_position r"
    using Cons.IH [of "Suc pos"] by auto
  have "as_i32 (int pos) = int pos" using Cons.prems by (intro as_i32_small) auto
  moreover have "int pos < li_position r" if "r \<in> set (item_rows f iid (Suc pos) lis)" for r
    using lower that by fastforce
  ultimately show ?case using IH by (auto intro: less_imp_le)
qed simp

lemma list_line_items_rows:
  assumes "length lis \<le> 2 ^ 31" and "\<forall>li \<in> set (db_line_items d). li_invoice_id li \<noteq> iid"
  shows "list_line_items iid (d\<lparr>db_line_items := db_line_items d @ item_rows f iid 0 lis\<rparr>)
     = item_rows f iid 0 lis"
proof -
  have "select_where (\<lambda>li. li_invoice_id li = iid) (db_line_items d @ item_rows f iid 0 lis)
      = item_rows f iid 0 lis"
    using assms(2) by (auto simp: select_where_def set_item_rows_invoice filter_False intro: filter_True)
  then show ?thesis
    using item_rows_sorted [of 0 lis f iid] assms(1) by (simp add: list_line_items_def sort_key_id_if_sorted)
qed

lemma insert_items_overflow:
  assumes "\<forall>li \<in> set lis. item_ok li" and "\<exists>li \<in> set lis. i64_max < item_amount li"
    and "inj_on new_ids {Suc pos..pos + length lis}"
    and "\<forall>k \<in> {Suc pos..pos + length lis}. new_ids k \<notin> li_id ` set (db_line_items d)"
  shows "insert_items new_ids iid pos lis d = Inl out_of_range"
  using assms
proof (induction lis arbitrary: pos d)
  case (Cons li lis)
  show ?case
  proof (cases "i64_max < item_amount li")
    case True
    then show ?thesis by (simp add: insert_line_item_Inl_range item_amount_def)
  next
    case False
    have ok: "0 < sint (cl_quantity li)" "0 \<le> sint (cl_unit_amount_cents li)" "item_amount li \<le> i64_max"
      using False Cons.prems(1) by (auto simp: item_ok_def)
    have single: "insert_items new_ids iid pos [li] d
        = Inr (d\<lparr>db_line_items := db_line_items d @ item_rows new_ids iid pos [li]\<rparr>)"
      by (rule insert_items_ok) (use ok Cons.prems(4) in auto)
    let ?d = "d\<lparr>db_line_items := db_line_items d @ item_rows new_ids iid pos [li]\<rparr>"
    have "new_ids k \<noteq> new_ids (Suc pos)" if "k \<in> {Suc (Suc pos)..Suc pos + length lis}" for k
      using Cons.prems(3) that by (auto dest: inj_onD)
    then have "insert_items new_ids iid (Suc pos) lis ?d = Inl out_of_range"
      using Cons.prems False by (intro Cons.IH) (auto simp: inj_on_def)
    with single show ?thesis by (auto simp: result_simps)
  qed
qed simp

definition created_row :: "timestamp \<Rightarrow> uuid \<Rightarrow> uuid \<Rightarrow> uuid \<Rightarrow> money \<Rightarrow> invoice" where
  "created_row now i b c tot =
     \<lparr>inv_id = i, inv_business_id = b, inv_customer_id = c, inv_state = Draft, inv_currency = ''USD'',
      inv_total_cents = tot, inv_finalized_at = None, inv_paid_at = None, inv_voided_at = None,
      inv_version = 0, inv_created_at = now, inv_updated_at = now\<rparr>"

lemma insert_invoice_Inr:
  "insert_invoice now i b c d = Inr (iv, d') \<longleftrightarrow>
     (\<forall>r \<in> set (db_invoices d). inv_id r \<noteq> i) \<and> iv = created_row now i b c (from_cents 0)
     \<and> d' = d\<lparr>db_invoices := db_invoices d @ [iv]\<rparr>"
  by (auto simp: insert_invoice_def created_row_def table_simps Let_def)

lemma insert_items_frame:
  "insert_items f iid pos lis d = Inr d' \<Longrightarrow> \<exists>xs. d' = d\<lparr>db_line_items := db_line_items d @ xs\<rparr>
      \<and> (\<forall>x \<in> set xs. li_invoice_id x = iid)"
proof (induction lis arbitrary: pos d)
  case Nil
  then show ?case by (intro exI [of _ "[]"]) simp
next
  case (Cons li lis)
  then obtain x where "insert_items f iid (Suc pos) lis (d\<lparr>db_line_items := db_line_items d @ [x]\<rparr>) = Inr d'"
    and x: "li_invoice_id x = iid" by (auto simp: result_simps insert_line_item_Inr)
  from Cons.IH [OF this(1)] obtain xs where "d' = d\<lparr>db_line_items := db_line_items d @ x # xs\<rparr>"
    "\<forall>y \<in> set xs. li_invoice_id y = iid" by auto
  with x show ?case by (intro exI [of _ "x # xs"]) simp
qed

lemma sync_total_Inr:
  "sync_total now i d = Inr (m, d') \<longleftrightarrow>
     (\<exists>r \<in> set (db_invoices d). inv_id r = i) \<and> 0 \<le> line_sum i d \<and> sint (cents m) = line_sum i d
     \<and> d' = d\<lparr>db_invoices := update_where (\<lambda>iv. inv_id iv = i)
               (\<lambda>iv. iv\<lparr>inv_total_cents := m, inv_updated_at := now\<rparr>) (db_invoices d)\<rparr>"
  by (cases m) (force simp: sync_total_def table_simps result_simps pg_bigint_Inr from_cents_def cents_def
      split: if_splits)

lemma sync_total_created:
  assumes "\<forall>r \<in> set (db_invoices d). inv_id r \<noteq> i" and "0 \<le> line_sum i d" and "sint (cents m) = line_sum i d"
  shows "sync_total now i (d\<lparr>db_invoices := db_invoices d @ [created_row now i b c z]\<rparr>)
     = Inr (m, d\<lparr>db_invoices := db_invoices d @ [created_row now i b c m]\<rparr>)"
proof -
  have "update_where (\<lambda>iv. inv_id iv = i) (\<lambda>iv. iv\<lparr>inv_total_cents := m, inv_updated_at := now\<rparr>)
      (db_invoices d @ [created_row now i b c z]) = db_invoices d @ [created_row now i b c m]"
    using assms(1) by (auto simp: update_where_def created_row_def intro: map_idI)
  then show ?thesis
    using assms(2,3) by (auto simp: sync_total_Inr line_sum_def created_row_def)
qed

text \<open>The effect of a creation on the tables, whatever the request was.\<close>

lemma create_tx_frame:
  assumes "create_tx E now new_ids b req d = Inr (r, d')"
  shows "\<exists>m xs e. d' = d\<lparr>db_invoices := db_invoices d @ [created_row now (new_ids 0) b (ci_customer_id req) m],
        db_line_items := db_line_items d @ xs, db_events := db_events d @ [e],
        db_event_seq := db_event_seq d + 1\<rparr>
      \<and> (\<forall>iv \<in> set (db_invoices d). inv_id iv \<noteq> new_ids 0)
      \<and> (\<forall>x \<in> set xs. li_invoice_id x = new_ids 0)
      \<and> (\<forall>e' \<in> set (db_events d). ev_id e' \<noteq> ev_id e)
      \<and> ev_event_type e = INVOICE_CREATED \<and> ev_aggregate_id e = new_ids 0 \<and> ev_business_id e = b
      \<and> ev_sequence e = db_event_seq d
      \<and> sint (cents m) = line_sum (new_ids 0) d' \<and> 0 \<le> sint (cents m)"
proof -
  let ?iv = "created_row now (new_ids 0) b (ci_customer_id req) (from_cents 0)"
  from assms obtain d1 d2 d3 m j
    where 1: "insert_invoice now (new_ids 0) b (ci_customer_id req) d = Inr (?iv, d1)"
      and 2: "insert_items new_ids (new_ids 0) 0 (ci_line_items req) d1 = Inr d2"
      and 3: "sync_total now (new_ids 0) d2 = Inr (m, d3)"
      and 4: "emit_event now (new_ids (Suc (length (ci_line_items req)))) b INVOICE_CREATED (new_ids 0)
                (created_payload E ?iv m) d3 = Inr (j, d')"
    by (auto simp: create_tx_def result_simps insert_invoice_Inr Let_def created_row_def)
  from 1 have fresh: "\<forall>iv \<in> set (db_invoices d). inv_id iv \<noteq> new_ids 0"
    and d1: "d1 = d\<lparr>db_invoices := db_invoices d @ [?iv]\<rparr>" by (simp_all add: insert_invoice_Inr)
  from insert_items_frame [OF 2] d1 obtain xs
    where xs: "d2 = d\<lparr>db_invoices := db_invoices d @ [?iv], db_line_items := db_line_items d @ xs\<rparr>"
      "\<forall>x \<in> set xs. li_invoice_id x = new_ids 0" by auto
  have m: "sint (cents m) = line_sum (new_ids 0) d2" "0 \<le> sint (cents m)"
    using 3 by (simp_all add: sync_total_Inr)
  let ?d = "d\<lparr>db_line_items := db_line_items d @ xs\<rparr>"
  have "line_sum (new_ids 0) d2 = line_sum (new_ids 0) ?d" by (simp add: xs(1) line_sum_def)
  with m sync_total_created [of ?d "new_ids 0" m now b "ci_customer_id req" "from_cents 0"] fresh 3
  have d3: "d3 = ?d\<lparr>db_invoices := db_invoices d @ [created_row now (new_ids 0) b (ci_customer_id req) m]\<rparr>"
    by (simp add: xs(1))
  have "line_sum (new_ids 0) d' = line_sum (new_ids 0) d2"
    using 4 d3 xs(1) by (simp add: emit_event_Inr line_sum_def)
  with 4 d3 m fresh xs(2) show ?thesis
    by (intro exI [of _ m] exI [of _ xs] exI [of _ "last (db_events d')"]) (simp add: emit_event_Inr)
qed

lemma invoice_create_Inr:
  "invoice_create E now new_ids b req d = Inr x \<longleftrightarrow>
     validate_line_items req = Inr ()
     \<and> (\<exists>c \<in> set (db_customers d). cu_id c = ci_customer_id req \<and> cu_business_id c = b)
     \<and> create_tx E now new_ids b req d = Inr x"
  by (auto simp: invoice_create_def result_simps table_simps split: if_splits)

lemma fresh_ids_items:
  assumes "fresh_ids new_ids n d"
  shows "inj_on new_ids {Suc 0..0 + n}"
    and "\<forall>k \<in> {Suc 0..0 + n}. new_ids k \<notin> li_id ` set (db_line_items d)"
proof -
  show "inj_on new_ids {Suc 0..0 + n}" using assms by (auto simp: fresh_ids_def intro: inj_on_subset)
  show "\<forall>k \<in> {Suc 0..0 + n}. new_ids k \<notin> li_id ` set (db_line_items d)"
  proof (intro ballI notI)
    fix k assume "k \<in> {Suc 0..0 + n}" and mem: "new_ids k \<in> li_id ` set (db_line_items d)"
    then have "k \<le> Suc n" by simp
    with assms have "\<forall>li \<in> set (db_line_items d). li_id li \<noteq> new_ids k" by (simp add: fresh_ids_def)
    with mem show False by auto
  qed
qed

lemma create_tx_ok:
  assumes "\<forall>li \<in> set (ci_line_items req). item_ok li" and "fresh_ids new_ids (length (ci_line_items req)) d"
    and "length (ci_line_items req) \<le> 2 ^ 31" and "request_total req \<le> i64_max"
    and "m = from_cents (word_of_int (request_total req))"
    and "iv = created_row now (new_ids 0) b (ci_customer_id req) m"
    and "rows = item_rows new_ids (new_ids 0) 0 (ci_line_items req)"
  shows "create_tx E now new_ids b req d
     = Inr (from_parts iv rows,
            d\<lparr>db_invoices := db_invoices d @ [iv], db_line_items := db_line_items d @ rows,
              db_events := db_events d @
                [emitted_event now (new_ids (Suc (length (ci_line_items req)))) b INVOICE_CREATED
                   (new_ids 0) (created_payload E iv m) d],
              db_event_seq := db_event_seq d + 1\<rparr>)"
proof -
  let ?lis = "ci_line_items req" and ?i = "new_ids 0"
  let ?iv0 = "created_row now ?i b (ci_customer_id req) (from_cents 0)"
  let ?d1 = "d\<lparr>db_invoices := db_invoices d @ [?iv0]\<rparr>"
  have fresh: "\<forall>iv \<in> set (db_invoices d). inv_id iv \<noteq> new_ids k"
    "\<forall>li \<in> set (db_line_items d). li_id li \<noteq> new_ids k"
    "\<forall>li \<in> set (db_line_items d). li_invoice_id li \<noteq> new_ids k"
    "\<forall>e \<in> set (db_events d). ev_id e \<noteq> new_ids k"
    if "k \<le> Suc (length ?lis)" for k using assms(2) that by (auto simp: fresh_ids_def)
  have amounts: "item_amount li \<le> i64_max" if "li \<in> set ?lis" for li
  proof -
    have "item_amount li \<le> sum_list (map item_amount ?lis)"
      using that assms(1) by (intro member_le_sum_list) (auto intro: item_amount_nonneg)
    with assms(4) show ?thesis by (simp add: request_total_def)
  qed
  have nonneg: "0 \<le> request_total req" using assms(1) by (simp add: request_total_def sum_items_nonneg)
  have 1: "insert_invoice now ?i b (ci_customer_id req) d = Inr (?iv0, ?d1)"
    using fresh(1) [of 0] by (auto simp: insert_invoice_Inr)
  have inj: "inj_on new_ids {Suc 0..0 + length ?lis}"
    and li_fresh: "\<forall>k \<in> {Suc 0..0 + length ?lis}. new_ids k \<notin> li_id ` set (db_line_items ?d1)"
    using fresh_ids_items [OF assms(2)] by simp_all
  have pos: "\<forall>li \<in> set ?lis. 0 < sint (cl_quantity li) \<and> 0 \<le> sint (cl_unit_amount_cents li)
      \<and> item_amount li \<le> i64_max" using assms(1) amounts by (auto simp: item_ok_def)
  have 2: "insert_items new_ids ?i 0 ?lis ?d1 = Inr (?d1\<lparr>db_line_items := db_line_items ?d1 @ rows\<rparr>)"
    unfolding assms(7) by (rule insert_items_ok [OF pos inj li_fresh])
  let ?d2 = "d\<lparr>db_line_items := db_line_items d @ rows\<rparr>"
  have other: "\<forall>li \<in> set (db_line_items d). li_invoice_id li \<noteq> ?i" using fresh(3) [of 0] by auto
  have sum: "line_sum ?i ?d2 = request_total req"
    using assms(1) amounts line_sum_item_rows [OF _ other, of ?lis new_ids 0]
    by (auto simp: request_total_def assms(7))
  have m: "sint (cents m) = request_total req"
    using nonneg assms(4) by (simp add: assms(5) cents_def from_cents_def sint_word_of_int_i64 i64_min_def)
  have 3: "sync_total now ?i (?d2\<lparr>db_invoices := db_invoices ?d2 @ [?iv0]\<rparr>)
      = Inr (m, ?d2\<lparr>db_invoices := db_invoices ?d2 @ [iv]\<rparr>)"
    unfolding assms(6) using fresh(1) [of 0] nonneg m sum by (intro sync_total_created) auto
  have 4: "list_line_items ?i (d\<lparr>db_invoices := x, db_line_items := db_line_items d @ rows\<rparr>) = rows" for x
    using list_line_items_rows [OF assms(3) other, of new_ids]
    by (simp add: list_line_items_def assms(7))
  have 5: "\<forall>e \<in> set (db_events d). ev_id e \<noteq> new_ids (Suc (length ?lis))"
    using fresh(4) [of "Suc (length ?lis)"] by auto
  have payload: "created_payload E ?iv0 m = created_payload E iv m"
    by (simp add: assms(6) created_payload_def created_row_def)
  have "inv_id ?iv0 = ?i" "?iv0\<lparr>inv_total_cents := m\<rparr> = iv" by (simp_all add: assms(6) created_row_def)
  then show ?thesis
    using 1 2 3 5 by (simp add: create_tx_def 4 payload emit_event_def emitted_event_def table_simps)
qed


lemma find_append_last: "\<forall>r \<in> set t. \<not> P r \<Longrightarrow> P x \<Longrightarrow> find P (t @ [x]) = Some x"
  by (induction t) auto

lemma item_rows_view:
  assumes "\<forall>li \<in> set lis. item_ok li \<and> item_amount li \<le> i64_max"
  shows "map (\<lambda>l. (lr_description l, lr_quantity l, lr_unit_amount_cents l, sint (lr_amount_cents l)))
       (map line_item_into (item_rows f iid pos lis))
     = map (\<lambda>li. (cl_description li, cl_quantity li, cl_unit_amount_cents li, item_amount li)) lis"
  using assms
proof (induction lis arbitrary: pos)
  case (Cons li lis)
  then have "0 \<le> item_amount li" by (auto intro: item_amount_nonneg)
  then have "i64_min \<le> item_amount li" by (simp add: i64_min_def)
  with Cons show ?case
    by (simp add: line_item_into_def cents_def from_cents_def sint_word_of_int_i64)
qed simp

lemma item_amount_le_total:
  assumes "\<forall>li \<in> set (ci_line_items req). item_ok li" and "li \<in> set (ci_line_items req)"
  shows "item_amount li \<le> request_total req"
  unfolding request_total_def
  using assms by (intro member_le_sum_list) (auto intro: item_amount_nonneg)

lemma create_tx_overflow:
  assumes ok: "\<forall>li \<in> set (ci_line_items req). item_ok li"
    and fresh: "fresh_ids new_ids (length (ci_line_items req)) d"
    and big: "i64_max < request_total req"
  shows "create_tx E now new_ids b req d = Inl out_of_range"
proof -
  let ?lis = "ci_line_items req" and ?i = "new_ids 0"
  let ?iv0 = "created_row now ?i b (ci_customer_id req) (from_cents 0)"
  let ?d1 = "d\<lparr>db_invoices := db_invoices d @ [?iv0]\<rparr>"
  have 1: "insert_invoice now ?i b (ci_customer_id req) d = Inr (?iv0, ?d1)"
    using fresh by (auto simp: insert_invoice_Inr fresh_ids_def)
  have idi: "inv_id ?iv0 = ?i" by (simp add: created_row_def)
  have inj: "inj_on new_ids {Suc 0..0 + length ?lis}"
    and li_fresh: "\<forall>k \<in> {Suc 0..0 + length ?lis}. new_ids k \<notin> li_id ` set (db_line_items ?d1)"
    using fresh_ids_items [OF fresh] by simp_all
  have other: "\<forall>li \<in> set (db_line_items ?d1). li_invoice_id li \<noteq> ?i"
    using fresh by (auto simp: fresh_ids_def)
  show ?thesis
  proof (cases "\<exists>li \<in> set ?lis. i64_max < item_amount li")
    case True
    with 1 insert_items_overflow [OF ok True inj li_fresh, of ?i] idi show ?thesis
      by (simp add: create_tx_def)
  next
    case False
    then have small: "\<forall>li \<in> set ?lis. item_ok li \<and> item_amount li \<le> i64_max" using ok by force
    then have "insert_items new_ids ?i 0 ?lis ?d1
        = Inr (?d1\<lparr>db_line_items := db_line_items ?d1 @ item_rows new_ids ?i 0 ?lis\<rparr>)" (is "_ = Inr ?d2")
      by (intro insert_items_ok [OF _ inj li_fresh]) (auto simp: item_ok_def)
    moreover have "line_sum ?i ?d2 = request_total req"
      using line_sum_item_rows [OF small other] by (simp add: request_total_def)
    then have "pg_bigint (line_sum ?i ?d2) = Inl out_of_range"
      using big by (simp add: pg_bigint_Inl)
    moreover have "exists_row (\<lambda>iv. inv_id iv = ?i) (db_invoices ?d2)" by (simp add: table_simps idi)
    ultimately show ?thesis using 1 idi by (simp add: create_tx_def sync_total_def)
  qed
qed

text \<open>A status-conditional update of an invoice that is in the expected state.\<close>

lemma transition_at:
  assumes "distinct (map inv_id (db_invoices d))" and "k < length (db_invoices d)"
    and "iv = db_invoices d ! k" and "inv_id iv = i" and "inv_business_id iv = b" and "inv_state iv = frm"
    and "transition_row now to iv = Inr iv'"
  shows "transition now b i frm to d = Inr (Some iv', d\<lparr>db_invoices := (db_invoices d)[k := iv']\<rparr>)"
proof -
  let ?P = "\<lambda>r. inv_id r = i \<and> inv_business_id r = b \<and> inv_state r = frm"
  have uniq: "j = k" if "j < length (db_invoices d)" "inv_id (db_invoices d ! j) = i" for j
    using assms(1-4) that by (auto simp: distinct_conv_nth)
  have "fetch_optional ?P (db_invoices d) = Some iv"
  proof (rule fetch_optional_unique)
    show "r = iv" if "r \<in> set (db_invoices d)" "?P r" for r
      using that uniq assms(3) by (metis in_set_conv_nth)
  qed (use assms(2-6) in simp_all)
  moreover have "try_update_where ?P (transition_row now to) (db_invoices d) = Inr ((db_invoices d)[k := iv'])"
    unfolding try_update_where_Inr list_all2_conv_all_nth
  proof (intro conjI allI impI)
    fix j assume j: "j < length (db_invoices d)"
    show "if ?P (db_invoices d ! j) then transition_row now to (db_invoices d ! j) = Inr ((db_invoices d)[k := iv'] ! j)
        else (db_invoices d)[k := iv'] ! j = db_invoices d ! j"
      using uniq [OF j] assms(2-7) by (cases "j = k") auto
  qed simp
  ultimately show ?thesis using assms(7) by (simp add: transition_def)
qed

lemma transition_row_total:
  "0 \<le> inv_version iv \<Longrightarrow> inv_version iv < 2 ^ 31 - 1 \<Longrightarrow> \<exists>iv'. transition_row now to iv = Inr iv'"
  by (simp add: transition_row_def pg_int4_def)

section \<open>Properties\<close>

text \<open>
  C23: creating an invoice. A valid request (at least one item, every item with a description, a
  positive quantity and a non-negative unit price) for a customer of the caller's business,
  whose exact total fits the bigint column, always succeeds: the invoice is a draft, its total
  is the exact sum of quantity times unit price, its line items come back in request order with
  exact amounts, reading it back gives the same response, and one invoice.created event with
  that total is appended to the outbox.
\<close>

theorem invoice_create_ok:
  assumes "ci_line_items req \<noteq> []" and "\<forall>li \<in> set (ci_line_items req). item_ok li"
    and "\<exists>c \<in> set (db_customers d). cu_id c = ci_customer_id req \<and> cu_business_id c = b"
    and "fresh_ids new_ids (length (ci_line_items req)) d"
    and "length (ci_line_items req) \<le> 2 ^ 31" and "request_total req \<le> i64_max"
  shows "\<exists>r d' e. invoice_create E now new_ids b req d = Inr (r, d')
     \<and> ir_id r = new_ids 0 \<and> ir_customer_id r = ci_customer_id req \<and> ir_state r = Draft
     \<and> sint (ir_total_cents r) = request_total req
     \<and> map (\<lambda>l. (lr_description l, lr_quantity l, lr_unit_amount_cents l, sint (lr_amount_cents l)))
          (ir_line_items r)
       = map (\<lambda>li. (cl_description li, cl_quantity li, cl_unit_amount_cents li, item_amount li))
          (ci_line_items req)
     \<and> invoice_service_get b (new_ids 0) d' = Inr r
     \<and> db_events d' = db_events d @ [e] \<and> ev_event_type e = INVOICE_CREATED \<and> ev_business_id e = b
     \<and> ev_aggregate_id e = new_ids 0
     \<and> json_field ''total_cents'' (ev_payload e) = Some (JNumber (request_total req))"
proof -
  let ?lis = "ci_line_items req"
  define m where "m = from_cents (word_of_int (request_total req) :: i64)"
  define iv where "iv = created_row now (new_ids 0) b (ci_customer_id req) m"
  define rows where "rows = item_rows new_ids (new_ids 0) 0 ?lis"
  define e where "e = emitted_event now (new_ids (Suc (length ?lis))) b INVOICE_CREATED
                   (new_ids 0) (created_payload E iv m) d"
  define d' where "d' = d\<lparr>db_invoices := db_invoices d @ [iv], db_line_items := db_line_items d @ rows,
              db_events := db_events d @ [e], db_event_seq := db_event_seq d + 1\<rparr>"
  have run: "invoice_create E now new_ids b req d = Inr (from_parts iv rows, d')"
    using create_tx_ok [OF assms(2,4,5,6) m_def iv_def rows_def] assms(1-3)
    by (simp add: invoice_create_Inr validate_line_items_ok d'_def e_def)
  have small: "\<forall>li \<in> set ?lis. item_ok li \<and> item_amount li \<le> i64_max"
    using item_amount_le_total assms(2,6) by fastforce
  have "0 \<le> request_total req" using assms(2) by (simp add: request_total_def sum_items_nonneg)
  then have m: "sint (cents m) = request_total req"
    using assms(6) by (simp add: m_def cents_def from_cents_def sint_word_of_int_i64 i64_min_def)
  have other: "\<forall>li \<in> set (db_line_items d). li_invoice_id li \<noteq> new_ids 0"
    and new: "\<forall>iv \<in> set (db_invoices d). inv_id iv \<noteq> new_ids 0"
    using assms(4) by (auto simp: fresh_ids_def)
  have "list_line_items (new_ids 0) d' = rows"
    using list_line_items_rows [OF assms(5) other, of new_ids]
    by (simp add: list_line_items_def d'_def rows_def)
  moreover have "invoice_get b (new_ids 0) d' = Some iv"
    using new by (simp add: invoice_get_def fetch_optional_def d'_def find_append_last iv_def created_row_def)
  ultimately have "invoice_service_get b (new_ids 0) d' = Inr (from_parts iv rows)"
    by (simp add: invoice_service_get_def)
  moreover have "map (\<lambda>l. (lr_description l, lr_quantity l, lr_unit_amount_cents l, sint (lr_amount_cents l)))
          (ir_line_items (from_parts iv rows))
       = map (\<lambda>li. (cl_description li, cl_quantity li, cl_unit_amount_cents li, item_amount li)) ?lis"
    using item_rows_view [OF small, of new_ids "new_ids 0" 0] by (simp add: from_parts_def rows_def)
  ultimately show ?thesis
    using run m
    by (intro exI [of _ "from_parts iv rows"] exI [of _ d'] exI [of _ e])
      (simp add: d'_def e_def emitted_event_def from_parts_def iv_def created_row_def created_payload_def)
qed

text \<open>A business with one customer, a request for one item, and ids that count up.\<close>

definition sample_shop :: db where
  "sample_shop = empty_db\<lparr>db_customers :=
     [\<lparr>cu_id = 5, cu_business_id = 1, cu_email = None, cu_name = Some ''Ada'', cu_created_at = 0, cu_updated_at = 0\<rparr>]\<rparr>"

definition sample_request :: "i64 \<Rightarrow> i64 \<Rightarrow> create_invoice_request" where
  "sample_request q u = \<lparr>ci_customer_id = 5,
     ci_line_items = [\<lparr>cl_description = ''seat'', cl_quantity = q, cl_unit_amount_cents = u\<rparr>]\<rparr>"

lemma sample_fresh: "fresh_ids (\<lambda>k. if k = 0 then 10 else if k = 1 then 11 else 12) 1 sample_shop"
proof -
  have "{..Suc 1} = {0, 1, 2 :: nat}" by auto
  then show ?thesis by (auto simp: fresh_ids_def sample_shop_def empty_db_def inj_on_def)
qed

lemma sample_item_ok:
  "0 < sint q \<Longrightarrow> 0 \<le> sint u \<Longrightarrow> \<forall>li \<in> set (ci_line_items (sample_request q u)). item_ok li"
  by (simp add: sample_request_def item_ok_def) code_simp

theorem invoice_create_ok_witness:
  "\<exists>r d'. invoice_create sample_ext 100 (\<lambda>k. if k = 0 then 10 else if k = 1 then 11 else 12) 1
            (sample_request 3 250) sample_shop = Inr (r, d')
     \<and> sint (ir_total_cents r) = 750 \<and> invoice_service_get 1 10 d' = Inr r"
proof -
  have "length (ci_line_items (sample_request 3 250)) = 1" "ci_line_items (sample_request 3 250) \<noteq> []"
    "request_total (sample_request 3 250) = 750"
    by (simp_all add: sample_request_def request_total_def item_amount_def)
  moreover have "\<exists>c \<in> set (db_customers sample_shop).
      cu_id c = ci_customer_id (sample_request 3 250) \<and> cu_business_id c = 1"
    by (simp add: sample_shop_def sample_request_def)
  moreover have "\<forall>li \<in> set (ci_line_items (sample_request 3 250)). item_ok li"
    by (rule sample_item_ok) simp_all
  moreover have "(750 :: int) \<le> i64_max" by (simp add: i64_max_def)
  ultimately show ?thesis
    using invoice_create_ok [where req = "sample_request 3 250" and d = sample_shop and b = 1 and E = sample_ext
        and now = 100 and new_ids = "\<lambda>k. if k = 0 then 10 else if k = 1 then 11 else 12"] sample_fresh
    by auto
qed

text \<open>
  C24: a total that does not fit. A valid request whose exact total exceeds the bigint range is
  always refused and never stored with a wrapped or truncated total; the refusal is the
  database's range error, answered as 500 internal_error.
\<close>

theorem invoice_create_overflow:
  assumes "ci_line_items req \<noteq> []" and "\<forall>li \<in> set (ci_line_items req). item_ok li"
    and "\<exists>c \<in> set (db_customers d). cu_id c = ci_customer_id req \<and> cu_business_id c = b"
    and "fresh_ids new_ids (length (ci_line_items req)) d"
    and "i64_max < request_total req"
  shows "invoice_create E now new_ids b req d = Inl (Internal (SqlxCause out_of_range))
    \<and> he_status (into_response (Internal (SqlxCause out_of_range))) = 500"
proof -
  have "validate_line_items req = Inr ()" using assms(1,2) by (simp add: validate_line_items_ok)
  with assms(3) create_tx_overflow [OF assms(2,4,5), of E now b]
  show ?thesis by (auto simp: invoice_create_def table_simps out_of_range_def he_status_into_response)
qed

theorem invoice_create_overflow_witness:
  "invoice_create sample_ext 100 (\<lambda>k. if k = 0 then 10 else if k = 1 then 11 else 12) 1
     (sample_request 2 9223372036854775807) sample_shop = Inl (Internal (SqlxCause out_of_range))"
proof -
  let ?req = "sample_request 2 9223372036854775807"
  have max: "sint (9223372036854775807 :: i64) = 9223372036854775807" by simp
  have "length (ci_line_items ?req) = 1" "ci_line_items ?req \<noteq> []"
    by (simp_all add: sample_request_def)
  moreover have "i64_max < request_total ?req"
    by (simp add: sample_request_def request_total_def item_amount_def i64_max_def)
  moreover have "\<exists>c \<in> set (db_customers sample_shop). cu_id c = ci_customer_id ?req \<and> cu_business_id c = 1"
    by (simp add: sample_shop_def sample_request_def)
  moreover have "\<forall>li \<in> set (ci_line_items ?req). item_ok li"
    by (rule sample_item_ok) (simp_all add: max)
  ultimately show ?thesis
    using invoice_create_overflow [where req = ?req and d = sample_shop and b = 1 and E = sample_ext
        and now = 100 and new_ids = "\<lambda>k. if k = 0 then 10 else if k = 1 then 11 else 12"] sample_fresh
    by auto
qed

text \<open>
  C25: the admin transitions (finalize, void, mark uncollectible). The outcome is exactly one of:
  not found, when the business has no such invoice; invalid transition naming both states, when
  the state machine has no such edge; or success, when it has, and then that one invoice moves
  to the requested state with its version increased, its total, owner and payment time kept,
  and nothing else in the database changes.
\<close>

theorem service_transition_spec:
  assumes "distinct (map inv_id (db_invoices d))"
    and "\<forall>iv \<in> set (db_invoices d). 0 \<le> inv_version iv \<and> inv_version iv < 2 ^ 31 - 1"
  shows "case service_transition now b i to d of
     Inl e \<Rightarrow> (e = NotFound ''invoice not found''
                \<and> (\<forall>iv \<in> set (db_invoices d). \<not> (inv_id iv = i \<and> inv_business_id iv = b)))
           \<or> (\<exists>iv \<in> set (db_invoices d). inv_id iv = i \<and> inv_business_id iv = b
                \<and> \<not> can_transition_to (inv_state iv) to
                \<and> e = InvalidStateTransition (as_str (inv_state iv)) (as_str to))
   | Inr (r, d') \<Rightarrow> \<exists>k iv iv'. k < length (db_invoices d) \<and> iv = db_invoices d ! k
        \<and> inv_id iv = i \<and> inv_business_id iv = b \<and> can_transition_to (inv_state iv) to
        \<and> d' = d\<lparr>db_invoices := (db_invoices d)[k := iv']\<rparr>
        \<and> inv_state iv' = to \<and> inv_version iv' = inv_version iv + 1
        \<and> inv_id iv' = i \<and> inv_business_id iv' = b \<and> inv_total_cents iv' = inv_total_cents iv
        \<and> inv_customer_id iv' = inv_customer_id iv \<and> inv_paid_at iv' = inv_paid_at iv
        \<and> r = from_parts iv' (list_line_items i d)"
proof (cases "invoice_get b i d")
  case None
  then show ?thesis
    by (simp add: service_transition_def check_transition_def) (simp add: invoice_get_def fetch_optional_None)
next
  case (Some iv)
  then have iv: "iv \<in> set (db_invoices d)" "inv_id iv = i" "inv_business_id iv = b"
    by (auto simp: invoice_get_def dest: fetch_optional_SomeD)
  show ?thesis
  proof (cases "can_transition_to (inv_state iv) to")
    case False
    then have "service_transition now b i to d = Inl (invalid_transition (inv_state iv) to)"
      using Some by (simp add: service_transition_def check_transition_def)
    then show ?thesis using iv False by (auto simp: invalid_transition_def)
  next
    case True
    obtain iv' where row: "transition_row now to iv = Inr iv'"
      using transition_row_total assms(2) iv(1) by blast
    obtain k where k: "k < length (db_invoices d)" "iv = db_invoices d ! k"
      using iv(1) by (auto simp: in_set_conv_nth)
    have "inv_state iv \<noteq> to" using True can_transition_irrefl by metis
    then have "service_transition now b i to d
        = Inr (from_parts iv' (list_line_items i d), d\<lparr>db_invoices := (db_invoices d)[k := iv']\<rparr>)"
      using Some True transition_at [OF assms(1) k iv(2,3) refl row]
      by (simp add: service_transition_def check_transition_def apply_transition_def list_line_items_def)
    then show ?thesis
      using k iv True transition_row_Inr [OF row] by (auto intro!: exI [of _ k])
  qed
qed

theorem service_transition_spec_witness:
  "\<exists>r d'. finalize_invoice 9 1 3 (empty_db\<lparr>db_invoices := [created_row 0 3 1 5 (from_cents 750)]\<rparr>) = Inr (r, d')
     \<and> ir_state r = Open"
proof -
  let ?d = "empty_db\<lparr>db_invoices := [created_row 0 3 1 5 (from_cents 750)]\<rparr>"
  have "distinct (map inv_id (db_invoices ?d))"
    "\<forall>iv \<in> set (db_invoices ?d). 0 \<le> inv_version iv \<and> inv_version iv < 2 ^ 31 - 1"
    by (simp_all add: created_row_def)
  from service_transition_spec [OF this, where now = 9 and b = 1 and i = 3 and to = Open]
  show ?thesis
    by (auto simp: finalize_invoice_def created_row_def from_parts_def split: sum.splits)
qed

text \<open>
  Following the cursors of the invoice list, with or without a state filter and with any
  limit, visits every matching invoice of the business exactly once, newest first, and ends.
\<close>

theorem invoice_list_walk:
  assumes "hex_laws E" "uuid_laws E" "rfc3339_laws E" and "distinct (map inv_id (db_invoices d))"
    and "length (db_invoices d) < fuel"
  shows "walk fuel (\<lambda>cursor. invoice_service_list E b st limit cursor d) None =
     Some (map (\<lambda>iv. from_parts iv [])
       (order_desc invoice_key (filter (\<lambda>iv. inv_business_id iv = b \<and> (st = None \<or> st = Some (inv_state iv)))
          (db_invoices d))))"
proof -
  let ?P = "\<lambda>iv. inv_business_id iv = b \<and> (case st of None \<Rightarrow> True | Some s' \<Rightarrow> inv_state iv = s')"
  have P: "?P = (\<lambda>iv. inv_business_id iv = b \<and> (st = None \<or> st = Some (inv_state iv)))"
    by (rule ext) (cases st; auto)
  have "length (order_desc invoice_key (select_where ?P (db_invoices d))) < fuel"
    using assms(5) length_filter_le [of ?P "db_invoices d"]
    unfolding order_desc_def select_where_def length_rev length_sort by linarith
  then show ?thesis
    unfolding P [symmetric]
    using invl.walk_complete [OF assms(1-3), of "(b, st, d)" fuel "\<lambda>iv. from_parts iv []" limit] assms(4)
    by (simp add: invoice_service_list_def [abs_def] select_where_def)
qed

theorem invoice_list_walk_witness:
  "walk 3 (\<lambda>cursor. invoice_service_list sample_ext 1 (Some Draft) (Some 1) cursor
      (empty_db\<lparr>db_invoices := [created_row 4 3 1 5 (from_cents 750), created_row 6 4 1 5 (from_cents 20)]\<rparr>)) None
     = Some [from_parts (created_row 6 4 1 5 (from_cents 20)) [], from_parts (created_row 4 3 1 5 (from_cents 750)) []]"
  by (subst invoice_list_walk [OF sample_laws])
    (simp_all add: order_desc_def invoice_key_def created_row_def)

end
