(* ===== verification/Psp.thy ===== *)
theory Psp
  imports Domain
begin

text \<open>
  \<^verbatim>\<open>psp/mod.rs\<close>: the client of the payment service provider. What the network and the provider
  do with a request is a parameter: \<open>send\<close> maps the JSON body of a POST to \<^verbatim>\<open>/charge\<close> to a
  transport error or to a status with a body (\<open>None\<close> when the body is not readable as JSON).
  The theory also states what the payment flow relies on in a provider as a locale.
\<close>

section \<open>Definitions\<close>

datatype psp_result =
    PspSucceeded (psp_ref: string)
  | PspDeclined (decline_code: string)
  | PspUnknown (unknown_reason: string)

datatype charge_outcome = OutSucceeded string | OutFailed string

datatype transport = SendError (is_timeout: bool) | HttpResponse nat "json option"

definition charge_body :: "string \<Rightarrow> i64 \<Rightarrow> string \<Rightarrow> json" where
  "charge_body card_token amount_cents idempotency_key =
     JObject [(''card_token'', JString card_token),
              (''amount_cents'', JNumber (sint amount_cents)),
              (''currency'', JString ''USD''),
              (''idempotency_key'', JString idempotency_key)]"

text \<open>
  The derived \<^verbatim>\<open>Deserialize\<close> of an enum with an internal tag: a tag or a field that is missing or
  given twice is an error, other fields are ignored, and the sequence form is accepted too.
\<close>

definition single_field :: "string \<Rightarrow> (string \<times> json) list \<Rightarrow> json option" where
  "single_field k fs = (case filter (\<lambda>f. fst f = k) fs of [f] \<Rightarrow> Some (snd f) | _ \<Rightarrow> None)"

definition tagged_outcome :: "json option \<Rightarrow> json option \<Rightarrow> json option \<Rightarrow> charge_outcome option" where
  "tagged_outcome tag ref code =
     (if tag = Some (JString ''succeeded'') then map_option OutSucceeded (Option.bind ref json_string)
      else if tag = Some (JString ''failed'') then map_option OutFailed (Option.bind code json_string)
      else None)"

fun psp_response_from_value :: "json \<Rightarrow> charge_outcome option" where
  "psp_response_from_value (JObject fs) =
     tagged_outcome (single_field ''status'' fs) (single_field ''psp_ref'' fs) (single_field ''code'' fs)"
| "psp_response_from_value (JArray [tag, x]) = tagged_outcome (Some tag) (Some x) (Some x)"
| "psp_response_from_value _ = None"

definition is_server_error :: "nat \<Rightarrow> bool" where
  "is_server_error status \<longleftrightarrow> 500 \<le> status \<and> status < 600"

fun charge_result :: "transport \<Rightarrow> psp_result" where
  "charge_result (SendError t) = PspUnknown (if t then ''psp_timeout'' else ''psp_network_error'')"
| "charge_result (HttpResponse status body) =
     (if is_server_error status then PspUnknown ''psp_network_error''
      else case Option.bind body psp_response_from_value of
             Some (OutSucceeded r) \<Rightarrow> PspSucceeded r
           | Some (OutFailed c) \<Rightarrow> PspDeclined c
           | None \<Rightarrow> PspUnknown ''psp_network_error'')"

definition psp_charge :: "(json \<Rightarrow> transport) \<Rightarrow> string \<Rightarrow> i64 \<Rightarrow> string \<Rightarrow> psp_result" where
  "psp_charge send card_token amount_cents idempotency_key =
     charge_result (send (charge_body card_token amount_cents idempotency_key))"

fun definite :: "psp_result \<Rightarrow> bool" where
  "definite (PspSucceeded _) = True"
| "definite (PspDeclined _) = True"
| "definite (PspUnknown _) = False"

section \<open>What a provider promises\<close>

text \<open>
  One exchange with a provider in state \<open>s\<close>: \<open>serve x token amount key s\<close>, with \<open>x\<close> whatever the
  provider draws (a fresh reference, a delay). \<open>known s key\<close> is the outcome recorded for a key.
  The promise is idempotency: a definite outcome is recorded, a recorded outcome is what every
  later exchange under the key reports, if it reports anything, and no exchange alters the
  record of a key. \<open>exchanges\<close> runs a list of exchanges.
\<close>

fun exchanges ::
  "('x \<Rightarrow> string \<Rightarrow> i64 \<Rightarrow> string \<Rightarrow> 's \<Rightarrow> psp_result \<times> 's) \<Rightarrow>
     ('x \<times> string \<times> i64 \<times> string) list \<Rightarrow> 's \<Rightarrow> (string \<times> psp_result) list \<times> 's" where
  "exchanges serve [] s = ([], s)"
| "exchanges serve ((x, token, amount, key) # qs) s =
     (let (r, s') = serve x token amount key s; (rs, t) = exchanges serve qs s'
      in ((key, r) # rs, t))"

locale idempotent_psp =
  fixes serve :: "'x \<Rightarrow> string \<Rightarrow> i64 \<Rightarrow> string \<Rightarrow> 's \<Rightarrow> psp_result \<times> 's"
    and known :: "'s \<Rightarrow> string \<Rightarrow> psp_result option"
  assumes definite_recorded: "serve x token amount key s = (r, s') \<Longrightarrow> definite r \<Longrightarrow> known s' key = Some r"
    and record_kept: "serve x token amount key s = (r, s') \<Longrightarrow> known s k = Some q \<Longrightarrow> known s' k = Some q"
begin

lemma exchanges_kept: "exchanges serve qs s = (rs, t) \<Longrightarrow> known s k = Some q \<Longrightarrow> known t k = Some q"
proof (induction qs arbitrary: s rs)
  case (Cons x qs)
  then show ?case by (cases x) (auto split: prod.splits intro: record_kept)
qed simp

lemma exchanges_known:
  "exchanges serve qs s = (rs, t) \<Longrightarrow> (k, r) \<in> set rs \<Longrightarrow> definite r \<Longrightarrow> known t k = Some r"
proof (induction qs arbitrary: s rs)
  case (Cons q qs)
  obtain x token amount key where q: "q = (x, token, amount, key)" by (cases q) auto
  obtain r' s' rs' where step: "serve x token amount key s = (r', s')" "exchanges serve qs s' = (rs', t)"
      "rs = (key, r') # rs'" using Cons.prems(1) by (auto simp: q split: prod.splits)
  show ?case
  proof (cases "(k, r) \<in> set rs'")
    case True
    then show ?thesis using Cons.IH step(2) Cons.prems(3) by blast
  next
    case False
    then have "key = k" "r' = r" using Cons.prems(2) step(3) by auto
    then show ?thesis using definite_recorded [OF step(1)] exchanges_kept [OF step(2)] Cons.prems(3) by blast
  qed
qed simp

text \<open>
  So a whole history has one answer function: every exchange reports the answer of its key or
  nothing definite.
\<close>

lemma exchanges_answer:
  assumes "exchanges serve qs s = (rs, t)"
  shows "\<exists>ans. \<forall>(k, r) \<in> set rs. definite r \<longrightarrow> r = ans k"
  by (rule exI [of _ "\<lambda>k. the (known t k)"]) (use exchanges_known [OF assms] in force)

end

lemma psp_response_own_json:
  "psp_response_from_value (JObject [(''status'', JString ''succeeded''), (''psp_ref'', JString r)]) = Some (OutSucceeded r)"
  "psp_response_from_value (JObject [(''status'', JString ''failed''), (''code'', JString r)]) = Some (OutFailed r)"
  by (simp_all add: single_field_def tagged_outcome_def)

section \<open>Properties\<close>


end
