(* ===== verification/Payment_Service.thy ===== *)
theory Payment_Service
  imports Invoice_Service Psp
begin

text \<open>
  \<^verbatim>\<open>services/payment_service.rs\<close>: the payment flow. A request reads the invoice, claims the
  idempotency key and the single active attempt in transaction 1, calls the provider outside any
  transaction, and finalizes in transaction 2. Each transaction is one function on the database
  (its statements run atomically under the row locks and unique indexes they take), so that the
  concurrent system can interleave them; \<open>pay\<close> is the undisturbed composition and also returns
  the charge requests sent to the provider.
\<close>

section \<open>Transaction 1\<close>

definition to_le_bytes :: "i64 \<Rightarrow> u8 list" where
  "to_le_bytes a = map (\<lambda>k. ucast (drop_bit (8 * k) a)) [0..<8]"

definition fingerprint_input :: "ext \<Rightarrow> uuid \<Rightarrow> string \<Rightarrow> i64 \<Rightarrow> u8 list" where
  "fingerprint_input E invoice_id card_token amount_cents =
     uuid_as_bytes E invoice_id @ [0] @ as_bytes card_token @ [0] @ to_le_bytes amount_cents"

definition fingerprint :: "ext \<Rightarrow> uuid \<Rightarrow> string \<Rightarrow> i64 \<Rightarrow> u8 list" where
  "fingerprint E invoice_id card_token amount_cents =
     sha256 E (fingerprint_input E invoice_id card_token amount_cents)"

text \<open>The checks before transaction 1: the token, and the unlocked read of the invoice.\<close>

definition pay_read ::
  "uuid \<Rightarrow> uuid \<Rightarrow> pay_request \<Rightarrow> db \<Rightarrow> (app_error, invoice_state \<times> i64) result" where
  "pay_read business_id invoice_id req d =
     (if trim (pr_card_token req) = [] then
        Inl (Validation [new_field_error ''card_token'' ''must not be empty''])
      else
        res_bind (ok_or (NotFound ''invoice not found'') (invoice_get business_id invoice_id d)) (\<lambda>iv.
          Inr (inv_state iv, cents (inv_total_cents iv))))"

text \<open>\<^verbatim>\<open>INSERT ... ON CONFLICT (business_id, idempotency_key) DO NOTHING RETURNING true\<close>.\<close>

definition key_matches :: "uuid \<Rightarrow> string \<Rightarrow> idempotency_key_row \<Rightarrow> bool" where
  "key_matches business_id key r \<longleftrightarrow> ik_business_id r = business_id \<and> ik_idempotency_key r = key"

definition insert_key ::
  "timestamp \<Rightarrow> uuid \<Rightarrow> uuid \<Rightarrow> string \<Rightarrow> u8 list \<Rightarrow> db \<Rightarrow> (sqlx_error, db option) result" where
  "insert_key now new_id business_id key fp d =
     (if exists_row (key_matches business_id key) (db_keys d) then Inr None
      else if exists_row (\<lambda>r. ik_id r = new_id) (db_keys d) then
        Inl (unique_violation ''idempotency_keys_pkey'')
      else
        Inr (Some (d\<lparr>db_keys := db_keys d @
               [\<lparr>ik_id = new_id, ik_business_id = business_id, ik_idempotency_key = key,
                 ik_request_fingerprint = fp, ik_status = ''in_progress'', ik_attempt_id = None,
                 ik_response_status = None, ik_response_body = None, ik_created_at = now,
                 ik_expires_at = now + seconds (24 * 60 * 60)\<rparr>]\<rparr>)))"

text \<open>The predicate of the partial unique index \<^verbatim>\<open>uq_active_attempt_per_invoice\<close>.\<close>

definition active_attempt :: "payment_attempt \<Rightarrow> bool" where
  "active_attempt a \<longleftrightarrow> pa_status a = Pending \<or> pa_status a = Succeeded"

definition insert_attempt ::
  "timestamp \<Rightarrow> uuid \<Rightarrow> uuid \<Rightarrow> uuid \<Rightarrow> string \<Rightarrow> i64 \<Rightarrow> string \<Rightarrow> db \<Rightarrow> (sqlx_error, db) result" where
  "insert_attempt now attempt_id business_id invoice_id key amount_cents card_token d =
     (if \<not> 0 \<le> sint amount_cents then Inl (check_violation ''payment_attempts_amount_cents_check'')
      else if exists_row (\<lambda>a. pa_id a = attempt_id) (db_attempts d) then
        Inl (unique_violation ''payment_attempts_pkey'')
      else if exists_row (\<lambda>a. pa_invoice_id a = invoice_id \<and> active_attempt a) (db_attempts d) then
        Inl (unique_violation ''uq_active_attempt_per_invoice'')
      else
        Inr (d\<lparr>db_attempts := db_attempts d @
               [\<lparr>pa_id = attempt_id, pa_invoice_id = invoice_id, pa_business_id = business_id,
                 pa_idempotency_key = key, pa_amount_cents = from_cents amount_cents,
                 pa_currency = ''USD'', pa_card_token = card_token, pa_status = Pending,
                 pa_psp_ref = None, pa_failure_code = None, pa_last_error = None,
                 pa_attempt_count = 1, pa_next_poll_at = None, pa_created_at = now,
                 pa_updated_at = now\<rparr>]\<rparr>))"

definition link_key :: "uuid \<Rightarrow> uuid \<Rightarrow> string \<Rightarrow> db \<Rightarrow> db" where
  "link_key attempt_id business_id key d =
     d\<lparr>db_keys := update_where (key_matches business_id key) (\<lambda>r. r\<lparr>ik_attempt_id := Some attempt_id\<rparr>)
        (db_keys d)\<rparr>"

datatype claim = ClaimReplay | ClaimRejected app_error | Claimed uuid

definition not_payable :: "invoice_state \<Rightarrow> app_error" where
  "not_payable st = conflict ''invoice_not_payable''
     (''invoice is in state '' @ [CHR 0x27] @ as_str st @ [CHR 0x27] @ '', not '' @ [CHR 0x27] @ ''open''
        @ [CHR 0x27])"

definition payment_in_progress :: app_error where
  "payment_in_progress = conflict ''payment_in_progress''
     ''another payment attempt is already in progress for this invoice''"

definition pay_tx1 ::
  "ext \<Rightarrow> timestamp \<Rightarrow> uuid \<Rightarrow> uuid \<Rightarrow> uuid \<Rightarrow> uuid \<Rightarrow> string \<Rightarrow> string \<Rightarrow> invoice_state \<Rightarrow> i64 \<Rightarrow> db
     \<Rightarrow> claim \<times> db" where
  "pay_tx1 E now key_id attempt_id business_id invoice_id key card_token st amount_cents d =
     (case insert_key now key_id business_id key (fingerprint E invoice_id card_token amount_cents) d of
        Inl e \<Rightarrow> (ClaimRejected (from_sqlx e), d)
      | Inr None \<Rightarrow> (ClaimReplay, d)
      | Inr (Some d1) \<Rightarrow>
          if st \<noteq> Open then (ClaimRejected (not_payable st), d)
          else
            (case insert_attempt now attempt_id business_id invoice_id key amount_cents card_token d1 of
               Inl e \<Rightarrow>
                 (ClaimRejected (if is_unique_violation e then payment_in_progress else from_sqlx e), d)
             | Inr d2 \<Rightarrow> (Claimed attempt_id, link_key attempt_id business_id key d2)))"

section \<open>Replay\<close>

definition poll_url :: "ext \<Rightarrow> uuid \<Rightarrow> uuid \<Rightarrow> string" where
  "poll_url E invoice_id attempt_id =
     ''/v1/invoices/'' @ uuid_to_string E invoice_id @ ''/payments/'' @ uuid_to_string E attempt_id"

type_synonym pay_outcome = "nat \<times> payment_attempt_response"

definition key_reuse :: app_error where
  "key_reuse = conflict ''idempotency_key_reuse''
     ''this idempotency key was already used with different request parameters''"

text \<open>\<^verbatim>\<open>StatusCode::from_u16(code as u16).unwrap_or(StatusCode::OK)\<close>.\<close>

definition status_code :: "int \<Rightarrow> nat" where
  "status_code code =
     (let c = nat (code mod 2 ^ 16) in if 100 \<le> c \<and> c < 1000 then c else 200)"

definition replay ::
  "ext \<Rightarrow> uuid \<Rightarrow> string \<Rightarrow> u8 list \<Rightarrow> uuid \<Rightarrow> db \<Rightarrow> (app_error, pay_outcome) result" where
  "replay E business_id key fp invoice_id d =
     (case fetch_optional (key_matches business_id key) (db_keys d) of
        None \<Rightarrow> Inl (from_sqlx RowNotFound)
      | Some row \<Rightarrow>
          if ik_request_fingerprint row \<noteq> fp then Inl key_reuse
          else if ik_status row = ''completed'' then
            (case (ik_response_status row, ik_response_body row) of
               (Some code, Some body) \<Rightarrow>
                 (case response_from_value E body of
                    None \<Rightarrow> Inl (Internal (SerdeCause ''invalid response body''))
                  | Some resp \<Rightarrow> Inr (status_code code, resp))
             | _ \<Rightarrow> Inl (from_sqlx (SqlxOther ''unexpected null; try decoding as an `Option`'')))
          else
            Inr (202,
              \<lparr>rs_attempt_id = (case ik_attempt_id row of None \<Rightarrow> 0 | Some a \<Rightarrow> a),
               rs_invoice_id = invoice_id, rs_status = Pending, rs_amount_cents = 0,
               rs_invoice_state = ''open'', rs_psp_ref = None, rs_failure_code = None,
               rs_message = Some ''payment is still being processed'',
               rs_poll_url = map_option (poll_url E invoice_id) (ik_attempt_id row)\<rparr>))"

section \<open>Transaction 2\<close>

definition pay_invoice_row :: "timestamp \<Rightarrow> invoice \<Rightarrow> (sqlx_error, invoice) result" where
  "pay_invoice_row now iv =
     res_map (\<lambda>v. iv\<lparr>inv_state := Paid, inv_paid_at := Some now, inv_version := v,
                    inv_updated_at := now\<rparr>)
       (pg_int4 (inv_version iv + 1))"

definition pay_invoice :: "timestamp \<Rightarrow> uuid \<Rightarrow> db \<Rightarrow> (sqlx_error, db) result" where
  "pay_invoice now invoice_id d =
     res_map (\<lambda>t. d\<lparr>db_invoices := t\<rparr>)
       (try_update_where (\<lambda>iv. inv_id iv = invoice_id \<and> inv_state iv = Open) (pay_invoice_row now)
         (db_invoices d))"

definition pending_attempt :: "uuid \<Rightarrow> payment_attempt \<Rightarrow> bool" where
  "pending_attempt attempt_id a \<longleftrightarrow> pa_id a = attempt_id \<and> pa_status a = Pending"

definition attempt_succeeded :: "timestamp \<Rightarrow> string \<Rightarrow> payment_attempt \<Rightarrow> payment_attempt" where
  "attempt_succeeded now r a = a\<lparr>pa_status := Succeeded, pa_psp_ref := Some r, pa_updated_at := now\<rparr>"

definition attempt_failed :: "timestamp \<Rightarrow> string \<Rightarrow> payment_attempt \<Rightarrow> payment_attempt" where
  "attempt_failed now c a = a\<lparr>pa_status := Failed, pa_failure_code := Some c, pa_updated_at := now\<rparr>"

definition attempt_unknown ::
  "timestamp \<Rightarrow> string \<Rightarrow> payment_attempt \<Rightarrow> (sqlx_error, payment_attempt) result" where
  "attempt_unknown now reason a =
     res_map (\<lambda>n. a\<lparr>pa_last_error := Some reason, pa_attempt_count := n,
                   pa_next_poll_at := Some (now + seconds 5), pa_updated_at := now\<rparr>)
       (pg_int4 (pa_attempt_count a + 1))"

text \<open>The response of each outcome, with the status the handler answers.\<close>

fun outcome_response :: "ext \<Rightarrow> uuid \<Rightarrow> uuid \<Rightarrow> i64 \<Rightarrow> psp_result \<Rightarrow> pay_outcome" where
  "outcome_response E invoice_id attempt_id amount_cents (PspSucceeded r) =
     (200, \<lparr>rs_attempt_id = attempt_id, rs_invoice_id = invoice_id, rs_status = Succeeded,
            rs_amount_cents = amount_cents, rs_invoice_state = ''paid'', rs_psp_ref = Some r,
            rs_failure_code = None, rs_message = None, rs_poll_url = None\<rparr>)"
| "outcome_response E invoice_id attempt_id amount_cents (PspDeclined code) =
     (402, \<lparr>rs_attempt_id = attempt_id, rs_invoice_id = invoice_id, rs_status = Failed,
            rs_amount_cents = amount_cents, rs_invoice_state = ''open'', rs_psp_ref = None,
            rs_failure_code = Some code, rs_message = Some ''the payment was declined'',
            rs_poll_url = None\<rparr>)"
| "outcome_response E invoice_id attempt_id amount_cents (PspUnknown reason) =
     (202, \<lparr>rs_attempt_id = attempt_id, rs_invoice_id = invoice_id, rs_status = Pending,
            rs_amount_cents = amount_cents, rs_invoice_state = ''open'', rs_psp_ref = None,
            rs_failure_code = None,
            rs_message = Some ''payment is being processed; poll for the result'',
            rs_poll_url = Some (poll_url E invoice_id attempt_id)\<rparr>)"

definition payment_payload :: "ext \<Rightarrow> uuid \<Rightarrow> payment_attempt_response \<Rightarrow> i64 \<Rightarrow> json" where
  "payment_payload E invoice_id resp amount_cents =
     JObject [(''invoice_id'', JString (uuid_to_string E invoice_id)),
              (''attempt_id'', JString (uuid_to_string E (rs_attempt_id resp))),
              (''status'', JString (payment_status_str (rs_status resp))),
              (''amount_cents'', JNumber (sint amount_cents)),
              (''failure_code'', case rs_failure_code resp of None \<Rightarrow> JNull | Some c \<Rightarrow> JString c)]"

definition payment_emit ::
  "ext \<Rightarrow> timestamp \<Rightarrow> uuid \<Rightarrow> uuid \<Rightarrow> string \<Rightarrow> uuid \<Rightarrow> payment_attempt_response \<Rightarrow> i64 \<Rightarrow> db
     \<Rightarrow> (sqlx_error, db) result" where
  "payment_emit E now new_id business_id event_type invoice_id resp amount_cents d =
     res_map snd (emit_event now new_id business_id event_type invoice_id
       (payment_payload E invoice_id resp amount_cents) d)"

definition complete_key ::
  "ext \<Rightarrow> uuid \<Rightarrow> string \<Rightarrow> nat \<Rightarrow> payment_attempt_response \<Rightarrow> db \<Rightarrow> db" where
  "complete_key E business_id key status resp d =
     d\<lparr>db_keys := update_where (key_matches business_id key)
        (\<lambda>r. r\<lparr>ik_status := ''completed'', ik_response_status := Some (int status),
              ik_response_body := Some (response_to_value E resp)\<rparr>) (db_keys d)\<rparr>"

fun finalize_tx ::
  "ext \<Rightarrow> timestamp \<Rightarrow> uuid \<Rightarrow> uuid \<Rightarrow> uuid \<Rightarrow> uuid \<Rightarrow> string \<Rightarrow> i64 \<Rightarrow> psp_result \<Rightarrow> db
     \<Rightarrow> (sqlx_error, pay_outcome \<times> db) result" where
  "finalize_tx E now event_id business_id invoice_id attempt_id key amount_cents (PspSucceeded r) d =
     (let (status, resp) = outcome_response E invoice_id attempt_id amount_cents (PspSucceeded r);
          d1 = d\<lparr>db_attempts := update_where (pending_attempt attempt_id) (attempt_succeeded now r) (db_attempts d)\<rparr>
      in res_bind (pay_invoice now invoice_id d1) (\<lambda>d2.
         res_bind (payment_emit E now event_id business_id INVOICE_PAID invoice_id resp amount_cents d2) (\<lambda>d3.
           Inr ((status, resp), complete_key E business_id key status resp d3))))"
| "finalize_tx E now event_id business_id invoice_id attempt_id key amount_cents (PspDeclined code) d =
     (let (status, resp) = outcome_response E invoice_id attempt_id amount_cents (PspDeclined code);
          d1 = d\<lparr>db_attempts := update_where (pending_attempt attempt_id) (attempt_failed now code) (db_attempts d)\<rparr>
      in res_bind (payment_emit E now event_id business_id INVOICE_PAYMENT_FAILED invoice_id resp amount_cents d1) (\<lambda>d2.
           Inr ((status, resp), complete_key E business_id key status resp d2)))"
| "finalize_tx E now event_id business_id invoice_id attempt_id key amount_cents (PspUnknown reason) d =
     res_bind (try_update_where (pending_attempt attempt_id) (attempt_unknown now reason) (db_attempts d)) (\<lambda>t.
       Inr (outcome_response E invoice_id attempt_id amount_cents (PspUnknown reason), d\<lparr>db_attempts := t\<rparr>))"

definition pay_finalize ::
  "ext \<Rightarrow> timestamp \<Rightarrow> uuid \<Rightarrow> uuid \<Rightarrow> uuid \<Rightarrow> uuid \<Rightarrow> string \<Rightarrow> i64 \<Rightarrow> psp_result \<Rightarrow> db
     \<Rightarrow> (app_error, pay_outcome \<times> db) result" where
  "pay_finalize E now event_id business_id invoice_id attempt_id key amount_cents result d =
     res_map_err from_sqlx
       (finalize_tx E now event_id business_id invoice_id attempt_id key amount_cents result d)"

text \<open>The reconciler's entry point drops the HTTP answer.\<close>

definition finalize_for_reconciler ::
  "ext \<Rightarrow> timestamp \<Rightarrow> uuid \<Rightarrow> uuid \<Rightarrow> uuid \<Rightarrow> uuid \<Rightarrow> string \<Rightarrow> i64 \<Rightarrow> psp_result \<Rightarrow> db
     \<Rightarrow> (app_error, db) result" where
  "finalize_for_reconciler E now event_id business_id invoice_id attempt_id key amount_cents result d =
     res_map snd (pay_finalize E now event_id business_id invoice_id attempt_id key amount_cents result d)"

section \<open>The request\<close>

type_synonym charge_call = "string \<times> i64 \<times> string"

record pay_draws =
  pd_key_id :: uuid
  pd_attempt_id :: uuid
  pd_event_id :: uuid
  pd_claim_time :: timestamp
  pd_finalize_time :: timestamp

definition pay ::
  "ext \<Rightarrow> (string \<Rightarrow> i64 \<Rightarrow> string \<Rightarrow> psp_result) \<Rightarrow> pay_draws \<Rightarrow> uuid \<Rightarrow> uuid \<Rightarrow> string \<Rightarrow> pay_request \<Rightarrow> db
     \<Rightarrow> (app_error, pay_outcome) result \<times> db \<times> charge_call list" where
  "pay E psp dr business_id invoice_id key req d =
     (case pay_read business_id invoice_id req d of
        Inl e \<Rightarrow> (Inl e, d, [])
      | Inr (st, amount_cents) \<Rightarrow>
          (case pay_tx1 E (pd_claim_time dr) (pd_key_id dr) (pd_attempt_id dr) business_id invoice_id key
                  (pr_card_token req) st amount_cents d of
             (ClaimReplay, d1) \<Rightarrow>
               (replay E business_id key (fingerprint E invoice_id (pr_card_token req) amount_cents) invoice_id d1, d1, [])
           | (ClaimRejected e, d1) \<Rightarrow> (Inl e, d1, [])
           | (Claimed attempt_id, d1) \<Rightarrow>
               let call = (pr_card_token req, amount_cents, key);
                   result = psp (pr_card_token req) amount_cents key
               in (case pay_finalize E (pd_finalize_time dr) (pd_event_id dr) business_id invoice_id attempt_id key
                          amount_cents result d1 of
                     Inl e \<Rightarrow> (Inl e, d1, [call])
                   | Inr (outcome, d2) \<Rightarrow> (Inr outcome, d2, [call]))))"

definition get_attempt ::
  "uuid \<Rightarrow> uuid \<Rightarrow> uuid \<Rightarrow> db \<Rightarrow> (app_error, payment_attempt_response) result" where
  "get_attempt business_id invoice_id attempt_id d =
     res_bind (ok_or (NotFound ''payment attempt not found'')
       (fetch_optional (\<lambda>a. pa_id a = attempt_id \<and> pa_invoice_id a = invoice_id \<and> pa_business_id a = business_id)
          (db_attempts d))) (\<lambda>a.
     res_bind (ok_or (from_sqlx RowNotFound)
       (fetch_optional (\<lambda>iv. inv_id iv = invoice_id) (db_invoices d))) (\<lambda>iv.
     Inr \<lparr>rs_attempt_id = pa_id a, rs_invoice_id = pa_invoice_id a, rs_status = pa_status a,
          rs_amount_cents = cents (pa_amount_cents a), rs_invoice_state = as_str (inv_state iv),
          rs_psp_ref = pa_psp_ref a, rs_failure_code = pa_failure_code a, rs_message = None,
          rs_poll_url = None\<rparr>))"

section \<open>Lemmas: transaction 1\<close>

definition new_key_row :: "timestamp \<Rightarrow> uuid \<Rightarrow> uuid \<Rightarrow> string \<Rightarrow> u8 list \<Rightarrow> uuid \<Rightarrow> idempotency_key_row" where
  "new_key_row now new_id b key fp aid =
     \<lparr>ik_id = new_id, ik_business_id = b, ik_idempotency_key = key, ik_request_fingerprint = fp,
      ik_status = ''in_progress'', ik_attempt_id = Some aid, ik_response_status = None,
      ik_response_body = None, ik_created_at = now, ik_expires_at = now + seconds 86400\<rparr>"

definition new_attempt_row ::
  "timestamp \<Rightarrow> uuid \<Rightarrow> uuid \<Rightarrow> uuid \<Rightarrow> string \<Rightarrow> i64 \<Rightarrow> string \<Rightarrow> payment_attempt" where
  "new_attempt_row now aid b i key amt tok =
     \<lparr>pa_id = aid, pa_invoice_id = i, pa_business_id = b, pa_idempotency_key = key,
      pa_amount_cents = from_cents amt, pa_currency = ''USD'', pa_card_token = tok, pa_status = Pending,
      pa_psp_ref = None, pa_failure_code = None, pa_last_error = None, pa_attempt_count = 1,
      pa_next_poll_at = None, pa_created_at = now, pa_updated_at = now\<rparr>"

lemma update_where_append_new:
  "\<forall>r \<in> set t. \<not> P r \<Longrightarrow> P x \<Longrightarrow> update_where P f (t @ [x]) = t @ [f x]"
  by (auto simp: update_where_def intro: map_idI)

text \<open>The three outcomes of transaction 1; only a claim changes the database.\<close>

lemma pay_tx1_Claimed:
  "pay_tx1 E now kid aid b i key tok st amt d = (Claimed a, d') \<longleftrightarrow>
     a = aid \<and> st = Open \<and> 0 \<le> sint amt
     \<and> (\<forall>r \<in> set (db_keys d). \<not> key_matches b key r \<and> ik_id r \<noteq> kid)
     \<and> (\<forall>x \<in> set (db_attempts d). pa_id x \<noteq> aid \<and> \<not> (pa_invoice_id x = i \<and> active_attempt x))
     \<and> d' = d\<lparr>db_attempts := db_attempts d @ [new_attempt_row now aid b i key amt tok],
              db_keys := db_keys d @ [new_key_row now kid b key (fingerprint E i tok amt) aid]\<rparr>"
proof (cases "\<forall>r \<in> set (db_keys d). \<not> key_matches b key r \<and> ik_id r \<noteq> kid")
  case False
  then show ?thesis by (auto simp: pay_tx1_def insert_key_def table_simps split: if_splits option.splits)
next
  case True
  let ?k0 = "\<lparr>ik_id = kid, ik_business_id = b, ik_idempotency_key = key,
      ik_request_fingerprint = fingerprint E i tok amt, ik_status = ''in_progress'', ik_attempt_id = None,
      ik_response_status = None, ik_response_body = None, ik_created_at = now,
      ik_expires_at = now + seconds 86400\<rparr>"
  have ins: "insert_key now kid b key (fingerprint E i tok amt) d = Inr (Some (d\<lparr>db_keys := db_keys d @ [?k0]\<rparr>))"
    using True by (auto simp: insert_key_def table_simps)
  have link: "link_key aid b key (d\<lparr>db_attempts := x, db_keys := db_keys d @ [?k0]\<rparr>)
      = d\<lparr>db_attempts := x, db_keys := db_keys d @ [new_key_row now kid b key (fingerprint E i tok amt) aid]\<rparr>" for x
    using True by (simp add: link_key_def update_where_append_new key_matches_def new_key_row_def)
  have comm: "d\<lparr>db_keys := y, db_attempts := x\<rparr> = d\<lparr>db_attempts := x, db_keys := y\<rparr>" for x y by (cases d) simp
  show ?thesis
    using True by (auto simp: pay_tx1_def ins insert_attempt_def table_simps link comm new_attempt_row_def)
qed

lemma pay_tx1_Replay:
  "pay_tx1 E now kid aid b i key tok st amt d = (ClaimReplay, d') \<longleftrightarrow>
     d' = d \<and> (\<exists>r \<in> set (db_keys d). key_matches b key r)"
  by (auto simp: pay_tx1_def insert_key_def table_simps split: sum.splits)

lemma pay_tx1_Rejected:
  "pay_tx1 E now kid aid b i key tok st amt d = (ClaimRejected e, d') \<Longrightarrow> d' = d"
  by (auto simp: pay_tx1_def insert_key_def split: if_splits sum.splits)

section \<open>Lemmas: transaction 2\<close>

definition paid_event :: "ext \<Rightarrow> timestamp \<Rightarrow> uuid \<Rightarrow> uuid \<Rightarrow> uuid \<Rightarrow> uuid \<Rightarrow> i64 \<Rightarrow> psp_result \<Rightarrow> db \<Rightarrow> webhook_event" where
  "paid_event E now eid b i aid amt res d =
     emitted_event now eid b (case res of PspSucceeded _ \<Rightarrow> INVOICE_PAID | _ \<Rightarrow> INVOICE_PAYMENT_FAILED) i
       (payment_payload E i (snd (outcome_response E i aid amt res)) amt) d"

definition completed_row :: "ext \<Rightarrow> pay_outcome \<Rightarrow> idempotency_key_row \<Rightarrow> idempotency_key_row" where
  "completed_row E out r =
     r\<lparr>ik_status := ''completed'', ik_response_status := Some (int (fst out)),
       ik_response_body := Some (response_to_value E (snd out))\<rparr>"

text \<open>What transaction 2 does to an invoice row and, on an unknown outcome, to an attempt row.\<close>

definition paid_rel :: "timestamp \<Rightarrow> uuid \<Rightarrow> invoice \<Rightarrow> invoice \<Rightarrow> bool" where
  "paid_rel now i iv iv' \<longleftrightarrow>
     (if inv_id iv = i \<and> inv_state iv = Open then pay_invoice_row now iv = Inr iv' else iv' = iv)"

definition unknown_rel :: "timestamp \<Rightarrow> string \<Rightarrow> uuid \<Rightarrow> payment_attempt \<Rightarrow> payment_attempt \<Rightarrow> bool" where
  "unknown_rel now w aid a a' \<longleftrightarrow>
     (if pending_attempt aid a then attempt_unknown now w a = Inr a' else a' = a)"

lemma payment_emit_Inr:
  "payment_emit E now eid b ty i resp amt d = Inr d' \<longleftrightarrow>
     (\<forall>e \<in> set (db_events d). ev_id e \<noteq> eid)
     \<and> d' = d\<lparr>db_events := db_events d @ [emitted_event now eid b ty i (payment_payload E i resp amt) d],
             db_event_seq := db_event_seq d + 1\<rparr>"
  by (auto simp: payment_emit_def result_simps emit_event_Inr emitted_event_def)

lemma payment_emit_bind:
  "res_bind (payment_emit E now eid b ty i resp amt d) f = Inr y \<longleftrightarrow>
     (\<forall>e \<in> set (db_events d). ev_id e \<noteq> eid)
     \<and> f (d\<lparr>db_events := db_events d @ [emitted_event now eid b ty i (payment_payload E i resp amt) d],
             db_event_seq := db_event_seq d + 1\<rparr>) = Inr y"
  unfolding res_bind_Inr payment_emit_Inr by auto

lemma pay_invoice_bind:
  "res_bind (pay_invoice now i d) f = Inr y \<longleftrightarrow>
     (\<exists>t. list_all2 (paid_rel now i) (db_invoices d) t \<and> f (d\<lparr>db_invoices := t\<rparr>) = Inr y)"
  unfolding res_bind_Inr pay_invoice_def res_map_Inr try_update_where_Inr paid_rel_def [abs_def] by auto

lemma complete_key_row:
  "complete_key E b key status resp d =
     d\<lparr>db_keys := update_where (key_matches b key) (completed_row E (status, resp)) (db_keys d)\<rparr>"
  by (simp add: complete_key_def completed_row_def [abs_def])

lemma finalize_tx_Succeeded:
  "finalize_tx E now eid b i aid key amt (PspSucceeded r) d = Inr (out, d') \<longleftrightarrow>
     out = outcome_response E i aid amt (PspSucceeded r)
     \<and> (\<forall>e \<in> set (db_events d). ev_id e \<noteq> eid)
     \<and> (\<exists>t. list_all2 (paid_rel now i) (db_invoices d) t
         \<and> d' = d\<lparr>db_attempts := update_where (pending_attempt aid) (attempt_succeeded now r) (db_attempts d),
                  db_invoices := t,
                  db_events := db_events d @ [paid_event E now eid b i aid amt (PspSucceeded r) d],
                  db_event_seq := db_event_seq d + 1,
                  db_keys := update_where (key_matches b key) (completed_row E out) (db_keys d)\<rparr>)"
  unfolding finalize_tx.simps outcome_response.simps Let_def prod.case pay_invoice_bind payment_emit_bind complete_key_row
  by (auto simp: paid_event_def emitted_event_def)

lemma finalize_tx_Declined:
  "finalize_tx E now eid b i aid key amt (PspDeclined c) d = Inr (out, d') \<longleftrightarrow>
     out = outcome_response E i aid amt (PspDeclined c)
     \<and> (\<forall>e \<in> set (db_events d). ev_id e \<noteq> eid)
     \<and> d' = d\<lparr>db_attempts := update_where (pending_attempt aid) (attempt_failed now c) (db_attempts d),
              db_events := db_events d @ [paid_event E now eid b i aid amt (PspDeclined c) d],
              db_event_seq := db_event_seq d + 1,
              db_keys := update_where (key_matches b key) (completed_row E out) (db_keys d)\<rparr>"
  unfolding finalize_tx.simps outcome_response.simps Let_def prod.case payment_emit_bind complete_key_row
  by (auto simp: paid_event_def emitted_event_def)

lemma finalize_tx_Unknown:
  "finalize_tx E now eid b i aid key amt (PspUnknown w) d = Inr (out, d') \<longleftrightarrow>
     out = outcome_response E i aid amt (PspUnknown w)
     \<and> (\<exists>t. list_all2 (unknown_rel now w aid) (db_attempts d) t
         \<and> d' = d\<lparr>db_attempts := t\<rparr>)"
  by (auto simp: result_simps try_update_where_Inr unknown_rel_def [abs_def])

text \<open>All branches in one statement: row by row, what transaction 2 changes.\<close>

fun attempt_rel :: "timestamp \<Rightarrow> psp_result \<Rightarrow> uuid \<Rightarrow> payment_attempt \<Rightarrow> payment_attempt \<Rightarrow> bool" where
  "attempt_rel now (PspSucceeded r) aid a a' = (a' = (if pending_attempt aid a then attempt_succeeded now r a else a))"
| "attempt_rel now (PspDeclined c) aid a a' = (a' = (if pending_attempt aid a then attempt_failed now c a else a))"
| "attempt_rel now (PspUnknown w) aid a a' = unknown_rel now w aid a a'"

fun invoice_rel :: "timestamp \<Rightarrow> psp_result \<Rightarrow> uuid \<Rightarrow> invoice \<Rightarrow> invoice \<Rightarrow> bool" where
  "invoice_rel now (PspSucceeded r) i iv iv' = paid_rel now i iv iv'"
| "invoice_rel now _ i iv iv' = (iv' = iv)"

definition key_rel ::
  "ext \<Rightarrow> psp_result \<Rightarrow> pay_outcome \<Rightarrow> uuid \<Rightarrow> string \<Rightarrow> idempotency_key_row \<Rightarrow> idempotency_key_row \<Rightarrow> bool" where
  "key_rel E res out b key k k' \<longleftrightarrow>
     k' = (if definite res \<and> key_matches b key k then completed_row E out k else k)"

lemma list_all2_update_where: "list_all2 R t (update_where P f t) \<longleftrightarrow> (\<forall>r \<in> set t. R r (if P r then f r else r))"
  by (auto simp: update_where_def list_all2_conv_all_nth all_set_conv_all_nth)

lemma list_all2_same_eq: "list_all2 R t t \<longleftrightarrow> (\<forall>r \<in> set t. R r r)"
  by (auto simp: list_all2_conv_all_nth all_set_conv_all_nth)

lemma finalize_tx_rows:
  assumes "finalize_tx E now eid b i aid key amt res d = Inr (out, d')"
  shows "out = outcome_response E i aid amt res"
    and "list_all2 (attempt_rel now res aid) (db_attempts d) (db_attempts d')"
    and "list_all2 (invoice_rel now res i) (db_invoices d) (db_invoices d')"
    and "list_all2 (key_rel E res out b key) (db_keys d) (db_keys d')"
    and "db_events d' = db_events d @ (if definite res then [paid_event E now eid b i aid amt res d] else [])"
    and "definite res \<longrightarrow> (\<forall>e \<in> set (db_events d). ev_id e \<noteq> eid)"
    and "db_event_seq d' = db_event_seq d + (if definite res then 1 else 0)"
    and "db_line_items d' = db_line_items d"
  by (insert assms, (cases res; auto simp: finalize_tx_Succeeded finalize_tx_Declined finalize_tx_Unknown
      list_all2_update_where list_all2_same_eq key_rel_def simp del: finalize_tx.simps elim: list_all2_mono)+)

lemma finalize_tx_other_tables:
  assumes "finalize_tx E now eid b i aid key amt res d = Inr (out, d')"
  shows "db_api_keys d' = db_api_keys d" "db_customers d' = db_customers d" "db_endpoints d' = db_endpoints d"
    "db_deliveries d' = db_deliveries d"
  by (insert assms, (cases res; auto simp: finalize_tx_Succeeded finalize_tx_Declined finalize_tx_Unknown
      simp del: finalize_tx.simps)+)

section \<open>Lemmas: the undisturbed run\<close>

text \<open>
  When a payment can go through: the invoice of the business is open, its key is new, it has no
  active attempt, and the ids drawn for the new rows are not in use.
\<close>

definition payable :: "pay_draws \<Rightarrow> uuid \<Rightarrow> uuid \<Rightarrow> string \<Rightarrow> invoice \<Rightarrow> db \<Rightarrow> bool" where
  "payable dr b i key iv d \<longleftrightarrow>
     distinct (map inv_id (db_invoices d)) \<and> iv \<in> set (db_invoices d) \<and> inv_id iv = i \<and> inv_business_id iv = b
     \<and> inv_state iv = Open \<and> 0 \<le> inv_version iv \<and> inv_version iv < 2 ^ 31 - 1
     \<and> 0 \<le> sint (cents (inv_total_cents iv))
     \<and> (\<forall>r \<in> set (db_keys d). \<not> key_matches b key r \<and> ik_id r \<noteq> pd_key_id dr)
     \<and> (\<forall>a \<in> set (db_attempts d). pa_id a \<noteq> pd_attempt_id dr \<and> \<not> (pa_invoice_id a = i \<and> active_attempt a))
     \<and> (\<forall>e \<in> set (db_events d). ev_id e \<noteq> pd_event_id dr)"

fun settled :: "timestamp \<Rightarrow> psp_result \<Rightarrow> payment_attempt \<Rightarrow> payment_attempt" where
  "settled now (PspSucceeded r) a = attempt_succeeded now r a"
| "settled now (PspDeclined c) a = attempt_failed now c a"
| "settled now (PspUnknown w) a =
     a\<lparr>pa_last_error := Some w, pa_attempt_count := pa_attempt_count a + 1,
       pa_next_poll_at := Some (now + seconds 5), pa_updated_at := now\<rparr>"

fun settled_invoice :: "timestamp \<Rightarrow> psp_result \<Rightarrow> invoice \<Rightarrow> invoice" where
  "settled_invoice now (PspSucceeded r) iv =
     iv\<lparr>inv_state := Paid, inv_paid_at := Some now, inv_version := inv_version iv + 1, inv_updated_at := now\<rparr>"
| "settled_invoice now _ iv = iv"

definition claimed_db :: "ext \<Rightarrow> pay_draws \<Rightarrow> uuid \<Rightarrow> uuid \<Rightarrow> string \<Rightarrow> i64 \<Rightarrow> string \<Rightarrow> db \<Rightarrow> db" where
  "claimed_db E dr b i key amt tok d =
     d\<lparr>db_attempts := db_attempts d @ [new_attempt_row (pd_claim_time dr) (pd_attempt_id dr) b i key amt tok],
       db_keys := db_keys d @ [new_key_row (pd_claim_time dr) (pd_key_id dr) b key (fingerprint E i tok amt) (pd_attempt_id dr)]\<rparr>"

definition settled_db ::
  "ext \<Rightarrow> pay_draws \<Rightarrow> uuid \<Rightarrow> uuid \<Rightarrow> string \<Rightarrow> i64 \<Rightarrow> string \<Rightarrow> psp_result \<Rightarrow> nat \<Rightarrow> db \<Rightarrow> db" where
  "settled_db E dr b i key amt tok res k d =
     (let now = pd_finalize_time dr; aid = pd_attempt_id dr;
          nk = new_key_row (pd_claim_time dr) (pd_key_id dr) b key (fingerprint E i tok amt) aid in
      d\<lparr>db_attempts := db_attempts d @ [settled now res (new_attempt_row (pd_claim_time dr) aid b i key amt tok)],
        db_invoices := (db_invoices d)[k := settled_invoice now res (db_invoices d ! k)],
        db_events := db_events d @ (if definite res then [paid_event E now (pd_event_id dr) b i aid amt res d] else []),
        db_event_seq := db_event_seq d + (if definite res then 1 else 0),
        db_keys := db_keys d @ [if definite res then completed_row E (outcome_response E i aid amt res) nk else nk]\<rparr>)"

lemma attempt_update_new:
  assumes "\<forall>a \<in> set t. pa_id a \<noteq> pa_id x" and "pa_status x = Pending"
  shows "update_where (pending_attempt (pa_id x)) f (t @ [x]) = t @ [f x]"
  by (rule update_where_append_new) (use assms in \<open>auto simp: pending_attempt_def\<close>)

lemma list_all2_update_at:
  assumes "k < length t" and "P (t ! k)" and "f (t ! k) = Inr y"
    and "\<And>j. j < length t \<Longrightarrow> P (t ! j) \<Longrightarrow> j = k"
  shows "list_all2 (\<lambda>r r'. if P r then f r = Inr r' else r' = r) t (t[k := y])"
  unfolding list_all2_conv_all_nth
proof (intro conjI allI impI)
  fix j assume j: "j < length t"
  show "if P (t ! j) then f (t ! j) = Inr (t[k := y] ! j) else t[k := y] ! j = t ! j"
  proof (cases "j = k")
    case True
    then show ?thesis using assms(1-3) by simp
  next
    case False
    then have "\<not> P (t ! j)" using assms(4) [OF j] by blast
    then show ?thesis using False by simp
  qed
qed simp

lemma finalize_claimed:
  assumes "payable dr b i key iv d" and "k < length (db_invoices d)" and "db_invoices d ! k = iv"
  shows "finalize_tx E (pd_finalize_time dr) (pd_event_id dr) b i (pd_attempt_id dr) key amt res (claimed_db E dr b i key amt tok d)
     = Inr (outcome_response E i (pd_attempt_id dr) amt res, settled_db E dr b i key amt tok res k d)"
proof -
  let ?a = "new_attempt_row (pd_claim_time dr) (pd_attempt_id dr) b i key amt tok"
  let ?k = "new_key_row (pd_claim_time dr) (pd_key_id dr) b key (fingerprint E i tok amt) (pd_attempt_id dr)"
  have id_a: "pa_id ?a = pd_attempt_id dr" "pa_status ?a = Pending" "pa_attempt_count ?a = 1"
    by (simp_all add: new_attempt_row_def)
  have new_a: "\<forall>a \<in> set (db_attempts d). pa_id a \<noteq> pa_id ?a" using assms(1) by (simp add: payable_def id_a)
  have upd_a: "update_where (pending_attempt (pd_attempt_id dr)) f (db_attempts d @ [?a]) = db_attempts d @ [f ?a]" for f
    using attempt_update_new [OF new_a id_a(2)] by (simp add: id_a)
  have upd_k: "update_where (key_matches b key) f (db_keys d @ [?k]) = db_keys d @ [f ?k]" for f
    using assms(1) by (intro update_where_append_new) (auto simp: payable_def key_matches_def new_key_row_def)
  have ev: "\<forall>e \<in> set (db_events d). ev_id e \<noteq> pd_event_id dr" using assms(1) by (simp add: payable_def)
  have pe: "paid_event E now' e' b i a' amt res (claimed_db E dr b i key amt tok d) = paid_event E now' e' b i a' amt res d"
    for now' e' a' by (simp add: paid_event_def emitted_event_def claimed_db_def)
  show ?thesis
  proof (cases res)
    case (PspSucceeded r)
    have row: "pay_invoice_row (pd_finalize_time dr) iv = Inr (settled_invoice (pd_finalize_time dr) res iv)"
      using assms(1) by (simp add: payable_def pay_invoice_row_def pg_int4_def PspSucceeded)
    have uniq: "j = k" if "j < length (db_invoices d)" "inv_id (db_invoices d ! j) = i \<and> inv_state (db_invoices d ! j) = Open" for j
      using assms that by (auto simp: payable_def distinct_conv_nth)
    define t where "t = (db_invoices d)[k := settled_invoice (pd_finalize_time dr) res iv]"
    have "list_all2 (paid_rel (pd_finalize_time dr) i) (db_invoices d) t"
      unfolding t_def paid_rel_def [abs_def]
      by (rule list_all2_update_at [OF assms(2) _ _ uniq]) (use assms row in \<open>auto simp: payable_def\<close>)
    moreover have "settled_db E dr b i key amt tok res k d = claimed_db E dr b i key amt tok d
        \<lparr>db_attempts := update_where (pending_attempt (pd_attempt_id dr)) (attempt_succeeded (pd_finalize_time dr) r) (db_attempts d @ [?a]),
         db_invoices := t,
         db_events := db_events d @ [paid_event E (pd_finalize_time dr) (pd_event_id dr) b i (pd_attempt_id dr) amt res d],
         db_event_seq := db_event_seq d + 1,
         db_keys := update_where (key_matches b key)
           (completed_row E (outcome_response E i (pd_attempt_id dr) amt res)) (db_keys d @ [?k])\<rparr>"
      unfolding upd_a upd_k by (simp add: settled_db_def claimed_db_def Let_def t_def assms(3) PspSucceeded)
    ultimately show ?thesis
      using ev pe unfolding PspSucceeded finalize_tx_Succeeded
      by (intro conjI exI [of _ t]) (simp_all add: claimed_db_def)
  next
    case (PspDeclined c)
    then show ?thesis
      using ev pe upd_a upd_k unfolding PspDeclined finalize_tx_Declined
      by (auto simp: claimed_db_def settled_db_def Let_def)
  next
    case (PspUnknown w)
    have "try_update_where (pending_attempt (pd_attempt_id dr)) (attempt_unknown (pd_finalize_time dr) w) (db_attempts d @ [?a])
        = Inr (update_where (pending_attempt (pd_attempt_id dr)) (settled (pd_finalize_time dr) res) (db_attempts d @ [?a]))"
      by (rule try_update_where_total)
        (use new_a id_a in \<open>auto simp: pending_attempt_def attempt_unknown_def pg_int4_def PspUnknown\<close>)
    then show ?thesis by (simp add: upd_a claimed_db_def settled_db_def Let_def PspUnknown)
  qed
qed

lemma pay_tx1_payable:
  assumes "payable dr b i key iv d" and "amt = cents (inv_total_cents iv)"
  shows "pay_tx1 E (pd_claim_time dr) (pd_key_id dr) (pd_attempt_id dr) b i key tok Open amt d
     = (Claimed (pd_attempt_id dr), claimed_db E dr b i key amt tok d)"
  unfolding pay_tx1_Claimed using assms by (auto simp: payable_def claimed_db_def)

lemma invoice_get_unique:
  assumes "distinct (map inv_id (db_invoices d))" and "iv \<in> set (db_invoices d)" and "inv_id iv = i" and "inv_business_id iv = b"
  shows "invoice_get b i d = Some iv"
  unfolding invoice_get_def
  by (rule fetch_optional_unique) (use assms in \<open>auto simp: distinct_map inj_on_def\<close>)

text \<open>The run of a payable request, in one formula.\<close>

lemma pay_payable:
  assumes "payable dr b i key iv d" and "trim (pr_card_token req) \<noteq> []"
    and "amt = cents (inv_total_cents iv)" and "res = psp (pr_card_token req) amt key"
    and "k < length (db_invoices d)" and "db_invoices d ! k = iv"
  shows "pay E psp dr b i key req d
     = (Inr (outcome_response E i (pd_attempt_id dr) amt res),
        settled_db E dr b i key amt (pr_card_token req) res k d, [(pr_card_token req, amt, key)])"
proof -
  have "invoice_get b i d = Some iv" using assms(1) by (intro invoice_get_unique) (auto simp: payable_def)
  then have "pay_read b i req d = Inr (Open, amt)"
    using assms(1-3) by (simp add: pay_read_def payable_def)
  then show ?thesis
    using pay_tx1_payable [OF assms(1,3)] finalize_claimed [OF assms(1,5,6)] assms(4)
    by (simp add: pay_def pay_finalize_def Let_def)
qed

text \<open>What the attempt resource shows of an outcome: the response without the request's hints.\<close>

definition attempt_view :: "payment_attempt_response \<Rightarrow> payment_attempt_response" where
  "attempt_view r = r\<lparr>rs_message := None, rs_poll_url := None\<rparr>"

lemma settled_invoice_same:
  "inv_id (settled_invoice now res iv) = inv_id iv" "inv_business_id (settled_invoice now res iv) = inv_business_id iv"
  "inv_total_cents (settled_invoice now res iv) = inv_total_cents iv"
  by (cases res; simp)+

lemma get_attempt_settled:
  assumes "payable dr b i key iv d" and "k < length (db_invoices d)" and "db_invoices d ! k = iv"
    and "d' = settled_db E dr b i key amt tok res k d"
  shows "get_attempt b i (pd_attempt_id dr) d' = Inr (attempt_view (snd (outcome_response E i (pd_attempt_id dr) amt res)))"
proof -
  let ?a = "settled (pd_finalize_time dr) res (new_attempt_row (pd_claim_time dr) (pd_attempt_id dr) b i key amt tok)"
  let ?iv = "settled_invoice (pd_finalize_time dr) res iv"
  have a: "pa_id ?a = pd_attempt_id dr" "pa_invoice_id ?a = i" "pa_business_id ?a = b" "cents (pa_amount_cents ?a) = amt"
    by (cases res; simp add: attempt_succeeded_def attempt_failed_def new_attempt_row_def cents_def from_cents_def)+
  have fetch_a: "fetch_optional (\<lambda>a. pa_id a = pd_attempt_id dr \<and> pa_invoice_id a = i \<and> pa_business_id a = b) (db_attempts d') = Some ?a"
    using assms(1) a by (simp add: assms(4) settled_db_def Let_def fetch_optional_def payable_def find_append_last)
  have dist: "distinct (map inv_id (db_invoices d'))"
    using assms(1,3) by (simp add: assms(4) settled_db_def Let_def map_update settled_invoice_same payable_def)
      (metis list_update_id map_update)
  have mem: "?iv \<in> set (db_invoices d')"
    using assms(2,3) by (simp add: assms(4) settled_db_def Let_def set_update_memI)
  have "fetch_optional (\<lambda>iv. inv_id iv = i) (db_invoices d') = Some ?iv"
    by (rule fetch_optional_unique) (use mem dist assms(1) in \<open>auto simp: settled_invoice_same payable_def distinct_map inj_on_def\<close>)
  then show ?thesis
    using fetch_a a assms(1)
    by (cases res) (simp_all add: get_attempt_def attempt_view_def payable_def attempt_succeeded_def attempt_failed_def
        new_attempt_row_def)
qed

lemma fetch_optional_filter:
  "fetch_optional P t = (case filter P t of [] \<Rightarrow> None | r # _ \<Rightarrow> Some r)"
  by (induction t) (auto simp: fetch_optional_def)

lemma completed_replay:
  assumes "uuid_laws E" and "definite res"
  shows "status_code (int (fst (outcome_response E i aid amt res))) = fst (outcome_response E i aid amt res)"
    and "response_from_value E (response_to_value E (snd (outcome_response E i aid amt res)))
      = Some (snd (outcome_response E i aid amt res))"
  using assms by (cases res; simp add: status_code_def response_from_to_value)+

lemma to_le_bytes_inj: "to_le_bytes a = to_le_bytes b \<Longrightarrow> a = b"
proof (rule bit_word_eqI)
  fix n assume eq: "to_le_bytes a = to_le_bytes b" and n: "n < LENGTH(64)"
  let ?i = "n div 8"
  from n have "?i < 8" by simp
  with eq have "(ucast (drop_bit (8 * ?i) a) :: u8) = ucast (drop_bit (8 * ?i) b)"
    by (auto simp: to_le_bytes_def list_eq_iff_nth_eq dest: spec [of _ ?i])
  then have "bit (ucast (drop_bit (8 * ?i) a) :: u8) (n mod 8) = bit (ucast (drop_bit (8 * ?i) b) :: u8) (n mod 8)"
    by simp
  then show "bit a n = bit b n" by (simp add: bit_ucast_iff bit_drop_bit_eq)
qed

lemma fingerprint_input_inject:
  assumes "uuid_laws E" and "fingerprint_input E i tok amt = fingerprint_input E i' tok' amt'"
  shows "i = i' \<and> tok = tok' \<and> amt = amt'"
proof -
  have len: "length (to_le_bytes amt) = length (to_le_bytes amt')" by (simp add: to_le_bytes_def)
  have "length (fingerprint_input E i tok amt) = length (fingerprint_input E i' tok' amt')" using assms(2) by simp
  then have "length tok = length tok'" using assms(1) len by (simp add: fingerprint_input_def uuid_laws_def)
  then have "uuid_as_bytes E i = uuid_as_bytes E i' \<and> as_bytes tok = as_bytes tok' \<and> to_le_bytes amt = to_le_bytes amt'"
    using assms len by (auto simp: fingerprint_input_def uuid_laws_def)
  then show ?thesis using assms(1) to_le_bytes_inj by (auto simp: uuid_laws_def dest: injD)
qed

section \<open>Properties\<close>

text \<open>
  C19: the payment of a payable invoice. The provider is asked exactly once, for exactly the total
  of the invoice, under the request's key. The answer is 200, 402 or 202 as the provider said
  yes, no or nothing clear; the attempt resource shows the same status, reference and failure
  code; the invoice is paid exactly on yes, keeps its total, and no other invoice changes; one
  event tells the outcome when it is definite, none otherwise.
\<close>

theorem pay_settles:
  assumes "payable dr b i key iv d" and "trim (pr_card_token req) \<noteq> []"
    and "amt = cents (inv_total_cents iv)" and "res = psp (pr_card_token req) amt key"
    and "out = outcome_response E i (pd_attempt_id dr) amt res"
  shows "\<exists>d' k. pay E psp dr b i key req d = (Inr out, d', [(pr_card_token req, amt, key)])
     \<and> get_attempt b i (pd_attempt_id dr) d' = Inr (attempt_view (snd out))
     \<and> k < length (db_invoices d) \<and> db_invoices d ! k = iv
     \<and> (\<forall>j < length (db_invoices d). j \<noteq> k \<longrightarrow> db_invoices d' ! j = db_invoices d ! j)
     \<and> length (db_invoices d') = length (db_invoices d)
     \<and> inv_state (db_invoices d' ! k) = (case res of PspSucceeded _ \<Rightarrow> Paid | _ \<Rightarrow> Open)
     \<and> inv_total_cents (db_invoices d' ! k) = inv_total_cents iv
     \<and> (case res of
          PspUnknown _ \<Rightarrow> db_events d' = db_events d
        | _ \<Rightarrow> \<exists>e. db_events d' = db_events d @ [e] \<and> ev_business_id e = b \<and> ev_aggregate_id e = i
                \<and> ev_event_type e = (if fst out = 200 then INVOICE_PAID else INVOICE_PAYMENT_FAILED))"
proof -
  obtain k where k: "k < length (db_invoices d)" "db_invoices d ! k = iv"
    using assms(1) by (auto simp: payable_def in_set_conv_nth)
  note run = pay_payable [where psp = psp and E = E, OF assms(1-4) k]
  have st: "inv_state iv = Open" using assms(1) by (simp add: payable_def)
  show ?thesis
    unfolding run assms(5)
    using get_attempt_settled [OF assms(1) k refl, of E amt "pr_card_token req" res] k st
    by (intro exI [of _ "settled_db E dr b i key amt (pr_card_token req) res k d"] exI [of _ k])
      (cases res; simp add: settled_db_def Let_def paid_event_def emitted_event_def)
qed

text \<open>A shop with one open invoice over 7.50, and the draws of one request.\<close>

definition sample_open :: invoice where
  "sample_open = (created_row 0 3 1 5 (from_cents 750))\<lparr>inv_state := Open, inv_version := 1, inv_finalized_at := Some 1\<rparr>"

definition sample_open_db :: db where
  "sample_open_db = empty_db\<lparr>db_invoices := [sample_open]\<rparr>"

definition sample_draws :: pay_draws where
  "sample_draws = \<lparr>pd_key_id = 20, pd_attempt_id = 21, pd_event_id = 22, pd_claim_time = 100, pd_finalize_time = 101\<rparr>"

definition sample_pay :: pay_request where
  "sample_pay = \<lparr>pr_card_token = ''tok_success''\<rparr>"

lemma sample_payable: "payable sample_draws 1 3 ''k'' sample_open sample_open_db"
  by (simp add: payable_def sample_open_db_def sample_open_def created_row_def empty_db_def cents_def from_cents_def)

lemma sample_total: "cents (inv_total_cents sample_open) = 750"
  by (simp add: sample_open_def created_row_def cents_def from_cents_def)

lemma sample_token: "trim (pr_card_token sample_pay) \<noteq> []"
  by (simp add: sample_pay_def) code_simp

theorem pay_settles_witness:
  "\<exists>d'. pay sample_ext (\<lambda>_ _ _. PspSucceeded ''ref'') sample_draws 1 3 ''k'' sample_pay sample_open_db
      = (Inr (outcome_response sample_ext 3 21 750 (PspSucceeded ''ref'')), d', [(''tok_success'', 750, ''k'')])
     \<and> inv_state (db_invoices d' ! 0) = Paid"
proof -
  have k0: "k = 0" if "k < length (db_invoices sample_open_db)" for k using that by (simp add: sample_open_db_def)
  show ?thesis
    using pay_settles [where psp = "\<lambda>_ _ _. PspSucceeded ''ref''" and E = sample_ext, OF sample_payable sample_token
        refl refl refl] k0
    unfolding sample_total by (auto simp: sample_draws_def sample_pay_def)
qed

text \<open>
  C20: retrying a settled payment. Once a payment ended in a definite outcome, sending the same
  request again gives the same status and the same response, sends nothing to the provider and
  changes nothing, whatever happened to the invoice's state, to other keys, attempts and events
  in between, and however the provider would answer now.
\<close>

theorem pay_idempotent:
  assumes "uuid_laws E" and "payable dr b i key iv d" and "trim (pr_card_token req) \<noteq> []"
    and "pay E psp dr b i key req d = (Inr out, d1, calls)"
    and "definite (psp (pr_card_token req) (cents (inv_total_cents iv)) key)"
    and "filter (key_matches b key) (db_keys d2) = filter (key_matches b key) (db_keys d1)"
    and "distinct (map inv_id (db_invoices d2))" and "iv2 \<in> set (db_invoices d2)" and "inv_id iv2 = i"
    and "inv_business_id iv2 = b" and "inv_total_cents iv2 = inv_total_cents iv"
  shows "pay E psp2 dr2 b i key req d2 = (Inr out, d2, [])"
proof -
  let ?amt = "cents (inv_total_cents iv)" and ?aid = "pd_attempt_id dr"
  let ?fp = "fingerprint E i (pr_card_token req) ?amt" and ?res = "psp (pr_card_token req) ?amt key"
  let ?row = "completed_row E (outcome_response E i ?aid ?amt ?res) (new_key_row (pd_claim_time dr) (pd_key_id dr) b key ?fp ?aid)"
  obtain k where k: "k < length (db_invoices d)" "db_invoices d ! k = iv"
    using assms(2) by (auto simp: payable_def in_set_conv_nth)
  note run = pay_payable [where psp = psp and E = E, OF assms(2,3) refl refl k]
  have out: "out = outcome_response E i ?aid ?amt ?res" and d1: "db_keys d1 = db_keys d @ [?row]"
    using assms(4,5) unfolding run by (auto simp: settled_db_def Let_def)
  have "filter (key_matches b key) (db_keys d) = []"
    using assms(2) by (auto simp: payable_def filter_empty_conv)
  then have row: "filter (key_matches b key) (db_keys d2) = [?row]"
    unfolding assms(6) d1 by (simp add: key_matches_def completed_row_def new_key_row_def)
  have "replay E b key ?fp i d2 = Inr out"
    using row completed_replay [OF assms(1,5), of i ?aid ?amt]
    by (simp add: replay_def fetch_optional_filter out) (simp add: completed_row_def new_key_row_def)
  moreover have "?row \<in> set (db_keys d2)" "key_matches b key ?row"
    using row by (metis (no_types, lifting) filter_eq_Cons_iff in_set_conv_decomp)+
  then have "pay_tx1 E t kid aid b i key tok st amt d2 = (ClaimReplay, d2)" for t kid aid tok st amt
    unfolding pay_tx1_Replay by blast
  moreover have "invoice_get b i d2 = Some iv2" by (rule invoice_get_unique [OF assms(7-10)])
  ultimately show ?thesis using assms(3,11) by (simp add: pay_def pay_read_def)
qed

text \<open>After the payment of the sample invoice it is voided by hand: the retry still says paid.\<close>

theorem pay_idempotent_witness:
  "\<exists>d1. pay sample_ext (\<lambda>_ _ _. PspSucceeded ''ref'') sample_draws 1 3 ''k'' sample_pay sample_open_db
      = (Inr (outcome_response sample_ext 3 21 750 (PspSucceeded ''ref'')), d1, [(''tok_success'', 750, ''k'')])
     \<and> pay sample_ext (\<lambda>_ _ _. PspUnknown ''psp_timeout'') sample_draws 1 3 ''k'' sample_pay
          (d1\<lparr>db_invoices := [sample_open\<lparr>inv_state := Void\<rparr>]\<rparr>)
        = (Inr (outcome_response sample_ext 3 21 750 (PspSucceeded ''ref'')),
           d1\<lparr>db_invoices := [sample_open\<lparr>inv_state := Void\<rparr>]\<rparr>, [])"
proof -
  let ?psp = "\<lambda>_ _ _. PspSucceeded ''ref''"
  have k: "0 < length (db_invoices sample_open_db)" "db_invoices sample_open_db ! 0 = sample_open"
    by (simp_all add: sample_open_db_def)
  note run = pay_payable [where psp = ?psp and E = sample_ext, OF sample_payable sample_token refl refl k, unfolded sample_total]
  let ?d1 = "settled_db sample_ext sample_draws 1 3 ''k'' 750 (pr_card_token sample_pay) (PspSucceeded ''ref'') 0 sample_open_db"
  let ?iv = "sample_open\<lparr>inv_state := Void\<rparr>"
  have iv: "inv_id ?iv = 3" "inv_business_id ?iv = 1" "inv_total_cents ?iv = inv_total_cents sample_open"
    by (simp_all add: sample_open_def created_row_def)
  have "pay sample_ext (\<lambda>_ _ _. PspUnknown ''psp_timeout'') sample_draws 1 3 ''k'' sample_pay
          (?d1\<lparr>db_invoices := [?iv]\<rparr>)
        = (Inr (outcome_response sample_ext 3 (pd_attempt_id sample_draws) 750 (PspSucceeded ''ref'')), ?d1\<lparr>db_invoices := [?iv]\<rparr>, [])"
    by (rule pay_idempotent [where ?iv2.0 = ?iv, OF sample_uuid_laws sample_payable sample_token run])
      (simp_all add: iv [simplified])
  moreover have "pd_attempt_id sample_draws = 21" "pr_card_token sample_pay = ''tok_success''"
    by (simp_all add: sample_draws_def sample_pay_def)
  ultimately show ?thesis using run by simp
qed

text \<open>
  C22: a key belongs to one request. While a key is known, a request under it for another invoice,
  with another card token, or for another amount is refused as a conflict, before any provider
  call and with nothing changed, provided SHA-256 tells the two canonical encodings apart, which
  always differ. The status of the refusal is 409.
\<close>

theorem pay_key_reuse:
  assumes "uuid_laws E" and "row \<in> set (db_keys d)" and "key_matches b key row"
    and "distinct (map (\<lambda>r. (ik_business_id r, ik_idempotency_key r)) (db_keys d))"
    and "ik_request_fingerprint row = fingerprint E i0 tok0 amt0"
    and "pay_read b i req d = Inr (st, amt)" and "(i, pr_card_token req, amt) \<noteq> (i0, tok0, amt0)"
    and "inj_on (sha256 E) {fingerprint_input E i (pr_card_token req) amt, fingerprint_input E i0 tok0 amt0}"
  shows "pay E psp dr b i key req d = (Inl key_reuse, d, []) \<and> he_status (into_response key_reuse) = 409"
proof -
  have "fetch_optional (key_matches b key) (db_keys d) = Some row"
    by (rule fetch_optional_unique) (use assms(2-4) in \<open>auto simp: key_matches_def distinct_map inj_on_def\<close>)
  moreover have "fingerprint_input E i (pr_card_token req) amt \<noteq> fingerprint_input E i0 tok0 amt0"
    using assms(7) fingerprint_input_inject [OF assms(1)] by auto
  then have "fingerprint E i (pr_card_token req) amt \<noteq> fingerprint E i0 tok0 amt0"
    using assms(8) by (auto simp: fingerprint_def dest: inj_onD)
  ultimately have "replay E b key (fingerprint E i (pr_card_token req) amt) i d = Inl key_reuse"
    using assms(5) by (simp add: replay_def)
  moreover have "pay_tx1 E t kid aid b i key tok st amt d = (ClaimReplay, d)" for t kid aid tok
    unfolding pay_tx1_Replay using assms(2,3) by blast
  ultimately show ?thesis
    using assms(6) by (simp add: pay_def he_status_into_response) (simp add: key_reuse_def)
qed

theorem pay_key_reuse_witness:
  "pay sample_ext (\<lambda>_ _ _. PspSucceeded ''ref'') sample_draws 1 3 ''k'' sample_pay
     (sample_open_db\<lparr>db_keys := [new_key_row 50 9 1 ''k'' (fingerprint sample_ext 3 ''tok_other'' 750) 8]\<rparr>)
   = (Inl key_reuse, sample_open_db\<lparr>db_keys := [new_key_row 50 9 1 ''k'' (fingerprint sample_ext 3 ''tok_other'' 750) 8]\<rparr>, [])"
proof -
  let ?row = "new_key_row 50 9 1 ''k'' (fingerprint sample_ext 3 ''tok_other'' 750) 8"
  let ?d = "sample_open_db\<lparr>db_keys := [?row]\<rparr>"
  have get: "invoice_get 1 3 ?d = Some sample_open"
    by (rule invoice_get_unique) (simp_all add: sample_open_db_def sample_open_def created_row_def)
  have "pay_read 1 3 sample_pay ?d = Inr (Open, 750)"
    using get sample_token sample_total by (simp add: pay_read_def sample_open_def)
  then have read: "pay_read 1 3 sample_pay ?d = Inr (Open, 750)" .
  have row: "?row \<in> set (db_keys ?d)" "key_matches 1 ''k'' ?row"
    "distinct (map (\<lambda>r. (ik_business_id r, ik_idempotency_key r)) (db_keys ?d))"
    "ik_request_fingerprint ?row = fingerprint sample_ext 3 ''tok_other'' 750"
    by (simp_all add: key_matches_def new_key_row_def)
  have "(3, pr_card_token sample_pay, 750) \<noteq> (3, ''tok_other'', 750)" by (simp add: sample_pay_def)
  then show ?thesis
    by (rule conjunct1 [OF pay_key_reuse [OF sample_uuid_laws row read]]) (simp add: sample_ext_def)
qed

text \<open>
  C21: when a payment must not start. Under a new key, an invoice that is not open is refused with
  its state named, and an open invoice with an attempt that is pending or succeeded is refused as
  in progress. In both cases no charge is sent and nothing is stored: the key stays free.
\<close>

theorem pay_refused:
  assumes "distinct (map inv_id (db_invoices d))" and "iv \<in> set (db_invoices d)" and "inv_id iv = i"
    and "inv_business_id iv = b" and "trim (pr_card_token req) \<noteq> []"
    and "\<forall>r \<in> set (db_keys d). \<not> key_matches b key r \<and> ik_id r \<noteq> pd_key_id dr"
  shows "(inv_state iv \<noteq> Open \<longrightarrow> pay E psp dr b i key req d = (Inl (not_payable (inv_state iv)), d, []))
    \<and> (inv_state iv = Open \<and> 0 \<le> sint (cents (inv_total_cents iv))
         \<and> (\<exists>a \<in> set (db_attempts d). pa_invoice_id a = i \<and> (pa_status a = Pending \<or> pa_status a = Succeeded))
        \<longrightarrow> pay E psp dr b i key req d = (Inl payment_in_progress, d, []))"
proof -
  have read: "pay_read b i req d = Inr (inv_state iv, cents (inv_total_cents iv))"
    using invoice_get_unique [OF assms(1-4)] assms(5) by (simp add: pay_read_def)
  have key: "\<exists>x. insert_key t (pd_key_id dr) b key fp d = Inr (Some (d\<lparr>db_keys := x\<rparr>))" for t fp
    using assms(6) by (auto simp: insert_key_def table_simps)
  have "pay_tx1 E t (pd_key_id dr) aid b i key tok (inv_state iv) amt d = (ClaimRejected (not_payable (inv_state iv)), d)"
    if "inv_state iv \<noteq> Open" for t aid tok amt
    using that key [of t "fingerprint E i tok amt"] by (auto simp: pay_tx1_def)
  moreover have "pay_tx1 E t (pd_key_id dr) aid b i key tok Open amt d = (ClaimRejected payment_in_progress, d)"
    if live: "0 \<le> sint amt" "\<exists>a \<in> set (db_attempts d). pa_invoice_id a = i \<and> active_attempt a" for t aid tok amt
  proof -
    obtain x where ins: "insert_key t (pd_key_id dr) b key (fingerprint E i tok amt) d = Inr (Some (d\<lparr>db_keys := x\<rparr>))"
      using key by blast
    have "exists_row (\<lambda>a. pa_invoice_id a = i \<and> active_attempt a) (db_attempts d)"
      using live(2) by (simp only: exists_row_iff)
    then have "insert_attempt t aid b i key amt tok (d\<lparr>db_keys := x\<rparr>) =
        Inl (unique_violation (if exists_row (\<lambda>a. pa_id a = aid) (db_attempts d) then ''payment_attempts_pkey''
          else ''uq_active_attempt_per_invoice''))"
      using live(1) by (simp add: insert_attempt_def)
    with ins show ?thesis by (simp add: pay_tx1_def)
  qed
  ultimately show ?thesis using read by (auto simp: pay_def active_attempt_def)
qed

theorem pay_refused_witness:
  "pay sample_ext (\<lambda>_ _ _. PspSucceeded ''ref'') sample_draws 1 3 ''k'' sample_pay
     (sample_open_db\<lparr>db_attempts := [new_attempt_row 50 8 1 3 ''other'' 750 ''tok_timeout'']\<rparr>)
   = (Inl payment_in_progress,
      sample_open_db\<lparr>db_attempts := [new_attempt_row 50 8 1 3 ''other'' 750 ''tok_timeout'']\<rparr>, [])"
proof -
  let ?d = "sample_open_db\<lparr>db_attempts := [new_attempt_row 50 8 1 3 ''other'' 750 ''tok_timeout'']\<rparr>"
  have "inv_id sample_open = 3" "inv_business_id sample_open = 1" "inv_state sample_open = Open"
    by (simp_all add: sample_open_def created_row_def)
  with pay_refused [where d = ?d and iv = sample_open and i = 3 and b = 1 and req = sample_pay and key = "''k''"
      and dr = sample_draws and E = sample_ext and psp = "\<lambda>_ _ _. PspSucceeded ''ref''"] sample_token sample_total
  show ?thesis by (simp add: sample_open_db_def empty_db_def new_attempt_row_def)
qed

end
