(* ===== verification/Routes.thy ===== *)
theory Routes
  imports Auth Customer_Service Payment_Service
begin

text \<open>
  \<^verbatim>\<open>routes/\<close> and \<open>build_app\<close> of \<^verbatim>\<open>lib.rs\<close>: the handlers behind the API-key middleware. A request is
  given after routing and extraction: one constructor per route, with the path parameters, query
  and body it carries. A handler returns the status and body or the error, the database, and the
  charges sent to the provider. Time, ids and random values are drawn from a record.
\<close>

section \<open>Requests and answers\<close>

datatype api_keys_request = CreateKey create_api_key_request | ListKeys | RevokeKey uuid

datatype customers_request =
    CreateCustomer create_customer_request
  | ListCustomers "i64 option" "string option"
  | GetCustomer uuid

datatype invoices_request =
    CreateInvoice create_invoice_request
  | ListInvoices "invoice_state option" "i64 option" "string option"
  | GetInvoice uuid
  | FinalizeInvoice uuid
  | VoidInvoice uuid
  | MarkUncollectible uuid
  | PayInvoice uuid "u8 list option" pay_request
  | GetAttempt uuid uuid

datatype webhooks_request =
    CreateEndpoint create_endpoint_request
  | ListEvents "i64 option" "string option"
  | ListDeliveries "string option"
  | Redeliver uuid

datatype api_request =
    ApiKeys api_keys_request
  | Customers customers_request
  | Invoices invoices_request
  | Webhooks webhooks_request

datatype api_body =
    Empty
  | KeyCreated create_api_key_response
  | KeyList "api_key_list_item list"
  | CustomerBody customer_response
  | CustomerPage "customer_response page"
  | InvoiceBody invoice_response
  | InvoicePage "invoice_response page"
  | AttemptBody payment_attempt_response
  | EndpointBody create_endpoint_response
  | EventPage "webhook_event_row page"
  | DeliveryList "webhook_delivery_row list"

record draws =
  dw_now :: timestamp
  dw_ids :: "nat \<Rightarrow> uuid"
  dw_random :: string
  dw_secret :: "u8 list"
  dw_pay :: pay_draws

type_synonym reply = "(app_error, nat \<times> api_body) result"

text \<open>A service result with its database, or the error and the database as it was.\<close>

definition commit :: "nat \<Rightarrow> ('a \<Rightarrow> api_body) \<Rightarrow> (app_error, 'a \<times> db) result \<Rightarrow> db \<Rightarrow> reply \<times> db" where
  "commit status body r d =
     (case r of Inl e \<Rightarrow> (Inl e, d) | Inr (x, d') \<Rightarrow> (Inr (status, body x), d'))"

section \<open>Handlers\<close>

fun api_keys_handler :: "ext \<Rightarrow> draws \<Rightarrow> uuid \<Rightarrow> api_keys_request \<Rightarrow> db \<Rightarrow> reply \<times> db" where
  "api_keys_handler E dr b (CreateKey req) d =
     (let env = (case ckq_env req of None \<Rightarrow> ''test'' | Some e \<Rightarrow> e);
          key = generate_key E env (dw_random dr)
      in commit 201 (\<lambda>i. KeyCreated \<lparr>ckr_id = i, ckr_prefix = gk_prefix key, ckr_key = gk_full key\<rparr>)
           (res_map_err from_sqlx (api_key_insert (dw_now dr) (dw_ids dr 0) b (ckq_name req) (gk_prefix key)
              (gk_key_hash key) (gk_last_four key) d)) d)"
| "api_keys_handler E dr b ListKeys d = (Inr (200, KeyList (api_key_list b d)), d)"
| "api_keys_handler E dr b (RevokeKey i) d =
     (let (found, d') = api_key_revoke (dw_now dr) b i d
      in if found then (Inr (204, Empty), d') else (Inl (NotFound ''no active api key with that id''), d'))"

fun customers_handler :: "ext \<Rightarrow> draws \<Rightarrow> uuid \<Rightarrow> customers_request \<Rightarrow> db \<Rightarrow> reply \<times> db" where
  "customers_handler E dr b (CreateCustomer req) d =
     commit 201 CustomerBody (customer_create E (dw_now dr) (dw_ids dr 0) b req d) d"
| "customers_handler E dr b (GetCustomer i) d =
     (res_map (\<lambda>c. (200, CustomerBody c)) (customer_service_get b i d), d)"
| "customers_handler E dr b (ListCustomers limit cursor) d =
     (Inr (200, CustomerPage (customer_service_list E b limit cursor d)), d)"

definition idempotency_key_of :: "ext \<Rightarrow> u8 list option \<Rightarrow> (app_error, string) result" where
  "idempotency_key_of E header =
     ok_or (Validation [new_field_error ''Idempotency-Key'' ''this header is required for payments''])
       (Option.bind header (\<lambda>h. Option.bind (header_to_str E h) (\<lambda>s.
          let t = trim s in if t = [] then None else Some t)))"

fun invoices_handler ::
  "ext \<Rightarrow> (string \<Rightarrow> i64 \<Rightarrow> string \<Rightarrow> psp_result) \<Rightarrow> draws \<Rightarrow> uuid \<Rightarrow> invoices_request \<Rightarrow> db
     \<Rightarrow> (reply \<times> db) \<times> charge_call list" where
  "invoices_handler E psp dr b (CreateInvoice req) d =
     (commit 201 InvoiceBody (invoice_create E (dw_now dr) (dw_ids dr) b req d) d, [])"
| "invoices_handler E psp dr b (GetInvoice i) d =
     ((res_map (\<lambda>r. (200, InvoiceBody r)) (invoice_service_get b i d), d), [])"
| "invoices_handler E psp dr b (ListInvoices st limit cursor) d =
     ((Inr (200, InvoicePage (invoice_service_list E b st limit cursor d)), d), [])"
| "invoices_handler E psp dr b (FinalizeInvoice i) d =
     (commit 200 InvoiceBody (finalize_invoice (dw_now dr) b i d) d, [])"
| "invoices_handler E psp dr b (VoidInvoice i) d =
     (commit 200 InvoiceBody (void_invoice (dw_now dr) b i d) d, [])"
| "invoices_handler E psp dr b (MarkUncollectible i) d =
     (commit 200 InvoiceBody (mark_uncollectible (dw_now dr) b i d) d, [])"
| "invoices_handler E psp dr b (PayInvoice i header req) d =
     (case idempotency_key_of E header of
        Inl e \<Rightarrow> ((Inl e, d), [])
      | Inr key \<Rightarrow>
          let (r, d', calls) = pay E psp (dw_pay dr) b i key req d
          in ((res_map (\<lambda>(status, resp). (status, AttemptBody resp)) r, d'), calls))"
| "invoices_handler E psp dr b (GetAttempt i a) d =
     ((res_map (\<lambda>r. (200, AttemptBody r)) (get_attempt b i a d), d), [])"

fun webhooks_handler :: "ext \<Rightarrow> draws \<Rightarrow> uuid \<Rightarrow> webhooks_request \<Rightarrow> db \<Rightarrow> reply \<times> db" where
  "webhooks_handler E dr b (CreateEndpoint req) d =
     commit 201 EndpointBody (register_endpoint E (dw_ids dr 0) (dw_secret dr) b req d) d"
| "webhooks_handler E dr b (ListEvents limit cursor) d =
     (Inr (200, EventPage (list_events E b limit cursor d)), d)"
| "webhooks_handler E dr b (ListDeliveries status) d = (Inr (200, DeliveryList (list_deliveries b status d)), d)"
| "webhooks_handler E dr b (Redeliver i) d =
     (case redeliver (dw_now dr) b i d of
        Inl e \<Rightarrow> (Inl e, d)
      | Inr d' \<Rightarrow> (Inr (202, Empty), d'))"

fun handle ::
  "ext \<Rightarrow> (string \<Rightarrow> i64 \<Rightarrow> string \<Rightarrow> psp_result) \<Rightarrow> draws \<Rightarrow> uuid \<Rightarrow> api_request \<Rightarrow> db
     \<Rightarrow> (reply \<times> db) \<times> charge_call list" where
  "handle E psp dr b (ApiKeys req) d = (api_keys_handler E dr b req d, [])"
| "handle E psp dr b (Customers req) d = (customers_handler E dr b req d, [])"
| "handle E psp dr b (Invoices req) d = invoices_handler E psp dr b req d"
| "handle E psp dr b (Webhooks req) d = (webhooks_handler E dr b req d, [])"

text \<open>The protected routes: the middleware first, then the handler with the business it found.\<close>

definition serve_request ::
  "ext \<Rightarrow> (string \<Rightarrow> i64 \<Rightarrow> string \<Rightarrow> psp_result) \<Rightarrow> draws \<Rightarrow> u8 list option \<Rightarrow> api_request \<Rightarrow> db
     \<Rightarrow> (reply \<times> db) \<times> charge_call list" where
  "serve_request E psp dr authorization req d =
     (case require_api_key E (dw_now dr) authorization d of
        Inl e \<Rightarrow> ((Inl e, d), [])
      | Inr b \<Rightarrow>
          (case auth_business_from_parts (Some b) of
             Inl e \<Rightarrow> ((Inl e, d), [])
           | Inr business \<Rightarrow> handle E psp dr business req d))"

section \<open>Lemmas: what a request of one business leaves alone\<close>

text \<open>\<open>others_same b d d'\<close>: the two databases agree on every row that belongs to another business.\<close>

definition foreign_item :: "uuid \<Rightarrow> db \<Rightarrow> line_item \<Rightarrow> bool" where
  "foreign_item b d li \<longleftrightarrow> (\<exists>iv \<in> set (db_invoices d). inv_id iv = li_invoice_id li \<and> inv_business_id iv \<noteq> b)"

definition others_same :: "uuid \<Rightarrow> db \<Rightarrow> db \<Rightarrow> bool" where
  "others_same b d d' \<longleftrightarrow>
     filter (\<lambda>k. ak_business_id k \<noteq> b) (db_api_keys d') = filter (\<lambda>k. ak_business_id k \<noteq> b) (db_api_keys d)
     \<and> filter (\<lambda>c. cu_business_id c \<noteq> b) (db_customers d') = filter (\<lambda>c. cu_business_id c \<noteq> b) (db_customers d)
     \<and> filter (\<lambda>iv. inv_business_id iv \<noteq> b) (db_invoices d') = filter (\<lambda>iv. inv_business_id iv \<noteq> b) (db_invoices d)
     \<and> filter (foreign_item b d) (db_line_items d') = filter (foreign_item b d) (db_line_items d)
     \<and> filter (\<lambda>a. pa_business_id a \<noteq> b) (db_attempts d') = filter (\<lambda>a. pa_business_id a \<noteq> b) (db_attempts d)
     \<and> filter (\<lambda>k. ik_business_id k \<noteq> b) (db_keys d') = filter (\<lambda>k. ik_business_id k \<noteq> b) (db_keys d)
     \<and> filter (\<lambda>p. ep_business_id p \<noteq> b) (db_endpoints d') = filter (\<lambda>p. ep_business_id p \<noteq> b) (db_endpoints d)
     \<and> filter (\<lambda>e. ev_business_id e \<noteq> b) (db_events d') = filter (\<lambda>e. ev_business_id e \<noteq> b) (db_events d)
     \<and> filter (\<lambda>w. wd_business_id w \<noteq> b) (db_deliveries d') = filter (\<lambda>w. wd_business_id w \<noteq> b) (db_deliveries d)"

lemma others_same_refl [simp]: "others_same b d d"
  by (simp add: others_same_def)

lemma filter_list_all2:
  "list_all2 (\<lambda>r r'. (Q r' \<longleftrightarrow> Q r) \<and> (Q r \<longrightarrow> r' = r)) t t' \<Longrightarrow> filter Q t' = filter Q t"
  by (induction rule: list_all2_induct) auto

lemma filter_update_where:
  assumes "\<And>r. P r \<Longrightarrow> \<not> Q r \<and> \<not> Q (f r)"
  shows "filter Q (update_where P f t) = filter Q t"
  by (rule filter_list_all2) (use assms in \<open>auto simp: list_all2_update_where\<close>)

lemma commit_others:
  assumes "\<And>x d'. r = Inr (x, d') \<Longrightarrow> others_same b d d'"
  shows "others_same b d (snd (commit status body r d))"
  using assms by (auto simp: commit_def split: sum.splits)

lemma api_keys_others: "others_same b d (snd (api_keys_handler E dr b req d))"
proof (cases req)
  case (CreateKey q)
  show ?thesis
    unfolding CreateKey api_keys_handler.simps Let_def
    by (rule commit_others) (auto simp: result_simps api_key_insert_def others_same_def split: if_splits)
next
  case (RevokeKey i)
  then show ?thesis
    by (auto simp: api_key_revoke_def Let_def others_same_def intro!: filter_update_where)
qed simp

lemma customers_others: "others_same b d (snd (customers_handler E dr b req d))"
proof (cases req)
  case (CreateCustomer q)
  show ?thesis
    unfolding CreateCustomer customers_handler.simps
    by (rule commit_others)
      (auto simp: customer_create_def Let_def customer_insert_Inr others_same_def split: if_splits sum.splits)
qed simp_all

lemma webhooks_others: "others_same b d (snd (webhooks_handler E dr b req d))"
proof (cases req)
  case (CreateEndpoint q)
  show ?thesis
    unfolding CreateEndpoint webhooks_handler.simps
    by (rule commit_others) (auto simp: register_endpoint_def others_same_def split: if_splits)
next
  case (Redeliver i)
  then show ?thesis
    by (auto simp: redeliver_def Let_def others_same_def intro!: filter_update_where split: sum.splits)
qed simp_all

lemma create_others:
  assumes "invoice_create E now new_ids b req d = Inr (r, d')"
  shows "others_same b d d'"
proof -
  have "create_tx E now new_ids b req d = Inr (r, d')" using assms by (simp add: invoice_create_Inr)
  then obtain m xs e where d': "d' = d\<lparr>db_invoices := db_invoices d @ [created_row now (new_ids 0) b (ci_customer_id req) m],
        db_line_items := db_line_items d @ xs, db_events := db_events d @ [e], db_event_seq := db_event_seq d + 1\<rparr>"
      and new: "\<forall>iv \<in> set (db_invoices d). inv_id iv \<noteq> new_ids 0" "\<forall>x \<in> set xs. li_invoice_id x = new_ids 0"
      and e: "ev_business_id e = b"
    using create_tx_frame by blast
  have "filter (foreign_item b d) xs = []" using new by (auto simp: filter_empty_conv foreign_item_def)
  then show ?thesis using e by (simp add: d' others_same_def created_row_def)
qed

lemma transition_others:
  assumes "service_transition now b i to d = Inr (r, d')"
  shows "others_same b d d'"
proof -
  obtain frm iv' where tr: "transition now b i frm to d = Inr (Some iv', d')"
    using assms by (auto simp: service_transition_def apply_transition_def result_simps)
  obtain t where t: "d' = d\<lparr>db_invoices := t\<rparr>"
      "list_all2 (\<lambda>r r'. if inv_id r = i \<and> inv_business_id r = b \<and> inv_state r = frm
        then transition_row now to r = Inr r' else r' = r) (db_invoices d) t"
    using transition_Inr [OF tr] by blast
  have "filter (\<lambda>iv. inv_business_id iv \<noteq> b) t = filter (\<lambda>iv. inv_business_id iv \<noteq> b) (db_invoices d)"
    by (rule filter_list_all2, rule list_all2_mono [OF t(2)]) (auto split: if_splits dest: transition_row_Inr)
  then show ?thesis by (simp add: t(1) others_same_def)
qed

lemma finalize_others:
  assumes "finalize_tx E now eid b i aid key amt res d = Inr (out, d')"
    and "\<forall>iv \<in> set (db_invoices d). inv_id iv = i \<longrightarrow> inv_business_id iv = b"
    and "\<forall>a \<in> set (db_attempts d). pa_id a = aid \<longrightarrow> pa_business_id a = b"
  shows "others_same b d d'"
proof -
  note rows = finalize_tx_rows [OF assms(1)]
  have "filter (\<lambda>a. pa_business_id a \<noteq> b) (db_attempts d') = filter (\<lambda>a. pa_business_id a \<noteq> b) (db_attempts d)"
    by (rule filter_list_all2, rule list.rel_mono_strong [OF rows(2)])
      (use assms(3) in \<open>cases res; auto simp: attempt_succeeded_def attempt_failed_def pending_attempt_def unknown_rel_def
        attempt_unknown_def result_simps split: if_splits\<close>)
  moreover have "filter (\<lambda>iv. inv_business_id iv \<noteq> b) (db_invoices d') = filter (\<lambda>iv. inv_business_id iv \<noteq> b) (db_invoices d)"
    by (rule filter_list_all2, rule list.rel_mono_strong [OF rows(3)])
      (use assms(2) in \<open>cases res; auto simp: paid_rel_def pay_invoice_row_def result_simps split: if_splits\<close>)
  moreover have "filter (\<lambda>k. ik_business_id k \<noteq> b) (db_keys d') = filter (\<lambda>k. ik_business_id k \<noteq> b) (db_keys d)"
    by (rule filter_list_all2, rule list.rel_mono_strong [OF rows(4)])
      (auto simp: key_rel_def completed_row_def key_matches_def)
  moreover have "ev_business_id (paid_event E now eid b i aid amt res d) = b" by (simp add: paid_event_def emitted_event_def)
  ultimately show ?thesis using rows(5,8) finalize_tx_other_tables [OF assms(1)] by (simp add: others_same_def)
qed

lemma others_same_trans:
  assumes "others_same b d d'" and "others_same b d' d''" and "db_invoices d' = db_invoices d"
  shows "others_same b d d''"
  using assms by (simp add: others_same_def foreign_item_def [abs_def])

lemma claim_others:
  "pay_tx1 E now kid aid b i key tok st amt d = (c, d') \<Longrightarrow> others_same b d d' \<and> db_invoices d' = db_invoices d"
  by (cases c) (auto simp: pay_tx1_Claimed pay_tx1_Replay others_same_def new_attempt_row_def new_key_row_def
      dest: pay_tx1_Rejected)

lemma pay_others:
  assumes "distinct (map inv_id (db_invoices d))" and "pay E psp dr b i key req d = (r, d', calls)"
  shows "others_same b d d'"
proof (cases "pay_read b i req d")
  case (Inl e)
  with assms(2) show ?thesis by (simp add: pay_def)
next
  case (Inr x)
  obtain st amt where read: "pay_read b i req d = Inr (st, amt)" using Inr by (cases x) auto
  then obtain iv where "invoice_get b i d = Some iv" by (auto simp: pay_read_def result_simps split: if_splits)
  then have iv: "iv \<in> set (db_invoices d)" "inv_id iv = i" "inv_business_id iv = b"
    by (auto simp: invoice_get_def dest: fetch_optional_SomeD)
  then have own: "\<forall>iv' \<in> set (db_invoices d). inv_id iv' = i \<longrightarrow> inv_business_id iv' = b"
    using assms(1) by (auto simp: distinct_map inj_on_def)
  obtain c d1 where tx: "pay_tx1 E (pd_claim_time dr) (pd_key_id dr) (pd_attempt_id dr) b i key (pr_card_token req) st amt d = (c, d1)"
    by fastforce
  note claim = claim_others [OF tx]
  show ?thesis
  proof (cases "\<exists>a out d2. c = Claimed a \<and> pay_finalize E (pd_finalize_time dr) (pd_event_id dr) b i a key amt
        (psp (pr_card_token req) amt key) d1 = Inr (out, d2)")
    case True
    then obtain a out d2 where fin: "c = Claimed a" "finalize_tx E (pd_finalize_time dr) (pd_event_id dr) b i a key amt
        (psp (pr_card_token req) amt key) d1 = Inr (out, d2)" by (auto simp: pay_finalize_def result_simps)
    have "\<forall>x \<in> set (db_attempts d1). pa_id x = a \<longrightarrow> pa_business_id x = b"
      using tx [unfolded fin(1) pay_tx1_Claimed] by (auto simp: new_attempt_row_def)
    with finalize_others [OF fin(2)] own claim have "others_same b d1 d2" by simp
    moreover have "d' = d2" using assms(2) read tx fin by (simp add: pay_def pay_finalize_def Let_def)
    ultimately show ?thesis using claim others_same_trans by blast
  next
    case False
    then have "d' = d1" using assms(2) read tx by (auto simp: pay_def Let_def split: claim.splits sum.splits)
    then show ?thesis using claim by simp
  qed
qed

lemma invoices_others:
  assumes "distinct (map inv_id (db_invoices d))"
  shows "others_same b d (snd (fst (invoices_handler E psp dr b req d)))"
proof (cases req)
  case (CreateInvoice q)
  show ?thesis unfolding CreateInvoice invoices_handler.simps fst_conv by (rule commit_others) (rule create_others)
next
  case (FinalizeInvoice i)
  show ?thesis unfolding FinalizeInvoice invoices_handler.simps fst_conv finalize_invoice_def
    by (rule commit_others) (rule transition_others)
next
  case (VoidInvoice i)
  show ?thesis unfolding VoidInvoice invoices_handler.simps fst_conv void_invoice_def
    by (rule commit_others) (rule transition_others)
next
  case (MarkUncollectible i)
  show ?thesis unfolding MarkUncollectible invoices_handler.simps fst_conv mark_uncollectible_def
    by (rule commit_others) (rule transition_others)
next
  case (PayInvoice i header q)
  then show ?thesis
    using pay_others [OF assms] by (auto simp: split_beta split: sum.splits) (metis prod.collapse)
qed simp_all

lemma keyset_select_subset: "x \<in> set (keyset_select key c n t) \<Longrightarrow> x \<in> set t"
  by (cases c) (auto simp: keyset_select_def dest!: in_set_takeD)

section \<open>Properties\<close>

text \<open>
  C26: tenants are kept apart. A request whose key is not accepted is answered 401, sends no
  charge and changes nothing. A request accepted for a business changes no API key, customer,
  invoice, line item, payment attempt, idempotency key, endpoint, event or delivery of any other
  business, whichever route it takes and whether it succeeds or fails.
\<close>

theorem tenant_write_isolation:
  assumes "distinct (map inv_id (db_invoices d))"
    and "serve_request E psp dr authorization req d = ((r, d'), calls)"
  shows "case require_api_key E (dw_now dr) authorization d of
      Inl _ \<Rightarrow> r = Inl Unauthorized \<and> he_status (into_response Unauthorized) = 401 \<and> d' = d \<and> calls = []
    | Inr b \<Rightarrow> others_same b d d'"
proof (cases "require_api_key E (dw_now dr) authorization d")
  case (Inl e)
  then show ?thesis
    using assms(2) require_api_key_Inl [OF Inl] by (simp add: serve_request_def he_status_into_response)
next
  case (Inr b)
  then have "d' = snd (fst (handle E psp dr b req d))" using assms(2) by (simp add: serve_request_def)
  then show ?thesis
    using Inr api_keys_others customers_others webhooks_others invoices_others [OF assms(1)] by (cases req) simp_all
qed

text \<open>A shop with a key and an open invoice; the request voids the invoice.\<close>

definition sample_api_draws :: draws where
  "sample_api_draws = \<lparr>dw_now = 200, dw_ids = (\<lambda>k. 30), dw_random = [], dw_secret = [], dw_pay = sample_draws\<rparr>"

definition sample_api_db :: db where
  "sample_api_db = sample_open_db\<lparr>db_api_keys := [sample_key_row]\<rparr>"

theorem tenant_write_isolation_witness:
  "\<exists>r d' calls. serve_request sample_ext (\<lambda>_ _ _. PspUnknown []) sample_api_draws
       (Some (as_bytes (''Bearer '' @ gk_full sample_key))) (Invoices (VoidInvoice 3)) sample_api_db = ((r, d'), calls)
     \<and> others_same 1 sample_api_db d'"
proof -
  let ?h = "Some (as_bytes (''Bearer '' @ gk_full sample_key))"
  have "distinct (map ak_prefix (db_api_keys sample_api_db))" by (simp add: sample_api_db_def)
  then have auth: "require_api_key sample_ext (dw_now sample_api_draws) ?h sample_api_db = Inr 1"
    unfolding require_api_key_unique [OF \<open>distinct (map ak_prefix (db_api_keys sample_api_db))\<close>]
    using bearer_sample by (simp add: sample_api_db_def sample_key_row_def key_active_def)
      (simp add: sample_key_def generate_key_def Let_def)
  obtain r d' calls where run: "serve_request sample_ext (\<lambda>_ _ _. PspUnknown []) sample_api_draws ?h (Invoices (VoidInvoice 3)) sample_api_db
      = ((r, d'), calls)" by (metis prod.collapse)
  have "distinct (map inv_id (db_invoices sample_api_db))" by (simp add: sample_api_db_def sample_open_db_def)
  from tenant_write_isolation [OF this run] auth run show ?thesis by auto
qed



end
