(* ===== verification/Reconciler.thy ===== *)
theory Reconciler
  imports Payment_Service
begin

text \<open>
  \<^verbatim>\<open>reconciler.rs\<close>: one tick leases a batch of due pending attempts and then, row by row, asks the
  provider again under the original key and applies the answer with the finalize transaction of
  the request path. \<open>locked\<close> are the rows other transactions hold, which \<^verbatim>\<open>SKIP LOCKED\<close> passes
  over; the transaction time and the event id of each row are drawn from \<open>draws\<close>.
\<close>

section \<open>Definitions\<close>

definition BATCH :: nat where "BATCH = 20"

record leased_row =
  jb_attempt :: uuid
  jb_invoice :: uuid
  jb_business :: uuid
  jb_key :: string
  jb_amount :: i64
  jb_token :: string

definition leased_row_of :: "payment_attempt \<Rightarrow> leased_row" where
  "leased_row_of a =
     \<lparr>jb_attempt = pa_id a, jb_invoice = pa_invoice_id a, jb_business = pa_business_id a,
      jb_key = pa_idempotency_key a, jb_amount = cents (pa_amount_cents a), jb_token = pa_card_token a\<rparr>"

definition poll_due :: "timestamp \<Rightarrow> payment_attempt \<Rightarrow> bool" where
  "poll_due now a \<longleftrightarrow> pa_status a = Pending
     \<and> (case pa_next_poll_at a of None \<Rightarrow> True | Some t \<Rightarrow> t \<le> now)"

text \<open>\<^verbatim>\<open>ORDER BY next_poll_at NULLS FIRST\<close>.\<close>

definition nulls_first :: "timestamp option \<Rightarrow> nat \<times> timestamp" where
  "nulls_first t = (case t of None \<Rightarrow> (0, 0) | Some t' \<Rightarrow> (1, t'))"

definition due_batch :: "(uuid \<Rightarrow> bool) \<Rightarrow> timestamp \<Rightarrow> db \<Rightarrow> payment_attempt list" where
  "due_batch locked now d =
     due_rows (\<lambda>a. nulls_first (pa_next_poll_at a)) BATCH
       (\<lambda>a. poll_due now a \<and> \<not> locked (pa_id a)) (db_attempts d)"

definition lease_row :: "timestamp \<Rightarrow> payment_attempt \<Rightarrow> payment_attempt" where
  "lease_row now a = a\<lparr>pa_next_poll_at := Some (now + seconds 30), pa_updated_at := now\<rparr>"

definition lease_batch :: "(uuid \<Rightarrow> bool) \<Rightarrow> timestamp \<Rightarrow> db \<Rightarrow> leased_row list \<times> db" where
  "lease_batch locked now d =
     (let batch = due_batch locked now d in
      (map leased_row_of batch,
       d\<lparr>db_attempts := update_where (\<lambda>a. pa_id a \<in> pa_id ` set batch) (lease_row now) (db_attempts d)\<rparr>))"

definition reconcile_row ::
  "ext \<Rightarrow> (string \<Rightarrow> i64 \<Rightarrow> string \<Rightarrow> psp_result) \<Rightarrow> timestamp \<times> uuid \<Rightarrow> leased_row \<Rightarrow> db \<Rightarrow> db" where
  "reconcile_row E psp draw row d =
     (case finalize_for_reconciler E (fst draw) (snd draw) (jb_business row) (jb_invoice row) (jb_attempt row)
             (jb_key row) (jb_amount row) (psp (jb_token row) (jb_amount row) (jb_key row)) d of
        Inl e \<Rightarrow> d
      | Inr d' \<Rightarrow> d')"

fun reconcile_rows ::
  "ext \<Rightarrow> (string \<Rightarrow> i64 \<Rightarrow> string \<Rightarrow> psp_result) \<Rightarrow> (timestamp \<times> uuid) list \<Rightarrow> leased_row list \<Rightarrow> db
     \<Rightarrow> charge_call list \<times> db" where
  "reconcile_rows E psp (draw # draws) (row # rows) d =
     (let (calls, d') = reconcile_rows E psp draws rows (reconcile_row E psp draw row d)
      in ((jb_token row, jb_amount row, jb_key row) # calls, d'))"
| "reconcile_rows E psp _ _ d = ([], d)"

definition tick ::
  "ext \<Rightarrow> (string \<Rightarrow> i64 \<Rightarrow> string \<Rightarrow> psp_result) \<Rightarrow> (timestamp \<times> uuid) list \<Rightarrow> (uuid \<Rightarrow> bool) \<Rightarrow> timestamp \<Rightarrow> db
     \<Rightarrow> charge_call list \<times> db" where
  "tick E psp draws locked now d =
     (let (rows, d') = lease_batch locked now d in reconcile_rows E psp draws rows d')"

section \<open>Lemmas\<close>

interpretation poll: leasing pa_id poll_due lease_row
  by unfold_locales (auto simp: lease_row_def poll_due_def)

lemma due_batch_due: "a \<in> set (due_batch locked now d) \<Longrightarrow> a \<in> set (db_attempts d) \<and> poll_due now a \<and> \<not> locked (pa_id a)"
  unfolding due_batch_def by (drule due_rows_due) simp

lemma due_batch_all:
  assumes "length (filter (\<lambda>a. poll_due now a \<and> \<not> locked (pa_id a)) (db_attempts d)) \<le> BATCH"
  shows "set (due_batch locked now d) = {a \<in> set (db_attempts d). poll_due now a \<and> \<not> locked (pa_id a)}"
  using due_rows_all [OF assms] by (simp add: due_batch_def)

lemma length_due_batch: "length (due_batch locked now d) \<le> BATCH"
  unfolding due_batch_def by (rule length_due_rows)

lemma finalize_definite_total:
  assumes "definite res" and "\<forall>iv \<in> set (db_invoices d). inv_state iv = Open \<longrightarrow> 0 \<le> inv_version iv \<and> inv_version iv < 2 ^ 31 - 1"
    and "\<forall>e \<in> set (db_events d). ev_id e \<noteq> eid"
  shows "\<exists>out d'. finalize_tx E now eid b i aid key amt res d = Inr (out, d')"
proof (cases res)
  case (PspSucceeded r)
  let ?t = "update_where (\<lambda>iv. inv_id iv = i \<and> inv_state iv = Open) (settled_invoice now (PspSucceeded r)) (db_invoices d)"
  have "try_update_where (\<lambda>iv. inv_id iv = i \<and> inv_state iv = Open) (pay_invoice_row now) (db_invoices d) = Inr ?t"
    by (rule try_update_where_total) (use assms(2) in \<open>auto simp: pay_invoice_row_def pg_int4_def\<close>)
  then have "list_all2 (paid_rel now i) (db_invoices d) ?t"
    by (simp only: try_update_where_Inr paid_rel_def [abs_def])
  with assms(3) show ?thesis unfolding PspSucceeded finalize_tx_Succeeded by blast
next
  case (PspDeclined c)
  with assms(3) show ?thesis unfolding PspDeclined finalize_tx_Declined by blast
qed (use assms(1) in simp)

text \<open>What a finalize leaves as it was, and what it does to the rows it is about.\<close>

lemma attempt_rel_facts:
  "attempt_rel now res aid a a' \<Longrightarrow> pa_id a' = pa_id a \<and> (pa_status a \<noteq> Pending \<longrightarrow> a' = a)
     \<and> (definite res \<and> pa_id a = aid \<longrightarrow> pa_status a' \<noteq> Pending)"
  by (cases res) (auto simp: pending_attempt_def attempt_succeeded_def attempt_failed_def unknown_rel_def
      attempt_unknown_def result_simps split: if_splits)

lemma invoice_rel_facts:
  "invoice_rel now res i iv iv' \<Longrightarrow> inv_id iv' = inv_id iv \<and> (inv_state iv' = Open \<longrightarrow> iv' = iv)
     \<and> (fst (outcome_response E i aid amt res) = 200 \<and> inv_id iv = i \<longrightarrow> inv_state iv' \<noteq> Open)"
  by (cases res) (auto simp: paid_rel_def pay_invoice_row_def result_simps split: if_splits)

lemma key_rel_facts:
  "key_rel E res out b key k k' \<Longrightarrow> (key_matches b' key' k' \<longleftrightarrow> key_matches b' key' k)
     \<and> (ik_status k = ''completed'' \<longrightarrow> ik_status k' = ''completed'')
     \<and> (definite res \<and> key_matches b key k \<longrightarrow> ik_status k' = ''completed'')"
  by (auto simp: key_rel_def completed_row_def key_matches_def)

text \<open>
  What a tick promises about an attempt: it is not pending any more, its key is completed, and
  its invoice is not open if the provider said yes. \<open>can_settle\<close> is what the loop needs of the
  database: open invoices can take one more version, and the event ids to come are unused.
\<close>

definition settled_in :: "(string \<Rightarrow> i64 \<Rightarrow> string \<Rightarrow> psp_result) \<Rightarrow> leased_row \<Rightarrow> db \<Rightarrow> bool" where
  "settled_in psp row d \<longleftrightarrow>
     (\<forall>a \<in> set (db_attempts d). pa_id a = jb_attempt row \<longrightarrow> pa_status a \<noteq> Pending)
     \<and> (\<forall>k \<in> set (db_keys d). key_matches (jb_business row) (jb_key row) k \<longrightarrow> ik_status k = ''completed'')
     \<and> (\<forall>iv \<in> set (db_invoices d). inv_id iv = jb_invoice row
          \<and> (\<exists>r. psp (jb_token row) (jb_amount row) (jb_key row) = PspSucceeded r) \<longrightarrow> inv_state iv \<noteq> Open)"

definition can_settle :: "uuid list \<Rightarrow> db \<Rightarrow> bool" where
  "can_settle ids d \<longleftrightarrow> distinct ids \<and> (\<forall>e \<in> set (db_events d). ev_id e \<notin> set ids)
     \<and> (\<forall>iv \<in> set (db_invoices d). inv_state iv = Open \<longrightarrow> 0 \<le> inv_version iv \<and> inv_version iv < 2 ^ 31 - 1)"

lemma finalize_can_settle:
  assumes "finalize_tx E now eid b i aid key amt res d = Inr (out, d')" and "can_settle (eid # ids) d"
  shows "can_settle ids d'"
proof -
  note rows = finalize_tx_rows [OF assms(1)]
  have "ev_id (paid_event E now eid b i aid amt res d) = eid" by (simp add: paid_event_def emitted_event_def)
  then have "\<forall>e \<in> set (db_events d'). ev_id e \<notin> set ids"
    using assms(2) unfolding rows(5) by (auto simp: can_settle_def)
  moreover have "0 \<le> inv_version iv \<and> inv_version iv < 2 ^ 31 - 1" if open_iv: "iv \<in> set (db_invoices d')" "inv_state iv = Open" for iv
  proof -
    obtain iv0 where "iv0 \<in> set (db_invoices d)" "invoice_rel now res i iv0 iv"
      using list_all2_back [OF rows(3) open_iv(1)] by blast
    then show ?thesis using invoice_rel_facts [of now res i iv0 iv] open_iv(2) assms(2) by (auto simp: can_settle_def)
  qed
  ultimately show ?thesis using assms(2) by (auto simp: can_settle_def)
qed

text \<open>A finalize settles its own row if the answer is definite, and keeps settled rows settled.\<close>

lemma finalize_settled_in:
  assumes "finalize_tx E now eid b i aid key amt res d = Inr (out, d')"
    and "settled_in psp row d \<or> definite res \<and> res = psp (jb_token row) (jb_amount row) (jb_key row)
      \<and> (b, i, aid, key) = (jb_business row, jb_invoice row, jb_attempt row, jb_key row)"
  shows "settled_in psp row d'"
  unfolding settled_in_def
proof (intro conjI ballI impI)
  note rows = finalize_tx_rows [OF assms(1)]
  show "pa_status a \<noteq> Pending" if mem: "a \<in> set (db_attempts d')" "pa_id a = jb_attempt row" for a
  proof -
    obtain a0 where "a0 \<in> set (db_attempts d)" "attempt_rel now res aid a0 a"
      using list_all2_back [OF rows(2) mem(1)] by blast
    then show ?thesis
      using attempt_rel_facts [of now res aid a0 a] assms(2) mem(2) by (auto simp: settled_in_def)
  qed
  show "ik_status k = ''completed''" if mem: "k \<in> set (db_keys d')" "key_matches (jb_business row) (jb_key row) k" for k
  proof -
    obtain k0 where "k0 \<in> set (db_keys d)" "key_rel E res out b key k0 k"
      using list_all2_back [OF rows(4) mem(1)] by blast
    then show ?thesis
      using key_rel_facts [of E res out b key k0 k "jb_business row" "jb_key row"] assms(2) mem(2)
      by (auto simp: settled_in_def)
  qed
  show "inv_state iv \<noteq> Open" if mem: "iv \<in> set (db_invoices d')"
      "inv_id iv = jb_invoice row \<and> (\<exists>r. psp (jb_token row) (jb_amount row) (jb_key row) = PspSucceeded r)" for iv
  proof -
    obtain iv0 where "iv0 \<in> set (db_invoices d)" "invoice_rel now res i iv0 iv"
      using list_all2_back [OF rows(3) mem(1)] by blast
    then show ?thesis
      using invoice_rel_facts [of now res i iv0 iv E aid amt] assms(2) mem(2) by (auto simp: settled_in_def)
  qed
qed

lemma reconcile_row_cases:
  "reconcile_row E psp draw row d = d \<or>
   (\<exists>out. finalize_tx E (fst draw) (snd draw) (jb_business row) (jb_invoice row) (jb_attempt row) (jb_key row)
      (jb_amount row) (psp (jb_token row) (jb_amount row) (jb_key row)) d = Inr (out, reconcile_row E psp draw row d))"
  by (auto simp: reconcile_row_def finalize_for_reconciler_def pay_finalize_def result_simps split: sum.splits)

lemma reconcile_row_definite:
  assumes "can_settle (snd draw # ids) d" and "definite (psp (jb_token row) (jb_amount row) (jb_key row))"
  shows "\<exists>out. finalize_tx E (fst draw) (snd draw) (jb_business row) (jb_invoice row) (jb_attempt row) (jb_key row)
      (jb_amount row) (psp (jb_token row) (jb_amount row) (jb_key row)) d = Inr (out, reconcile_row E psp draw row d)"
proof -
  have "\<exists>out d'. finalize_tx E (fst draw) (snd draw) (jb_business row) (jb_invoice row) (jb_attempt row) (jb_key row)
      (jb_amount row) (psp (jb_token row) (jb_amount row) (jb_key row)) d = Inr (out, d')"
    by (rule finalize_definite_total [OF assms(2)]) (use assms(1) in \<open>simp_all add: can_settle_def\<close>)
  then show ?thesis by (auto simp: reconcile_row_def finalize_for_reconciler_def pay_finalize_def)
qed

lemma reconcile_row_can_settle:
  "can_settle (snd draw # ids) d \<Longrightarrow> can_settle ids (reconcile_row E psp draw row d)"
proof -
  assume settle: "can_settle (snd draw # ids) d"
  then have "can_settle ids d" by (simp add: can_settle_def)
  then show "can_settle ids (reconcile_row E psp draw row d)"
    using reconcile_row_cases [of E psp draw row d] finalize_can_settle [OF _ settle] by metis
qed

lemma reconcile_rows_settle:
  assumes "can_settle (map snd draws) d" and "length rows \<le> length draws"
    and "settled_in psp row d \<or> row \<in> set rows \<and> definite (psp (jb_token row) (jb_amount row) (jb_key row))"
  shows "settled_in psp row (snd (reconcile_rows E psp draws rows d))"
  using assms
proof (induction E psp draws rows d rule: reconcile_rows.induct)
  case (1 E psp draw draws row' rows d)
  let ?d = "reconcile_row E psp draw row' d"
  have settle: "can_settle (snd draw # map snd draws) d" using "1.prems"(1) by simp
  have kept: "settled_in psp row ?d" if "settled_in psp row d"
    using reconcile_row_cases [of E psp draw row' d] finalize_settled_in that by metis
  have "settled_in psp row ?d" if "row = row'" "definite (psp (jb_token row) (jb_amount row) (jb_key row))"
    using reconcile_row_definite [OF settle, of psp row' E] finalize_settled_in [where psp = psp and row = row] that by blast
  then have "settled_in psp row (snd (reconcile_rows E psp draws rows ?d))"
    using "1.IH" reconcile_row_can_settle [OF settle] "1.prems"(2,3) kept by auto
  then show ?case by (simp add: split_beta Let_def)
qed auto

lemma reconcile_rows_calls:
  "length rows \<le> length draws \<Longrightarrow>
     fst (reconcile_rows E psp draws rows d) = map (\<lambda>r. (jb_token r, jb_amount r, jb_key r)) rows"
  by (induction E psp draws rows d rule: reconcile_rows.induct) (auto simp: split_beta Let_def)

section \<open>Properties\<close>

text \<open>
  The reconciler makes progress. One undisturbed tick asks the provider exactly once for each
  leased attempt, with the stored token, amount and key; and when at most a batch is due, every
  due attempt that no other transaction holds and whose provider answer is definite is settled:
  no longer pending, its idempotency key completed, and its invoice not open after a success.
\<close>

theorem tick_settles:
  assumes "can_settle (map snd draws) d" and "BATCH \<le> length draws"
    and "length (filter (\<lambda>a. poll_due now a \<and> \<not> locked (pa_id a)) (db_attempts d)) \<le> BATCH"
    and "a \<in> set (db_attempts d)" and "poll_due now a" and "\<not> locked (pa_id a)"
    and "definite (psp (pa_card_token a) (cents (pa_amount_cents a)) (pa_idempotency_key a))"
    and "tick E psp draws locked now d = (calls, d')"
  shows "calls = map (\<lambda>x. (pa_card_token x, cents (pa_amount_cents x), pa_idempotency_key x)) (due_batch locked now d)
     \<and> (\<forall>x \<in> set (db_attempts d'). pa_id x = pa_id a \<longrightarrow> pa_status x \<noteq> Pending)
     \<and> (\<forall>k \<in> set (db_keys d'). key_matches (pa_business_id a) (pa_idempotency_key a) k \<longrightarrow> ik_status k = ''completed'')
     \<and> (\<forall>iv \<in> set (db_invoices d'). inv_id iv = pa_invoice_id a
          \<and> (\<exists>r. psp (pa_card_token a) (cents (pa_amount_cents a)) (pa_idempotency_key a) = PspSucceeded r)
          \<longrightarrow> inv_state iv \<noteq> Open)"
proof -
  define rows where "rows = map leased_row_of (due_batch locked now d)"
  define d0 where "d0 = snd (lease_batch locked now d)"
  have run: "(calls, d') = reconcile_rows E psp draws rows d0"
    using assms(8) by (simp add: tick_def lease_batch_def Let_def rows_def d0_def)
  have len: "length rows \<le> length draws"
    using length_due_batch [of locked now d] assms(2) by (simp add: rows_def)
  have "can_settle (map snd draws) d0" using assms(1) by (simp add: d0_def lease_batch_def Let_def can_settle_def)
  moreover have "leased_row_of a \<in> set rows" using due_batch_all [OF assms(3)] assms(4-6) by (simp add: rows_def)
  ultimately have "settled_in psp (leased_row_of a) d'"
    using reconcile_rows_settle [OF _ len, of d0 psp "leased_row_of a" E] assms(7) run
    by (metis (no_types, lifting) leased_row_of_def leased_row.select_convs snd_conv)
  moreover have "calls = map (\<lambda>r. (jb_token r, jb_amount r, jb_key r)) rows"
    using reconcile_rows_calls [OF len, of E psp d0] run by (metis fst_conv)
  ultimately show ?thesis by (simp add: settled_in_def leased_row_of_def rows_def)
qed

definition sample_due :: payment_attempt where
  "sample_due = new_attempt_row 50 8 1 3 ''k'' 750 ''tok_success''"

definition sample_due_db :: db where
  "sample_due_db = sample_open_db\<lparr>db_attempts := [sample_due],
     db_keys := [new_key_row 50 9 1 ''k'' (fingerprint sample_ext 3 ''tok_success'' 750) 8]\<rparr>"

definition sample_tick_draws :: "(timestamp \<times> uuid) list" where
  "sample_tick_draws = map (\<lambda>n. (0, word_of_nat n)) [0..<20]"

lemma sample_can_settle: "can_settle (map snd sample_tick_draws) sample_due_db"
proof -
  have "map snd sample_tick_draws = map word_of_nat [0..<20]"
    unfolding sample_tick_draws_def map_map by (rule map_cong) auto
  moreover have "inj_on (word_of_nat :: nat \<Rightarrow> uuid) {0..<20}"
    by (rule inj_onI) (simp add: word_of_nat_eq_iff take_bit_nat_eq_self)
  ultimately have "distinct (map snd sample_tick_draws)" by (simp only: distinct_map distinct_upt set_upt)
  moreover have "inv_version sample_open = 1" by (simp add: sample_open_def)
  ultimately show ?thesis by (simp add: can_settle_def sample_due_db_def sample_open_db_def empty_db_def)
qed

theorem tick_settles_witness:
  "\<exists>calls d'. tick sample_ext (\<lambda>_ _ _. PspSucceeded ''ref'') sample_tick_draws (\<lambda>_. False) 60 sample_due_db = (calls, d')
     \<and> (\<forall>iv \<in> set (db_invoices d'). inv_id iv = 3 \<longrightarrow> inv_state iv \<noteq> Open)
     \<and> (\<forall>x \<in> set (db_attempts d'). pa_id x = 8 \<longrightarrow> pa_status x \<noteq> Pending)"
proof -
  let ?psp = "\<lambda>_ _ _. PspSucceeded ''ref''"
  obtain calls d' where run: "tick sample_ext ?psp sample_tick_draws (\<lambda>_. False) 60 sample_due_db = (calls, d')"
    by (cases "tick sample_ext ?psp sample_tick_draws (\<lambda>_. False) 60 sample_due_db")
  have "BATCH \<le> length sample_tick_draws" by (simp add: BATCH_def sample_tick_draws_def)
  moreover have "length (filter (\<lambda>a. poll_due 60 a \<and> \<not> False) (db_attempts sample_due_db)) \<le> BATCH"
    by (simp add: sample_due_db_def BATCH_def)
  moreover have "sample_due \<in> set (db_attempts sample_due_db)" "poll_due 60 sample_due"
    by (simp_all add: sample_due_db_def poll_due_def sample_due_def new_attempt_row_def)
  moreover have "pa_id sample_due = 8" "pa_invoice_id sample_due = 3" by (simp_all add: sample_due_def new_attempt_row_def)
  ultimately show ?thesis
    using tick_settles [OF sample_can_settle, of 60 "\<lambda>_. False" sample_due ?psp sample_ext calls d'] run by auto
qed

text \<open>
  Leases keep replicas apart. A leased batch has at most twenty attempts, each pending and
  due, and a second lease taken on the result within the next thirty seconds, whatever rows are
  locked at that time, contains none of them.
\<close>

theorem lease_disjoint:
  assumes "lease_batch locked now d = (rows, d1)" and "lease_batch locked' now' d1 = (rows', d2)"
    and "now' < now + seconds 30"
  shows "length rows \<le> 20 \<and> set (map jb_attempt rows) \<inter> set (map jb_attempt rows') = {}
     \<and> (\<forall>r \<in> set rows. \<exists>a \<in> set (db_attempts d). pa_id a = jb_attempt r \<and> pa_status a = Pending
          \<and> (pa_next_poll_at a = None \<or> the (pa_next_poll_at a) \<le> now))"
proof -
  let ?b = "due_batch locked now d"
  have rows: "rows = map leased_row_of ?b" "rows' = map leased_row_of (due_batch locked' now' d1)"
    and d1: "db_attempts d1 = update_where (\<lambda>a. pa_id a \<in> pa_id ` set ?b) (lease_row now) (db_attempts d)"
    using assms(1,2) by (auto simp: lease_batch_def Let_def)
  have ids: "set (map jb_attempt (map leased_row_of xs)) = pa_id ` set xs" for xs
    by (auto simp: leased_row_of_def)
  have "set (map jb_attempt rows) \<inter> set (map jb_attempt rows') = {}"
    unfolding rows ids due_batch_def by (rule poll.batches_disjoint [OF d1 [unfolded due_batch_def] assms(3)]) simp
  moreover have "\<exists>a \<in> set (db_attempts d). pa_id a = jb_attempt r \<and> pa_status a = Pending
          \<and> (pa_next_poll_at a = None \<or> the (pa_next_poll_at a) \<le> now)" if r: "r \<in> set rows" for r
  proof -
    obtain a where a: "a \<in> set ?b" "r = leased_row_of a" using r unfolding rows by auto
    with due_batch_due [OF a(1)] show ?thesis
      by (intro bexI [of _ a]) (auto simp: leased_row_of_def poll_due_def split: option.splits)
  qed
  ultimately show ?thesis using length_due_batch [of locked now d] by (simp add: rows BATCH_def)
qed

theorem lease_disjoint_witness:
  "\<exists>rows d1. lease_batch (\<lambda>_. False) 60 sample_due_db = (rows, d1) \<and> map jb_attempt rows = [8]
     \<and> 8 \<notin> set (map jb_attempt (fst (lease_batch (\<lambda>_. False) 61 d1)))"
proof -
  obtain rows d1 where l: "lease_batch (\<lambda>_. False) 60 sample_due_db = (rows, d1)" by fastforce
  then have "map jb_attempt rows = [8]"
    by (auto simp: lease_batch_def Let_def due_batch_def due_rows_def sample_due_db_def sample_due_def new_attempt_row_def
        poll_due_def BATCH_def leased_row_of_def)
  moreover obtain rows' d2 where "lease_batch (\<lambda>_. False) 61 d1 = (rows', d2)" by fastforce
  ultimately show ?thesis using lease_disjoint [OF l, of "\<lambda>_. False" 61] l by (auto simp: seconds_def)
qed

end
