(* ===== verification/Signing.thy ===== *)
theory Signing
  imports External
begin

text \<open>
  \<^verbatim>\<open>webhooks/signing.rs\<close>: the signature of a webhook body, over the timestamp, a dot and the body.
\<close>

section \<open>Definitions\<close>

definition signed_message :: "i64 \<Rightarrow> u8 list \<Rightarrow> u8 list" where
  "signed_message timestamp body = as_bytes (show_int (sint timestamp)) @ as_bytes ''.'' @ body"

definition sign :: "ext \<Rightarrow> u8 list \<Rightarrow> i64 \<Rightarrow> u8 list \<Rightarrow> string" where
  "sign E secret timestamp body = hex_encode E (hmac_sha256 E secret (signed_message timestamp body))"

definition signature_header :: "ext \<Rightarrow> u8 list \<Rightarrow> i64 \<Rightarrow> u8 list \<Rightarrow> string" where
  "signature_header E secret timestamp body =
     ''t='' @ show_int (sint timestamp) @ '',v1='' @ sign E secret timestamp body"

section \<open>Lemmas\<close>

lemma show_int_no: "c \<notin> insert CHR ''-'' (set ''0123456789'') \<Longrightarrow> c \<notin> set (show_int i)"
  by (rule contra_subsetD [OF show_int_subset])

lemma first_separator:
  "a @ x # b = a' @ x # b' \<Longrightarrow> x \<notin> set a \<Longrightarrow> x \<notin> set a' \<Longrightarrow> a = a' \<and> b = b'"
proof (induction a arbitrary: a')
  case Nil
  then show ?case by (cases a') auto
next
  case (Cons y a)
  then show ?case by (cases a') auto
qed

lemma signed_message_inject: "signed_message t body = signed_message t' body' \<longleftrightarrow> t = t' \<and> body = body'"
proof
  assume eq: "signed_message t body = signed_message t' body'"
  have dot: "as_bytes ''.'' = [word_of_nat 46]" by (simp add: as_bytes_def)
  have "(word_of_nat 46 :: u8) \<notin> set (as_bytes (show_int i))" for i
  proof
    assume "(word_of_nat 46 :: u8) \<in> set (as_bytes (show_int i))"
    then obtain c where "c \<in> set (show_int i)" "(word_of_nat (of_char c) :: u8) = word_of_nat (of_char CHR ''.'')"
      by (auto simp: as_bytes_def)
    then have "CHR ''.'' \<in> set (show_int i)" using inj_byte_of_char by (metis injD)
    moreover have "CHR ''.'' \<notin> set (show_int i)" by (rule show_int_no) simp
    ultimately show False by simp
  qed
  then have "as_bytes (show_int (sint t)) = as_bytes (show_int (sint t')) \<and> body = body'"
    using eq unfolding signed_message_def dot append_Cons append_Nil by (intro first_separator)
  then show "t = t' \<and> body = body'" by (auto dest: signed_word_eqI)
qed simp

section \<open>Properties\<close>

text \<open>
  A signature speaks for one timestamp and one body. The signed bytes determine both, so two
  deliveries signed with one secret have the same signature only if timestamp and body agree, as
  long as HMAC-SHA256 tells their messages apart; and the timestamp can be read back from the
  header.
\<close>

theorem signature_binds:
  assumes "hex_laws E" and "inj_on (hmac_sha256 E secret) {signed_message t body, signed_message t' body'}"
  shows "(sign E secret t body = sign E secret t' body' \<longleftrightarrow> t = t' \<and> body = body')
    \<and> Option.bind (strip_prefix ''t='' (signature_header E secret t body)) (split_once CHR '','')
        = Some (show_int (sint t), ''v1='' @ sign E secret t body)"
proof
  have "hex_encode E x = hex_encode E y \<longleftrightarrow> x = y" for x y
    using assms(1) by (metis hex_laws_def option.inject)
  then show "sign E secret t body = sign E secret t' body' \<longleftrightarrow> t = t' \<and> body = body'"
    using assms(2) signed_message_inject by (auto simp: sign_def inj_on_def)
  have "CHR '','' \<notin> set (show_int (sint t))" by (rule show_int_no) simp
  then show "Option.bind (strip_prefix ''t='' (signature_header E secret t body)) (split_once CHR '','')
        = Some (show_int (sint t), ''v1='' @ sign E secret t body)"
    by (simp add: signature_header_def strip_prefix_def split_once_append)
qed

theorem signature_binds_witness:
  "sign sample_ext [1, 2] 1700000000 [7] \<noteq> sign sample_ext [1, 2] 1700000001 [7]"
proof -
  have "inj_on (hmac_sha256 sample_ext [1, 2]) {signed_message 1700000000 [7], signed_message 1700000001 [7]}"
    by (auto simp: sample_ext_def inj_on_def)
  from signature_binds [OF sample_hex_laws this] show ?thesis by simp
qed

end
