(* ===== verification/Dispatcher.thy ===== *)
theory Dispatcher
  imports Webhook_Service Signing
begin

text \<open>
  \<^verbatim>\<open>webhooks/dispatcher.rs\<close>: fan-out of events to deliveries, the leased claim of a batch, sending,
  and the recording of outcomes with backoff. The receivers are a parameter that maps a POST to
  its result; random ids and the jitter are arguments. The sends of one batch run concurrently,
  each ends in one UPDATE of its own row; the model runs them in the order of the work list.
\<close>

section \<open>Fan-out\<close>

definition BATCH_DELIVERIES :: nat where "BATCH_DELIVERIES = 50"
definition BACKOFF_BASE_SECS :: u64 where "BACKOFF_BASE_SECS = 10"
definition BACKOFF_CAP_SECS :: u64 where "BACKOFF_CAP_SECS = 3600"

definition wants_event :: "webhook_endpoint \<Rightarrow> webhook_event \<Rightarrow> bool" where
  "wants_event ep e \<longleftrightarrow> ep_business_id ep = ev_business_id e \<and> ep_status ep = ''active''
     \<and> (ep_event_types ep = [] \<or> ev_event_type e \<in> set (ep_event_types ep))"

definition fan_out_rows :: "timestamp \<Rightarrow> db \<Rightarrow> (webhook_event \<times> webhook_endpoint) list" where
  "fan_out_rows now d =
     filter (\<lambda>(e, ep). wants_event ep e \<and> now - seconds 3600 < ev_created_at e)
       (List.product (db_events d) (db_endpoints d))"

definition new_delivery :: "timestamp \<Rightarrow> uuid \<Rightarrow> webhook_event \<Rightarrow> webhook_endpoint \<Rightarrow> webhook_delivery" where
  "new_delivery now new_id e ep =
     \<lparr>wd_id = new_id, wd_event_id = ev_id e, wd_endpoint_id = ep_id ep, wd_business_id = ev_business_id e,
      wd_status = ''pending'', wd_attempts = 0, wd_next_attempt_at = now, wd_locked_until = None,
      wd_last_status_code = None, wd_last_error = None, wd_last_attempt_at = None, wd_created_at = now,
      wd_updated_at = now\<rparr>"

text \<open>\<^verbatim>\<open>INSERT ... SELECT ... ON CONFLICT (event_id, endpoint_id) DO NOTHING\<close>, row by row.\<close>

fun insert_deliveries ::
  "timestamp \<Rightarrow> (nat \<Rightarrow> uuid) \<Rightarrow> nat \<Rightarrow> (webhook_event \<times> webhook_endpoint) list \<Rightarrow> webhook_delivery list
     \<Rightarrow> (sqlx_error, webhook_delivery list) result" where
  "insert_deliveries now new_ids n [] t = Inr t"
| "insert_deliveries now new_ids n ((e, ep) # rows) t =
     (if exists_row (\<lambda>w. wd_event_id w = ev_id e \<and> wd_endpoint_id w = ep_id ep) t then
        insert_deliveries now new_ids (Suc n) rows t
      else if exists_row (\<lambda>w. wd_id w = new_ids n) t then
        Inl (unique_violation ''webhook_deliveries_pkey'')
      else insert_deliveries now new_ids (Suc n) rows (t @ [new_delivery now (new_ids n) e ep]))"

definition fan_out :: "timestamp \<Rightarrow> (nat \<Rightarrow> uuid) \<Rightarrow> db \<Rightarrow> (sqlx_error, db) result" where
  "fan_out now new_ids d =
     res_map (\<lambda>t. d\<lparr>db_deliveries := t\<rparr>)
       (insert_deliveries now new_ids 0 (fan_out_rows now d) (db_deliveries d))"

section \<open>Claim\<close>

definition delivery_due :: "timestamp \<Rightarrow> webhook_delivery \<Rightarrow> bool" where
  "delivery_due now w \<longleftrightarrow>
     (wd_status w \<in> {''pending'', ''failed''} \<and> wd_next_attempt_at w \<le> now)
     \<or> (wd_status w = ''in_flight'' \<and> (case wd_locked_until w of None \<Rightarrow> False | Some t \<Rightarrow> t < now))"

definition claim_row :: "timestamp \<Rightarrow> webhook_delivery \<Rightarrow> webhook_delivery" where
  "claim_row now w =
     w\<lparr>wd_status := ''in_flight'', wd_locked_until := Some (now + seconds 30),
       wd_attempts := wd_attempts w + 1, wd_last_attempt_at := Some now, wd_updated_at := now\<rparr>"

definition try_claim_row :: "timestamp \<Rightarrow> webhook_delivery \<Rightarrow> (sqlx_error, webhook_delivery) result" where
  "try_claim_row now w = res_map (\<lambda>_. claim_row now w) (pg_int4 (wd_attempts w + 1))"

definition due_deliveries :: "(uuid \<Rightarrow> bool) \<Rightarrow> timestamp \<Rightarrow> db \<Rightarrow> webhook_delivery list" where
  "due_deliveries locked now d =
     due_rows wd_next_attempt_at BATCH_DELIVERIES (\<lambda>w. delivery_due now w \<and> \<not> locked (wd_id w)) (db_deliveries d)"

definition claim_batch ::
  "(uuid \<Rightarrow> bool) \<Rightarrow> timestamp \<Rightarrow> db \<Rightarrow> (sqlx_error, uuid list \<times> db) result" where
  "claim_batch locked now d =
     (let ids = map wd_id (due_deliveries locked now d) in
      res_map (\<lambda>t. (ids, d\<lparr>db_deliveries := t\<rparr>))
        (try_update_where (\<lambda>w. wd_id w \<in> set ids) (try_claim_row now) (db_deliveries d)))"

record work_item =
  wk_delivery :: uuid
  wk_attempts :: int
  wk_event :: uuid
  wk_payload :: json
  wk_url :: string
  wk_secret :: "u8 list"

text \<open>The hydrating join of the claimed deliveries with their event and endpoint.\<close>

definition hydrate :: "uuid list \<Rightarrow> db \<Rightarrow> work_item list" where
  "hydrate ids d =
     concat (map (\<lambda>w. concat (map (\<lambda>e. map (\<lambda>ep.
         \<lparr>wk_delivery = wd_id w, wk_attempts = wd_attempts w, wk_event = ev_id e, wk_payload = ev_payload e,
          wk_url = ep_url ep, wk_secret = ep_secret ep\<rparr>)
       (filter (\<lambda>ep. ep_id ep = wd_endpoint_id w) (db_endpoints d)))
       (filter (\<lambda>e. ev_id e = wd_event_id w) (db_events d))))
       (filter (\<lambda>w. wd_id w \<in> set ids) (db_deliveries d)))"

section \<open>Sending and recording\<close>

record webhook_post =
  po_url :: string
  po_headers :: "(string \<times> string) list"
  po_body :: "u8 list"

datatype post_result = PostStatus int | PostError string

definition webhook_request :: "ext \<Rightarrow> i64 \<Rightarrow> work_item \<Rightarrow> webhook_post" where
  "webhook_request E ts wk =
     (let body = json_to_vec E (wk_payload wk) in
      \<lparr>po_url = wk_url wk,
       po_headers = [(''Content-Type'', ''application/json''),
                     (''X-Webhook-Id'', uuid_to_string E (wk_event wk)),
                     (''X-Webhook-Signature'', signature_header E (wk_secret wk) ts body)],
       po_body = body\<rparr>)"

definition mark_succeeded :: "timestamp \<Rightarrow> uuid \<Rightarrow> int \<Rightarrow> db \<Rightarrow> db" where
  "mark_succeeded now i code d =
     d\<lparr>db_deliveries := update_where (\<lambda>w. wd_id w = i)
        (\<lambda>w. w\<lparr>wd_status := ''succeeded'', wd_last_status_code := Some code, wd_locked_until := None,
              wd_updated_at := now\<rparr>) (db_deliveries d)\<rparr>"

definition backoff_ceiling :: "int \<Rightarrow> u64" where
  "backoff_ceiling attempts =
     (let e = saturating_mul_u64 BACKOFF_BASE_SECS (shl_u64 1 (nat (max attempts 1 - 1)))
      in max (min e BACKOFF_CAP_SECS) 1)"

text \<open>\<open>jitter\<close> is the draw from \<^verbatim>\<open>0..=ceiling\<close>.\<close>

definition mark_failed ::
  "timestamp \<Rightarrow> u64 \<Rightarrow> int \<Rightarrow> uuid \<Rightarrow> int \<Rightarrow> int option \<Rightarrow> string \<Rightarrow> bool \<Rightarrow> db \<Rightarrow> db" where
  "mark_failed now jitter max_attempts i attempts code error non_retryable d =
     (if non_retryable \<or> max_attempts \<le> attempts then
        d\<lparr>db_deliveries := update_where (\<lambda>w. wd_id w = i)
           (\<lambda>w. w\<lparr>wd_status := ''dead'', wd_last_status_code := code, wd_last_error := Some error,
                 wd_locked_until := None, wd_updated_at := now\<rparr>) (db_deliveries d)\<rparr>
      else
        d\<lparr>db_deliveries := update_where (\<lambda>w. wd_id w = i)
           (\<lambda>w. w\<lparr>wd_status := ''failed'', wd_last_status_code := code, wd_last_error := Some error,
                 wd_next_attempt_at := now + seconds (int (unat jitter)), wd_locked_until := None,
                 wd_updated_at := now\<rparr>) (db_deliveries d)\<rparr>)"

definition is_success :: "int \<Rightarrow> bool" where
  "is_success code \<longleftrightarrow> 200 \<le> code \<and> code < 300"

definition fatal_code :: "int \<Rightarrow> bool" where
  "fatal_code code \<longleftrightarrow> (400 \<le> code \<and> code < 500) \<and> code \<noteq> 408 \<and> code \<noteq> 429"

definition send_one ::
  "ext \<Rightarrow> (webhook_post \<Rightarrow> post_result) \<Rightarrow> int \<Rightarrow> i64 \<Rightarrow> timestamp \<Rightarrow> u64 \<Rightarrow> work_item \<Rightarrow> db \<Rightarrow> db" where
  "send_one E post max_attempts ts now jitter wk d =
     (case post (webhook_request E ts wk) of
        PostStatus code \<Rightarrow>
          if is_success code then mark_succeeded now (wk_delivery wk) code d
          else mark_failed now jitter max_attempts (wk_delivery wk) (wk_attempts wk) (Some code)
                 ''non-2xx response'' (fatal_code code) d
      | PostError e \<Rightarrow>
          mark_failed now jitter max_attempts (wk_delivery wk) (wk_attempts wk) None e False d)"

text \<open>One batch: the clock and the jitter of the n-th send are drawn from \<open>draws\<close>.\<close>

definition deliver_batch ::
  "ext \<Rightarrow> (webhook_post \<Rightarrow> post_result) \<Rightarrow> int \<Rightarrow> (uuid \<Rightarrow> bool) \<Rightarrow> timestamp
     \<Rightarrow> (nat \<Rightarrow> i64 \<times> timestamp \<times> u64) \<Rightarrow> db \<Rightarrow> (sqlx_error, db) result" where
  "deliver_batch E post max_attempts locked now draws d =
     res_map (\<lambda>(ids, d1).
         fold (\<lambda>(n, wk) d'. let (ts, t, jitter) = draws n in send_one E post max_attempts ts t jitter wk d')
           (enumerate 0 (hydrate ids d1)) d1)
       (claim_batch locked now d)"

section \<open>Lemmas: fan-out\<close>

abbreviation pair_of :: "webhook_delivery \<Rightarrow> uuid \<times> uuid" where
  "pair_of w \<equiv> (wd_event_id w, wd_endpoint_id w)"

lemma insert_deliveries_Inr:
  assumes "insert_deliveries now new_ids n rows t = Inr t'"
  shows "\<exists>xs. t' = t @ xs
     \<and> (\<forall>(e, ep) \<in> set rows. \<exists>w \<in> set t'. pair_of w = (ev_id e, ep_id ep))
     \<and> (\<forall>w \<in> set xs. \<exists>(e, ep) \<in> set rows. \<exists>i. w = new_delivery now i e ep)
     \<and> (distinct (map pair_of t) \<longrightarrow> distinct (map pair_of t'))"
  using assms
proof (induction now new_ids n rows t rule: insert_deliveries.induct)
  case (2 now new_ids n e ep rows t)
  let ?P = "\<lambda>w. wd_event_id w = ev_id e \<and> wd_endpoint_id w = ep_id ep"
  show ?case
  proof (cases "exists_row ?P t")
    case True
    then obtain w where w: "w \<in> set t" "?P w" by (auto simp: table_simps)
    from "2.IH"(1) [OF True] "2.prems" True obtain xs where xs: "t' = t @ xs"
        "\<forall>(e, ep) \<in> set rows. \<exists>w \<in> set t'. pair_of w = (ev_id e, ep_id ep)"
        "\<forall>w \<in> set xs. \<exists>(e, ep) \<in> set rows. \<exists>i. w = new_delivery now i e ep"
        "distinct (map pair_of t) \<longrightarrow> distinct (map pair_of t')" by auto
    then show ?thesis using w by (intro exI [of _ xs]) auto
  next
    case False
    let ?w = "new_delivery now (new_ids n) e ep"
    have fresh: "\<not> exists_row (\<lambda>w. wd_id w = new_ids n) t" using "2.prems" False by (auto split: if_splits)
    have run: "insert_deliveries now new_ids (Suc n) rows (t @ [?w]) = Inr t'" using "2.prems" False fresh by simp
    from "2.IH"(2) [OF False fresh run] obtain xs where xs: "t' = (t @ [?w]) @ xs"
        "\<forall>(e, ep) \<in> set rows. \<exists>w \<in> set t'. pair_of w = (ev_id e, ep_id ep)"
        "\<forall>w \<in> set xs. \<exists>(e, ep) \<in> set rows. \<exists>i. w = new_delivery now i e ep"
        "distinct (map pair_of (t @ [?w])) \<longrightarrow> distinct (map pair_of t')"
      by blast
    have w: "?w \<in> set t'" "pair_of ?w = (ev_id e, ep_id ep)" using xs(1) by (simp_all add: new_delivery_def)
    have new: "pair_of ?w \<notin> pair_of ` set t" using False by (auto simp: table_simps new_delivery_def)
    show ?thesis
    proof (intro exI [of _ "?w # xs"] conjI)
      show "\<forall>x \<in> set (?w # xs). \<exists>(e, ep) \<in> set ((e, ep) # rows). \<exists>i. x = new_delivery now i e ep"
        using xs(3) by auto
      show "distinct (map pair_of t) \<longrightarrow> distinct (map pair_of t')" using xs(4) new by simp
      show "\<forall>(e', ep') \<in> set ((e, ep) # rows). \<exists>w \<in> set t'. pair_of w = (ev_id e', ep_id ep')"
        using xs(2) w by auto
    qed (simp add: xs(1))
  qed
qed simp

lemma insert_deliveries_covered:
  "\<forall>(e, ep) \<in> set rows. \<exists>w \<in> set t. pair_of w = (ev_id e, ep_id ep) \<Longrightarrow> insert_deliveries now new_ids n rows t = Inr t"
  by (induction rows arbitrary: n) (auto simp: table_simps)

lemma set_fan_out_rows:
  "(e, ep) \<in> set (fan_out_rows now d) \<longleftrightarrow>
     e \<in> set (db_events d) \<and> ep \<in> set (db_endpoints d) \<and> wants_event ep e \<and> now - seconds 3600 < ev_created_at e"
  by (auto simp: fan_out_rows_def)

text \<open>What a fan-out leaves behind: every matching pair once, and new rows that are such pairs.\<close>

lemma fan_out_Inr:
  assumes "distinct (map pair_of (db_deliveries d))" and "fan_out now new_ids d = Inr d'"
  obtains xs where "d' = d\<lparr>db_deliveries := db_deliveries d @ xs\<rparr>"
    and "\<forall>(e, ep) \<in> set (fan_out_rows now d). \<exists>w \<in> set (db_deliveries d'). pair_of w = (ev_id e, ep_id ep)"
    and "\<forall>w \<in> set xs. \<exists>(e, ep) \<in> set (fan_out_rows now d). \<exists>i. w = new_delivery now i e ep"
    and "distinct (map pair_of (db_deliveries d'))"
proof -
  obtain t where run: "insert_deliveries now new_ids 0 (fan_out_rows now d) (db_deliveries d) = Inr t" "d' = d\<lparr>db_deliveries := t\<rparr>"
    using assms(2) by (auto simp: fan_out_def result_simps)
  obtain xs where "t = db_deliveries d @ xs"
      "\<forall>(e, ep) \<in> set (fan_out_rows now d). \<exists>w \<in> set t. pair_of w = (ev_id e, ep_id ep)"
      "\<forall>w \<in> set xs. \<exists>(e, ep) \<in> set (fan_out_rows now d). \<exists>i. w = new_delivery now i e ep"
      "distinct (map pair_of t)"
    using insert_deliveries_Inr [OF run(1)] assms(1) by blast
  then show thesis using that [of xs] run(2) by simp
qed

lemma unique_pair:
  assumes "distinct (map pair_of t)" and "w \<in> set t" and "pair_of w = (i, j)"
  shows "\<exists>!w. w \<in> set t \<and> wd_event_id w = i \<and> wd_endpoint_id w = j"
  by (rule ex1I [of _ w]) (use assms in \<open>auto simp: distinct_map inj_on_def\<close>)

lemma new_delivery_fields:
  assumes "(e, ep) \<in> set (fan_out_rows now d)" and "w = new_delivery now i e ep"
  shows "wd_status w = ''pending'' \<and> wd_attempts w = 0 \<and> e \<in> set (db_events d) \<and> ep \<in> set (db_endpoints d) \<and> wants_event ep e
     \<and> wd_event_id w = ev_id e \<and> wd_endpoint_id w = ep_id ep \<and> wd_business_id w = ep_business_id ep"
proof -
  have "wants_event ep e" "e \<in> set (db_events d)" "ep \<in> set (db_endpoints d)" using assms(1) by (simp_all add: set_fan_out_rows)
  moreover have "ev_business_id e = ep_business_id ep" using calculation(1) by (simp add: wants_event_def)
  ultimately show ?thesis unfolding assms(2) new_delivery_def by simp
qed

lemma fan_out_covered:
  assumes "\<forall>(e, ep) \<in> set (fan_out_rows now d). \<exists>w \<in> set (db_deliveries d). pair_of w = (ev_id e, ep_id ep)" and "now \<le> now'"
  shows "fan_out now' new_ids d = Inr d"
proof -
  have "(e, ep) \<in> set (fan_out_rows now d)" if "(e, ep) \<in> set (fan_out_rows now' d)" for e ep
    using that assms(2) by (auto simp: set_fan_out_rows)
  then have "\<forall>(e, ep) \<in> set (fan_out_rows now' d). \<exists>w \<in> set (db_deliveries d). pair_of w = (ev_id e, ep_id ep)"
    using assms(1) by blast
  from insert_deliveries_covered [OF this] show ?thesis by (simp add: fan_out_def)
qed

section \<open>Lemmas: claims and sends\<close>

interpretation deliveries: leasing wd_id delivery_due claim_row
  by unfold_locales (auto simp: claim_row_def delivery_due_def)

lemma try_claim_row_Inr: "try_claim_row now w = Inr w' \<Longrightarrow> w' = claim_row now w"
  by (auto simp: try_claim_row_def result_simps)

lemma claim_batch_Inr:
  assumes "claim_batch locked now d = Inr (ids, d')"
  shows "ids = map wd_id (due_deliveries locked now d)
    \<and> d' = d\<lparr>db_deliveries := update_where (\<lambda>w. wd_id w \<in> wd_id ` set (due_deliveries locked now d)) (claim_row now)
               (db_deliveries d)\<rparr>"
proof -
  have "t' = update_where P (claim_row now) t" if "list_all2 (\<lambda>r r'. if P r then try_claim_row now r = Inr r' else r' = r) t t'" for P t t'
    using that by (induction rule: list_all2_induct) (auto simp: update_where_def dest: try_claim_row_Inr split: if_splits)
  then show ?thesis
    using assms by (auto simp: claim_batch_def Let_def result_simps try_update_where_Inr)
qed

text \<open>What a send does to the row of its delivery.\<close>

definition outcome_row ::
  "(webhook_post \<Rightarrow> post_result) \<Rightarrow> ext \<Rightarrow> int \<Rightarrow> i64 \<times> timestamp \<times> u64 \<Rightarrow> work_item \<Rightarrow> webhook_delivery \<Rightarrow> webhook_delivery" where
  "outcome_row post E max_attempts draw wk w =
     (let (ts, now, jitter) = draw; r = post (webhook_request E ts wk);
          code = (case r of PostStatus c \<Rightarrow> Some c | PostError _ \<Rightarrow> None);
          error = (case r of PostStatus _ \<Rightarrow> ''non-2xx response'' | PostError e \<Rightarrow> e);
          w' = w\<lparr>wd_last_status_code := code, wd_locked_until := None, wd_updated_at := now\<rparr> in
      if (case code of None \<Rightarrow> False | Some c \<Rightarrow> is_success c) then w'\<lparr>wd_status := ''succeeded''\<rparr>
      else if (case code of None \<Rightarrow> False | Some c \<Rightarrow> fatal_code c) \<or> max_attempts \<le> wk_attempts wk
        then w'\<lparr>wd_status := ''dead'', wd_last_error := Some error\<rparr>
      else w'\<lparr>wd_status := ''failed'', wd_last_error := Some error,
              wd_next_attempt_at := now + seconds (int (unat jitter))\<rparr>)"

lemma send_one_row:
  "send_one E post m ts now jitter wk d =
     d\<lparr>db_deliveries := update_where (\<lambda>w. wd_id w = wk_delivery wk) (outcome_row post E m (ts, now, jitter) wk) (db_deliveries d)\<rparr>"
proof -
  have "update_where P f t = update_where P g t" if "\<And>w. f w = g w" for P f g and t :: "webhook_delivery list"
    using that by (simp add: update_where_def)
  then show ?thesis
    by (auto simp: send_one_def mark_succeeded_def mark_failed_def outcome_row_def Let_def update_where_def
        split: post_result.splits)
qed

lemma outcome_row_facts:
  fixes m :: int
  assumes "r = post (webhook_request E ts wk)"
  shows "wd_locked_until (outcome_row post E m (ts, t, jitter) wk w) = None
    \<and> wd_status (outcome_row post E m (ts, t, jitter) wk w) = (case r of
          PostStatus c \<Rightarrow> if 200 \<le> c \<and> c < 300 then ''succeeded''
            else if (400 \<le> c \<and> c < 500 \<and> c \<noteq> 408 \<and> c \<noteq> 429) \<or> m \<le> wk_attempts wk then ''dead'' else ''failed''
        | PostError _ \<Rightarrow> if m \<le> wk_attempts wk then ''dead'' else ''failed'')
    \<and> (wd_status (outcome_row post E m (ts, t, jitter) wk w) = ''failed'' \<longrightarrow>
         wd_next_attempt_at (outcome_row post E m (ts, t, jitter) wk w) = t + seconds (int (unat jitter)))"
proof (cases r)
  case (PostStatus c)
  show ?thesis
    unfolding outcome_row_def Let_def prod.case assms [symmetric] PostStatus post_result.case option.case
    by (cases "is_success c"; cases "fatal_code c \<or> m \<le> wk_attempts wk") (simp_all add: is_success_def fatal_code_def)
next
  case (PostError e)
  show ?thesis
    unfolding outcome_row_def Let_def prod.case assms [symmetric] PostError post_result.case option.case
    by (cases "m \<le> wk_attempts wk") simp_all
qed

lemma outcome_row_id: "wd_id (outcome_row post E m draw wk w) = wd_id w" "wd_attempts (outcome_row post E m draw wk w) = wd_attempts w"
  by (auto simp: outcome_row_def Let_def split_beta)

text \<open>
  The sends of a batch, as updates of single rows: with different deliveries, each row gets the
  outcome of its own send.
\<close>

lemma fold_row_updates:
  assumes "k < length t" and "\<And>u w. wd_id (g u w) = wd_id w"
  shows "fold (\<lambda>u t. update_where (\<lambda>w. wd_id w = tgt u) (g u) t) us t ! k
     = fold g (filter (\<lambda>u. tgt u = wd_id (t ! k)) us) (t ! k)"
  using assms(1)
proof (induction us arbitrary: t)
  case (Cons u us)
  let ?t = "update_where (\<lambda>w. wd_id w = tgt u) (g u) t"
  have "fold (\<lambda>u t. update_where (\<lambda>w. wd_id w = tgt u) (g u) t) us ?t ! k
      = fold g (filter (\<lambda>u. tgt u = wd_id (?t ! k)) us) (?t ! k)"
    using Cons.prems by (intro Cons.IH) (simp add: length_update_where)
  moreover have "?t ! k = (if wd_id (t ! k) = tgt u then g u (t ! k) else t ! k)"
    using Cons.prems by (simp add: update_where_def)
  ultimately show ?case using assms(2) by simp
qed simp

lemma deliver_fold:
  "fold (\<lambda>(n, wk) d'. let (ts, t, jitter) = draws n in send_one E post m ts t jitter wk d') us d
     = d\<lparr>db_deliveries := fold (\<lambda>u t. update_where (\<lambda>w. wd_id w = wk_delivery (snd u))
           (outcome_row post E m (draws (fst u)) (snd u)) t) us (db_deliveries d)\<rparr>"
  by (induction us arbitrary: d) (auto simp: send_one_row split_beta Let_def)

lemma length_fold_updates: "length (fold (\<lambda>u t. update_where (P u) (g u) t) us t) = length t"
  by (induction us arbitrary: t) (simp_all add: length_update_where)

lemma filter_enumerate_single:
  assumes "filter P xs = [x]"
  shows "\<exists>n. filter (\<lambda>u. P (snd u)) (enumerate m xs) = [(n, x)]"
proof -
  have "map snd (filter (\<lambda>u. P (snd u)) (enumerate m xs)) = filter P xs" by (induction xs arbitrary: m) auto
  with assms show ?thesis by (auto simp: map_eq_Cons_conv)
qed

definition work_of :: "webhook_delivery \<Rightarrow> webhook_event \<Rightarrow> webhook_endpoint \<Rightarrow> work_item" where
  "work_of w e ep =
     \<lparr>wk_delivery = wd_id w, wk_attempts = wd_attempts w, wk_event = ev_id e, wk_payload = ev_payload e,
      wk_url = ep_url ep, wk_secret = ep_secret ep\<rparr>"

lemma filter_unique: "distinct (map f t) \<Longrightarrow> x \<in> set t \<Longrightarrow> f x = c \<Longrightarrow> filter (\<lambda>y. f y = c) t = [x]"
  by (induction t) (auto simp: filter_empty_conv, metis imageI)

lemma concat_map_if: "concat (map (\<lambda>x. if P x then f x else []) t) = concat (map f (filter P t))"
  by (induction t) auto

lemma hydrate_one:
  assumes "distinct (map wd_id (db_deliveries d))" and "distinct (map ev_id (db_events d))" and "distinct (map ep_id (db_endpoints d))"
    and "w \<in> set (db_deliveries d)" and "wd_id w \<in> set ids" and "e \<in> set (db_events d)" and "ev_id e = wd_event_id w"
    and "ep \<in> set (db_endpoints d)" and "ep_id ep = wd_endpoint_id w"
  shows "filter (\<lambda>wk. wk_delivery wk = wd_id w) (hydrate ids d) = [work_of w e ep]"
proof -
  let ?items = "\<lambda>w. concat (map (\<lambda>e. map (\<lambda>ep. work_of w e ep)
       (filter (\<lambda>ep. ep_id ep = wd_endpoint_id w) (db_endpoints d))) (filter (\<lambda>e. ev_id e = wd_event_id w) (db_events d)))"
  have "filter (\<lambda>wk. wk_delivery wk = wd_id w) (?items x) = (if wd_id x = wd_id w then ?items x else [])" for x
    by (auto simp: filter_concat comp_def work_of_def filter_map filter_False)
  then have "filter (\<lambda>wk. wk_delivery wk = wd_id w) (hydrate ids d)
      = concat (map (\<lambda>x. if wd_id x = wd_id w then ?items x else []) (filter (\<lambda>w. wd_id w \<in> set ids) (db_deliveries d)))"
    by (simp add: hydrate_def filter_concat comp_def flip: work_of_def)
  also have "\<dots> = concat (map ?items (filter (\<lambda>x. wd_id x = wd_id w) (filter (\<lambda>w. wd_id w \<in> set ids) (db_deliveries d))))"
    by (rule concat_map_if)
  also have "filter (\<lambda>x. wd_id x = wd_id w) (filter (\<lambda>w. wd_id w \<in> set ids) (db_deliveries d)) = [w]"
    by (rule filter_unique) (use assms(1,4,5) in \<open>auto simp: distinct_map_filter\<close>)
  also have "concat (map ?items [w]) = [work_of w e ep]"
    using filter_unique [OF assms(2,6,7)] filter_unique [OF assms(3,8,9)] by simp
  finally show ?thesis .
qed

text \<open>A batch gives a due delivery the outcome of its own send.\<close>

lemma deliver_batch_row:
  assumes "distinct (map wd_id (db_deliveries d))" "distinct (map ev_id (db_events d))" "distinct (map ep_id (db_endpoints d))"
    and "w \<in> set (due_deliveries locked now d)"
    and "e \<in> set (db_events d)" "ev_id e = wd_event_id w" "ep \<in> set (db_endpoints d)" "ep_id ep = wd_endpoint_id w"
    and "deliver_batch E post m locked now draws d = Inr d'"
  shows "\<exists>n k. k < length (db_deliveries d) \<and> length (db_deliveries d') = length (db_deliveries d) \<and> db_deliveries d ! k = w
     \<and> db_deliveries d' ! k = outcome_row post E m (draws n) (work_of (claim_row now w) e ep) (claim_row now w)"
proof -
  let ?I = "wd_id ` set (due_deliveries locked now d)"
  define d1 where "d1 = d\<lparr>db_deliveries := update_where (\<lambda>w. wd_id w \<in> ?I) (claim_row now) (db_deliveries d)\<rparr>"
  define ids where "ids = map wd_id (due_deliveries locked now d)"
  let ?w1 = "claim_row now w"
  obtain ids' d1' where claim: "claim_batch locked now d = Inr (ids', d1')"
      and d': "d' = fold (\<lambda>(n, wk) d'. let (ts, t, jitter) = draws n in send_one E post m ts t jitter wk d') (enumerate 0 (hydrate ids' d1')) d1'"
    using assms(9) by (auto simp: deliver_batch_def result_simps)
  have "ids' = ids" "d1' = d1" using claim_batch_Inr [OF claim] by (simp_all add: ids_def d1_def)
  then have fin: "db_deliveries d' = fold (\<lambda>u t. update_where (\<lambda>w. wd_id w = wk_delivery (snd u))
      (outcome_row post E m (draws (fst u)) (snd u)) t) (enumerate 0 (hydrate ids d1)) (db_deliveries d1)"
    unfolding d' deliver_fold by simp
  have mem: "w \<in> set (db_deliveries d)" using due_rows_due [OF assms(4) [unfolded due_deliveries_def]] by simp
  then obtain k where k: "k < length (db_deliveries d)" "db_deliveries d ! k = w" by (auto simp: in_set_conv_nth)
  have w1: "db_deliveries d1 ! k = ?w1" "k < length (db_deliveries d1)"
    using k assms(4) by (auto simp: d1_def update_where_def)
  have same: "wd_id ?w1 = wd_id w" "wd_event_id ?w1 = wd_event_id w" "wd_endpoint_id ?w1 = wd_endpoint_id w"
    "wd_attempts ?w1 = wd_attempts w + 1" by (simp_all add: claim_row_def)
  have "map wd_id (db_deliveries d1) = map wd_id (db_deliveries d)"
    by (simp add: d1_def update_where_def claim_row_def)
  then have hyd: "filter (\<lambda>wk. wk_delivery wk = wd_id ?w1) (hydrate ids d1) = [work_of ?w1 e ep]"
    using assms(1-8) w1 same nth_mem [OF w1(2)] by (intro hydrate_one) (auto simp: d1_def ids_def)
  obtain n where n: "filter (\<lambda>u. wk_delivery (snd u) = wd_id ?w1) (enumerate 0 (hydrate ids d1)) = [(n, work_of ?w1 e ep)]"
    using filter_enumerate_single [OF hyd, of 0] by blast
  have len: "length (db_deliveries d') = length (db_deliveries d)"
    unfolding fin by (simp add: length_fold_updates d1_def length_update_where)
  have row: "db_deliveries d' ! k = outcome_row post E m (draws n) (work_of ?w1 e ep) ?w1"
    unfolding fin using fold_row_updates [OF w1(2), of "\<lambda>u. outcome_row post E m (draws (fst u)) (snd u)" "\<lambda>u. wk_delivery (snd u)"
      "enumerate 0 (hydrate ids d1)"] n w1(1) by (simp add: outcome_row_id)
  show ?thesis using k len row by blast
qed

lemma backoff_ceiling_le: "1 \<le> unat (backoff_ceiling n) \<and> unat (backoff_ceiling n) \<le> 3600"
  by (auto simp: backoff_ceiling_def Let_def BACKOFF_CAP_SECS_def word_le_nat_alt min_def max_def)

section \<open>Properties\<close>

text \<open>
  C34: fan-out is complete, exact and idempotent. After it, every event of the last hour has
  exactly one delivery per active endpoint of its business that wants its type; every delivery
  it added is pending, unattempted, and joins an event and an endpoint of one business that
  match; earlier deliveries are untouched; and running it again, at any later time and with any
  ids, adds nothing.
\<close>

theorem fan_out_correct:
  assumes "distinct (map (\<lambda>w. (wd_event_id w, wd_endpoint_id w)) (db_deliveries d))" and "fan_out now new_ids d = Inr d'"
  shows "(\<forall>e \<in> set (db_events d). \<forall>ep \<in> set (db_endpoints d).
            wants_event ep e \<and> now - seconds 3600 < ev_created_at e \<longrightarrow>
            (\<exists>!w. w \<in> set (db_deliveries d') \<and> wd_event_id w = ev_id e \<and> wd_endpoint_id w = ep_id ep))
    \<and> (\<exists>xs. db_deliveries d' = db_deliveries d @ xs
         \<and> (\<forall>w \<in> set xs. wd_status w = ''pending'' \<and> wd_attempts w = 0
              \<and> (\<exists>e \<in> set (db_events d). \<exists>ep \<in> set (db_endpoints d). wants_event ep e
                   \<and> wd_event_id w = ev_id e \<and> wd_endpoint_id w = ep_id ep \<and> wd_business_id w = ep_business_id ep)))
    \<and> (now \<le> now' \<longrightarrow> fan_out now' new_ids' d' = Inr d')"
proof -
  obtain xs where d': "d' = d\<lparr>db_deliveries := db_deliveries d @ xs\<rparr>"
      and all: "\<forall>(e, ep) \<in> set (fan_out_rows now d). \<exists>w \<in> set (db_deliveries d'). pair_of w = (ev_id e, ep_id ep)"
      and new: "\<forall>w \<in> set xs. \<exists>(e, ep) \<in> set (fan_out_rows now d). \<exists>i. w = new_delivery now i e ep"
      and pairs: "distinct (map pair_of (db_deliveries d'))"
    using fan_out_Inr [OF assms] by blast
  have rows: "fan_out_rows now d' = fan_out_rows now d" by (simp add: d' fan_out_rows_def)
  show ?thesis
  proof (intro conjI ballI impI)
    fix e ep assume "e \<in> set (db_events d)" "ep \<in> set (db_endpoints d)" "wants_event ep e \<and> now - seconds 3600 < ev_created_at e"
    then have "(e, ep) \<in> set (fan_out_rows now d)" by (simp add: set_fan_out_rows)
    then obtain w where "w \<in> set (db_deliveries d')" "pair_of w = (ev_id e, ep_id ep)" using all by blast
    then show "\<exists>!w. w \<in> set (db_deliveries d') \<and> wd_event_id w = ev_id e \<and> wd_endpoint_id w = ep_id ep"
      using unique_pair [OF pairs] by blast
  next
    have "wd_status w = ''pending'' \<and> wd_attempts w = 0 \<and> (\<exists>e \<in> set (db_events d). \<exists>ep \<in> set (db_endpoints d). wants_event ep e
        \<and> wd_event_id w = ev_id e \<and> wd_endpoint_id w = ep_id ep \<and> wd_business_id w = ep_business_id ep)" if w: "w \<in> set xs" for w
    proof -
      obtain e ep i where "(e, ep) \<in> set (fan_out_rows now d)" "w = new_delivery now i e ep" using new w by blast
      from new_delivery_fields [OF this] show ?thesis by blast
    qed
    then show "\<exists>xs. db_deliveries d' = db_deliveries d @ xs
         \<and> (\<forall>w \<in> set xs. wd_status w = ''pending'' \<and> wd_attempts w = 0
              \<and> (\<exists>e \<in> set (db_events d). \<exists>ep \<in> set (db_endpoints d). wants_event ep e
                   \<and> wd_event_id w = ev_id e \<and> wd_endpoint_id w = ep_id ep \<and> wd_business_id w = ep_business_id ep))"
      by (intro exI [of _ xs]) (simp add: d')
  next
    assume "now \<le> now'"
    then show "fan_out now' new_ids' d' = Inr d'" using fan_out_covered [of now d'] all unfolding rows by blast
  qed
qed

text \<open>One event, one endpoint, and the database that holds them.\<close>

definition sample_event :: webhook_event where
  "sample_event = \<lparr>ev_id = 7, ev_business_id = 1, ev_event_type = ''invoice.paid'', ev_aggregate_id = 3,
     ev_payload = JNull, ev_sequence = 1, ev_created_at = 50\<rparr>"

definition sample_endpoint :: webhook_endpoint where
  "sample_endpoint = \<lparr>ep_id = 6, ep_business_id = 1, ep_url = ''https://x'', ep_secret = [1], ep_event_types = [],
     ep_status = ''active''\<rparr>"

definition sample_hook_db :: db where
  "sample_hook_db = empty_db\<lparr>db_events := [sample_event], db_endpoints := [sample_endpoint]\<rparr>"

lemma sample_wants: "wants_event sample_endpoint sample_event"
  by (simp add: wants_event_def sample_endpoint_def sample_event_def)

theorem fan_out_correct_witness:
  "\<exists>d'. fan_out 60 (\<lambda>_. 9) sample_hook_db = Inr d'
     \<and> (\<exists>!w. w \<in> set (db_deliveries d') \<and> wd_event_id w = 7 \<and> wd_endpoint_id w = 6)
     \<and> fan_out 61 (\<lambda>_. 10) d' = Inr d'"
proof -
  have rows: "fan_out_rows 60 sample_hook_db = [(sample_event, sample_endpoint)]"
    by (simp add: fan_out_rows_def sample_hook_db_def sample_wants) (simp add: sample_event_def seconds_def)
  obtain d' where d': "fan_out 60 (\<lambda>_. 9) sample_hook_db = Inr d'"
    by (simp add: fan_out_def rows) (simp add: sample_hook_db_def empty_db_def table_simps)
  have "distinct (map (\<lambda>w. (wd_event_id w, wd_endpoint_id w)) (db_deliveries sample_hook_db))"
    by (simp add: sample_hook_db_def empty_db_def)
  note correct = fan_out_correct [OF this d', of 61 "\<lambda>_. 10"]
  have "(sample_event, sample_endpoint) \<in> set (fan_out_rows 60 sample_hook_db)" by (simp add: rows)
  then have "\<exists>!w. w \<in> set (db_deliveries d') \<and> wd_event_id w = ev_id sample_event \<and> wd_endpoint_id w = ep_id sample_endpoint"
    using correct unfolding set_fan_out_rows by blast
  moreover have "ev_id sample_event = 7" "ep_id sample_endpoint = 6" by (simp_all add: sample_event_def sample_endpoint_def)
  ultimately show ?thesis using d' correct by auto
qed

text \<open>
  C35: what one batch does with a due delivery. It is sent once, its attempts go up by one and its
  lease is cleared; it ends succeeded on a 2xx, dead on a 4xx other than 408 and 429 or when its
  attempts are used up, and failed otherwise, due again within an hour.
\<close>

theorem deliver_batch_outcome:
  assumes "distinct (map wd_id (db_deliveries d))" "distinct (map ev_id (db_events d))" "distinct (map ep_id (db_endpoints d))"
    and "w \<in> set (due_deliveries locked now d)"
    and "e \<in> set (db_events d)" "ev_id e = wd_event_id w" "ep \<in> set (db_endpoints d)" "ep_id ep = wd_endpoint_id w"
    and "\<forall>n. snd (snd (draws n)) \<le> backoff_ceiling (wd_attempts w + 1)"
    and "deliver_batch E post m locked now draws d = Inr d'"
  shows "\<exists>n k. k < length (db_deliveries d) \<and> length (db_deliveries d') = length (db_deliveries d) \<and> db_deliveries d ! k = w \<and>
     (let w' = db_deliveries d' ! k; (ts, t, jitter) = draws n;
          r = post (webhook_request E ts (work_of (claim_row now w) e ep)) in
      wd_id w' = wd_id w \<and> wd_attempts w' = wd_attempts w + 1 \<and> wd_locked_until w' = None
      \<and> wd_status w' = (case r of
          PostStatus c \<Rightarrow> if 200 \<le> c \<and> c < 300 then ''succeeded''
            else if (400 \<le> c \<and> c < 500 \<and> c \<noteq> 408 \<and> c \<noteq> 429) \<or> m \<le> wd_attempts w + 1 then ''dead'' else ''failed''
        | PostError _ \<Rightarrow> if m \<le> wd_attempts w + 1 then ''dead'' else ''failed'')
      \<and> (wd_status w' = ''failed'' \<longrightarrow> t \<le> wd_next_attempt_at w' \<and> wd_next_attempt_at w' \<le> t + seconds 3600))"
proof -
  obtain n k where row: "k < length (db_deliveries d)" "length (db_deliveries d') = length (db_deliveries d)" "db_deliveries d ! k = w"
      "db_deliveries d' ! k = outcome_row post E m (draws n) (work_of (claim_row now w) e ep) (claim_row now w)"
    using deliver_batch_row [OF assms(1-8,10)] by blast
  obtain ts t j where dn: "draws n = (ts, t, j)" by (cases "draws n") auto
  let ?w1 = "claim_row now w"
  have same: "wd_id ?w1 = wd_id w" "wd_attempts ?w1 = wd_attempts w + 1" by (simp_all add: claim_row_def)
  have att: "wk_attempts (work_of ?w1 e ep) = wd_attempts w + 1" by (simp add: work_of_def same)
  have "j \<le> backoff_ceiling (wd_attempts w + 1)" using assms(9) dn by (metis snd_conv)
  then have "unat j \<le> unat (backoff_ceiling (wd_attempts w + 1))" unfolding word_le_nat_alt .
  then have "int (unat j) \<le> 3600" using backoff_ceiling_le [of "wd_attempts w + 1"] by linarith
  then have later: "t \<le> t + seconds (int (unat j)) \<and> t + seconds (int (unat j)) \<le> t + seconds 3600"
    unfolding seconds_def by linarith
  show ?thesis
    using row outcome_row_id [of post E m "draws n" "work_of ?w1 e ep" ?w1] same later
      outcome_row_facts [where E = E and m = m and t = t and jitter = j and w = ?w1, OF refl, of post ts "work_of ?w1 e ep"]
    unfolding dn att by (intro exI [of _ n] exI [of _ k]) (simp add: dn)
qed

theorem deliver_batch_outcome_witness:
  "\<exists>d'. deliver_batch sample_ext (\<lambda>_. PostStatus 404) 8 (\<lambda>_. False) 70 (\<lambda>_. (0, 71, 0))
        (sample_hook_db\<lparr>db_deliveries := [new_delivery 60 9 sample_event sample_endpoint]\<rparr>) = Inr d'
     \<and> wd_status (db_deliveries d' ! 0) = ''dead'' \<and> wd_attempts (db_deliveries d' ! 0) = 1"
proof -
  let ?w = "new_delivery 60 9 sample_event sample_endpoint"
  let ?d = "sample_hook_db\<lparr>db_deliveries := [?w]\<rparr>"
  have due: "due_deliveries (\<lambda>_. False) 70 ?d = [?w]"
    by (simp add: due_deliveries_def due_rows_def BATCH_DELIVERIES_def delivery_due_def new_delivery_def)
  have att: "wd_attempts ?w = 0" by (simp add: new_delivery_def)
  obtain d' where d': "deliver_batch sample_ext (\<lambda>_. PostStatus 404) 8 (\<lambda>_. False) 70 (\<lambda>_. (0, 71, 0)) ?d = Inr d'"
    by (simp add: deliver_batch_def claim_batch_def due try_claim_row_def pg_int4_def att)
  have "ev_id sample_event = wd_event_id ?w" "ep_id sample_endpoint = wd_endpoint_id ?w" by (simp_all add: new_delivery_def)
  then have "\<exists>n k. k < length (db_deliveries ?d) \<and> wd_status (db_deliveries d' ! k) = ''dead'' \<and> wd_attempts (db_deliveries d' ! k) = 1"
    using deliver_batch_outcome [where w = ?w and e = sample_event and ep = sample_endpoint, OF _ _ _ _ _ _ _ _ _ d'] att due
    by (simp add: sample_hook_db_def Let_def word_le_nat_alt)
  then show ?thesis using d' by auto
qed

text \<open>
  C36: the backoff. The delay ceiling after n attempts is ten seconds doubled n - 1 times, capped
  at an hour, for every n up to 64, and never zero or above an hour; the shift by n - 1 wraps at
  64, so the ceiling after 65 attempts is ten seconds again.
\<close>

theorem backoff_bounds:
  "1 \<le> unat (backoff_ceiling n) \<and> unat (backoff_ceiling n) \<le> 3600
   \<and> (1 \<le> n \<and> n \<le> 64 \<longrightarrow> unat (backoff_ceiling n) = min 3600 (10 * 2 ^ nat (n - 1)))
   \<and> unat (backoff_ceiling 65) = 10"
proof -
  have "unat (backoff_ceiling n) = min 3600 (10 * 2 ^ nat (n - 1))" if "1 \<le> n" "n \<le> 64"
  proof -
    let ?s = "shl_u64 1 (nat (max n 1 - 1))"
    have s: "unat ?s = 2 ^ nat (n - 1)" using that by (subst unat_shl_one) (auto simp: max_def)
    have "unat (saturating_mul_u64 BACKOFF_BASE_SECS ?s) = min (10 * 2 ^ nat (n - 1)) (2 ^ 64 - 1)"
      unfolding unat_saturating_mul s by (simp add: BACKOFF_BASE_SECS_def)
    moreover have "unat (min x y) = min (unat x) (unat y)" "unat (max x y) = max (unat x) (unat y)" for x y :: u64
      by (simp_all add: min_def max_def word_le_nat_alt)
    ultimately have "unat (backoff_ceiling n) = max (min (min (10 * 2 ^ nat (n - 1)) (2 ^ 64 - 1)) 3600) 1"
      by (simp add: backoff_ceiling_def Let_def BACKOFF_CAP_SECS_def)
    moreover have "max (min (min (10 * p) (2 ^ 64 - 1)) 3600) 1 = min 3600 (10 * p)" if "1 \<le> p" for p :: nat
      using that by (simp add: min_def max_def)
    ultimately show ?thesis by simp
  qed
  moreover have "unat (backoff_ceiling 65) = 10"
    by (simp add: backoff_ceiling_def Let_def BACKOFF_CAP_SECS_def BACKOFF_BASE_SECS_def shl_u64_def saturating_mul_u64_def)
  ultimately show ?thesis using backoff_ceiling_le [of n] by auto
qed

theorem backoff_bounds_witness: "unat (backoff_ceiling 5) = 160"
  using backoff_bounds [of 5] by (simp add: min_def)

text \<open>
  Claims keep dispatcher replicas apart. Two batches claimed one after the other within
  thirty seconds have no delivery in common, whatever else is locked.
\<close>

theorem claim_disjoint:
  assumes "claim_batch locked now d = Inr (ids, d1)" and "claim_batch locked' now' d1 = Inr (ids', d2)"
    and "now' < now + seconds 30"
  shows "length ids \<le> 50 \<and> set ids \<inter> set ids' = {}"
proof -
  note c1 = claim_batch_Inr [OF assms(1)] and c2 = claim_batch_Inr [OF assms(2)]
  have "db_deliveries d1 = update_where (\<lambda>w. wd_id w \<in> wd_id ` set (due_deliveries locked now d)) (claim_row now) (db_deliveries d)"
    using c1 by simp
  note d1 = this
  have "wd_id ` set (due_deliveries locked now d) \<inter> wd_id ` set (due_deliveries locked' now' d1) = {}"
    unfolding due_deliveries_def
    by (rule deliveries.batches_disjoint [OF d1 [unfolded due_deliveries_def] assms(3)]) simp
  moreover have "length (due_deliveries locked now d) \<le> 50"
    using length_due_rows unfolding due_deliveries_def BATCH_DELIVERIES_def .
  ultimately show ?thesis using c1 c2 by simp
qed

theorem claim_disjoint_witness:
  "\<exists>d1. claim_batch (\<lambda>_. False) 70 (sample_hook_db\<lparr>db_deliveries := [new_delivery 60 9 sample_event sample_endpoint]\<rparr>)
        = Inr ([9], d1)
     \<and> claim_batch (\<lambda>_. False) 71 d1 = Inr ([], d1)"
proof -
  let ?w = "new_delivery 60 9 sample_event sample_endpoint"
  let ?d = "sample_hook_db\<lparr>db_deliveries := [?w]\<rparr>"
  have w: "wd_id ?w = 9" "wd_attempts ?w = 0" by (simp_all add: new_delivery_def)
  have due: "due_deliveries (\<lambda>_. False) 70 ?d = [?w]"
    by (simp add: due_deliveries_def due_rows_def BATCH_DELIVERIES_def delivery_due_def new_delivery_def)
  define d1 where "d1 = ?d\<lparr>db_deliveries := [claim_row 70 ?w]\<rparr>"
  have c1: "claim_batch (\<lambda>_. False) 70 ?d = Inr ([9], d1)"
    by (simp add: claim_batch_def due w try_claim_row_def pg_int4_def d1_def)
  have due1: "due_deliveries (\<lambda>_. False) 71 d1 = []"
    by (simp add: due_deliveries_def due_rows_def d1_def delivery_due_def claim_row_def seconds_def)
  have c2: "claim_batch (\<lambda>_. False) 71 d1 = Inr ([], d1)"
    unfolding claim_batch_def due1 Let_def by (simp add: d1_def)
  have "set [9 :: uuid] \<inter> set [] = {}" using claim_disjoint [OF c1 c2] by simp
  with c1 c2 show ?thesis by blast
qed

end
