(* ===== verification/Transactions.thy ===== *)
theory Transactions
  imports Routes Reconciler Dispatcher
begin

text \<open>
  The transactions of the service. Every write of the program happens in one of the transactions
  listed here, whichever request, tick or replica runs it. The locale \<open>requests\<close> carries a relation
  on databases from what the handlers call to whole requests; the locale \<open>transactional\<close> carries it
  from the single transactions, with the facts the code has read before as guards, to requests,
  reconciler ticks and dispatcher batches. \<open>txn\<close> is the least such step relation: its runs are all
  interleavings of transactions.
\<close>

section \<open>What a transaction relies on\<close>

text \<open>
  The guards: facts a request or tick has read before it writes. Rows are never deleted and the
  columns the guards mention never change, so a guard that was read once still holds later.
\<close>

definition authorised :: "uuid \<Rightarrow> db \<Rightarrow> bool" where
  "authorised b d \<longleftrightarrow> (\<exists>k \<in> set (db_api_keys d). ak_business_id k = b)"

definition has_customer :: "uuid \<Rightarrow> uuid \<Rightarrow> db \<Rightarrow> bool" where
  "has_customer b c d \<longleftrightarrow> (\<exists>cu \<in> set (db_customers d). cu_id cu = c \<and> cu_business_id cu = b)"

definition has_invoice :: "uuid \<Rightarrow> uuid \<Rightarrow> i64 \<Rightarrow> db \<Rightarrow> bool" where
  "has_invoice b i amt d \<longleftrightarrow>
     (\<exists>iv \<in> set (db_invoices d). inv_id iv = i \<and> inv_business_id iv = b \<and> cents (inv_total_cents iv) = amt)"

definition has_attempt :: "uuid \<Rightarrow> uuid \<Rightarrow> uuid \<Rightarrow> string \<Rightarrow> i64 \<Rightarrow> db \<Rightarrow> bool" where
  "has_attempt b i aid key amt d \<longleftrightarrow>
     (\<exists>a \<in> set (db_attempts d). pa_id a = aid \<and> pa_invoice_id a = i \<and> pa_business_id a = b
        \<and> pa_idempotency_key a = key \<and> cents (pa_amount_cents a) = amt)"

lemma require_api_key_authorised: "require_api_key E now header d = Inr b \<Longrightarrow> authorised b d"
  by (auto simp: require_api_key_Inr authorised_def dest: fetch_optional_SomeD)

lemma pay_read_invoice: "pay_read b i req d = Inr (st, amt) \<Longrightarrow> has_invoice b i amt d"
  by (auto simp: pay_read_def result_simps invoice_get_def has_invoice_def dest!: fetch_optional_SomeD split: if_splits)

lemma claimed_attempt: "pay_tx1 E now kid aid b i key tok st amt d = (Claimed a, d') \<Longrightarrow> has_attempt b i a key amt d'"
  by (auto simp: pay_tx1_Claimed has_attempt_def new_attempt_row_def from_cents_def cents_def)

lemma leased_attempt:
  assumes "a \<in> set (db_attempts d)" and "row = leased_row_of a"
  shows "has_attempt (jb_business row) (jb_invoice row) (jb_attempt row) (jb_key row) (jb_amount row) d"
  using assms by (auto simp: has_attempt_def leased_row_of_def)

lemma has_attempt_rel:
  assumes "list_all2 R (db_attempts d) (db_attempts d')" and "has_attempt b i aid key amt d"
    and "\<And>a a'. R a a' \<Longrightarrow> pa_id a' = pa_id a \<and> pa_invoice_id a' = pa_invoice_id a \<and> pa_business_id a' = pa_business_id a
      \<and> pa_idempotency_key a' = pa_idempotency_key a \<and> pa_amount_cents a' = pa_amount_cents a"
  shows "has_attempt b i aid key amt d'"
proof -
  obtain n where n: "n < length (db_attempts d)" "pa_id (db_attempts d ! n) = aid" "pa_invoice_id (db_attempts d ! n) = i"
      "pa_business_id (db_attempts d ! n) = b" "pa_idempotency_key (db_attempts d ! n) = key" "cents (pa_amount_cents (db_attempts d ! n)) = amt"
    using assms(2) by (auto simp: has_attempt_def in_set_conv_nth)
  have "R (db_attempts d ! n) (db_attempts d' ! n)" "n < length (db_attempts d')"
    using assms(1) n(1) by (simp_all add: list_all2_conv_all_nth)
  then show ?thesis using assms(3) n unfolding has_attempt_def by (intro bexI [of _ "db_attempts d' ! n"]) simp_all
qed

lemma finalize_has_attempt:
  assumes "finalize_tx E now eid b i aid key amt res d = Inr (out, d')" and "has_attempt b' i' aid' key' amt' d"
  shows "has_attempt b' i' aid' key' amt' d'"
  by (rule has_attempt_rel [OF finalize_tx_rows(2) [OF assms(1)] assms(2)])
    (cases res; auto simp: pending_attempt_def attempt_succeeded_def attempt_failed_def unknown_rel_def attempt_unknown_def
      result_simps split: if_splits)

lemma lease_has_attempt:
  assumes "has_attempt b i aid key amt d"
  shows "has_attempt b i aid key amt (snd (lease_batch locked now d))"
  by (rule has_attempt_rel [OF _ assms, where R = "\<lambda>a a'. a' = a \<or> a' = lease_row now a"])
    (auto simp: lease_batch_def Let_def update_where_def list_all2_conv_all_nth lease_row_def)

section \<open>Requests\<close>

text \<open>
  What the handlers call, as a contract on a relation between the database before, the charges
  sent and the database after. \<open>answers\<close> restricts the provider the request talks to.
\<close>

locale requests =
  fixes E :: ext and answers :: "(string \<Rightarrow> i64 \<Rightarrow> string \<Rightarrow> psp_result) \<Rightarrow> bool"
    and does :: "db \<Rightarrow> charge_call list \<Rightarrow> db \<Rightarrow> bool"
  assumes does_nothing: "does d [] d"
    and does_key: "authorised b d \<Longrightarrow> api_key_insert now i b name pre hash last_four d = Inr (x, d') \<Longrightarrow> does d [] d'"
    and does_revoke: "does d [] (snd (api_key_revoke now b i d))"
    and does_customer: "authorised b d \<Longrightarrow> customer_insert E now i b email name d = Inr (cu, d') \<Longrightarrow> does d [] d'"
    and does_create: "authorised b d \<Longrightarrow> invoice_create E now new_ids b req d = Inr (r, d') \<Longrightarrow> does d [] d'"
    and does_transition: "to \<in> {Open, Void, Uncollectible} \<Longrightarrow> service_transition now b i to d = Inr (r, d') \<Longrightarrow> does d [] d'"
    and does_pay: "answers psp \<Longrightarrow> authorised b d \<Longrightarrow> pay E psp dr b i key preq d = (pr, d', calls) \<Longrightarrow> does d calls d'"
    and does_endpoint: "authorised b d \<Longrightarrow> register_endpoint E i secret b ereq d = Inr (er, d') \<Longrightarrow> does d [] d'"
    and does_redeliver: "redeliver now b i d = Inr d' \<Longrightarrow> does d [] d'"
begin

lemma commit_does:
  assumes "\<And>x d'. r = Inr (x, d') \<Longrightarrow> does d [] d'"
  shows "does d [] (snd (commit status body r d))"
  using assms does_nothing by (auto simp: commit_def split: sum.splits)

lemma api_keys_does:
  assumes "authorised b d"
  shows "does d [] (snd (api_keys_handler E dr b req d))"
proof (cases req)
  case (CreateKey q)
  show ?thesis
    unfolding CreateKey api_keys_handler.simps Let_def
    by (rule commit_does) (auto simp: result_simps intro: does_key [OF assms])
next
  case (RevokeKey i)
  then show ?thesis using does_revoke [of d "dw_now dr" b i] by (simp add: split_beta)
qed (simp add: does_nothing)

lemma customers_does:
  assumes "authorised b d"
  shows "does d [] (snd (customers_handler E dr b req d))"
proof (cases req)
  case (CreateCustomer q)
  show ?thesis
    unfolding CreateCustomer customers_handler.simps
    by (rule commit_does)
      (auto simp: customer_create_def Let_def intro: does_customer [OF assms] split: if_splits sum.splits)
qed (simp_all add: does_nothing)

lemma webhooks_does:
  assumes "authorised b d"
  shows "does d [] (snd (webhooks_handler E dr b req d))"
proof (cases req)
  case (CreateEndpoint q)
  show ?thesis unfolding CreateEndpoint webhooks_handler.simps by (rule commit_does) (rule does_endpoint [OF assms])
next
  case (Redeliver i)
  then show ?thesis using does_redeliver does_nothing by (auto split: sum.splits)
qed (simp_all add: does_nothing)

lemma invoices_does:
  assumes "answers psp" and "authorised b d"
  shows "does d (snd (invoices_handler E psp dr b req d)) (snd (fst (invoices_handler E psp dr b req d)))"
proof (cases req)
  case (CreateInvoice q)
  show ?thesis unfolding CreateInvoice invoices_handler.simps fst_conv snd_conv
    by (rule commit_does) (rule does_create [OF assms(2)])
next
  case (FinalizeInvoice i)
  show ?thesis unfolding FinalizeInvoice invoices_handler.simps fst_conv snd_conv finalize_invoice_def
    by (rule commit_does) (rule does_transition, simp_all)
next
  case (VoidInvoice i)
  show ?thesis unfolding VoidInvoice invoices_handler.simps fst_conv snd_conv void_invoice_def
    by (rule commit_does) (rule does_transition, simp_all)
next
  case (MarkUncollectible i)
  show ?thesis unfolding MarkUncollectible invoices_handler.simps fst_conv snd_conv mark_uncollectible_def
    by (rule commit_does) (rule does_transition, simp_all)
next
  case (PayInvoice i header q)
  then show ?thesis using does_pay [OF assms] does_nothing by (auto split: sum.splits prod.splits)
qed (simp_all add: does_nothing)

lemma serve_does:
  assumes "answers psp" and "serve_request E psp dr authorization req d = ((r, d'), calls)"
  shows "does d calls d'"
proof (cases "require_api_key E (dw_now dr) authorization d")
  case (Inr b)
  note b = require_api_key_authorised [OF Inr]
  have "does d (snd (handle E psp dr b req d)) (snd (fst (handle E psp dr b req d)))"
    using api_keys_does [OF b] customers_does [OF b] webhooks_does [OF b] invoices_does [OF assms(1) b]
    by (cases req) simp_all
  then show ?thesis using assms(2) Inr by (simp add: serve_request_def)
qed (use assms(2) in \<open>simp add: serve_request_def does_nothing\<close>)

end

section \<open>Transactions\<close>

text \<open>Every transaction with its guards; \<open>m\<close> is the attempt budget of the dispatcher.\<close>

locale transactional =
  fixes E :: ext and m :: int and keeps :: "db \<Rightarrow> db \<Rightarrow> bool"
  assumes keeps_refl: "keeps d d"
    and keeps_trans: "keeps d d' \<Longrightarrow> keeps d' d'' \<Longrightarrow> keeps d d''"
    and keeps_touch: "keeps d (touch_last_used now pre d)"
    and keeps_key: "authorised b d \<Longrightarrow> api_key_insert now i b name pre hash last_four d = Inr (x, d') \<Longrightarrow> keeps d d'"
    and keeps_revoke: "keeps d (snd (api_key_revoke now b i d))"
    and keeps_customer: "authorised b d \<Longrightarrow> customer_insert E now i b email name d = Inr (cu, d') \<Longrightarrow> keeps d d'"
    and keeps_create: "authorised b d \<Longrightarrow> has_customer b (ci_customer_id req) d \<Longrightarrow> validate_line_items req = Inr ()
      \<Longrightarrow> create_tx E now new_ids b req d = Inr (r, d') \<Longrightarrow> keeps d d'"
    and keeps_transition: "can_transition_to frm to \<Longrightarrow> to \<noteq> Paid \<Longrightarrow> transition now b i frm to d = Inr (iv', d') \<Longrightarrow> keeps d d'"
    and keeps_claim: "authorised b d \<Longrightarrow> has_invoice b i amt d \<Longrightarrow> pay_tx1 E now kid aid b i key tok st amt d = (c, d')
      \<Longrightarrow> keeps d d'"
    and keeps_finalize: "has_attempt b i aid key amt d \<Longrightarrow> finalize_tx E now eid b i aid key amt res d = Inr (out, d') \<Longrightarrow> keeps d d'"
    and keeps_lease: "keeps d (snd (lease_batch locked now d))"
    and keeps_endpoint: "authorised b d \<Longrightarrow> register_endpoint E i secret b ereq d = Inr (er, d') \<Longrightarrow> keeps d d'"
    and keeps_redeliver: "redeliver now b i d = Inr d' \<Longrightarrow> keeps d d'"
    and keeps_fan: "fan_out now new_ids d = Inr d' \<Longrightarrow> keeps d d'"
    and keeps_deliver: "deliver_batch E post m locked now draws d = Inr d' \<Longrightarrow> keeps d d'"
begin

lemma invoice_create_keeps:
  assumes "authorised b d" and "invoice_create E now new_ids b req d = Inr (r, d')"
  shows "keeps d d'"
proof -
  have "validate_line_items req = Inr ()" "has_customer b (ci_customer_id req) d" "create_tx E now new_ids b req d = Inr (r, d')"
    using assms(2) by (auto simp: invoice_create_def result_simps table_simps has_customer_def split: if_splits)
  then show ?thesis using keeps_create assms(1) by blast
qed

lemma service_transition_keeps:
  assumes "to \<noteq> Paid" and "service_transition now b i to d = Inr (r, d')"
  shows "keeps d d'"
  using assms
  by (auto simp: service_transition_def check_transition_def apply_transition_def result_simps intro: keeps_transition split: if_splits)

lemma pay_keeps:
  assumes "authorised b d" and "pay E psp dr b i key req d = (r, d', calls)"
  shows "keeps d d'"
proof (cases "pay_read b i req d")
  case (Inr x)
  obtain st amt where x: "x = (st, amt)" by (cases x)
  obtain c d1 where tx: "pay_tx1 E (pd_claim_time dr) (pd_key_id dr) (pd_attempt_id dr) b i key (pr_card_token req) st amt d = (c, d1)"
    by fastforce
  have "d' = d1 \<or> (\<exists>a out. c = Claimed a \<and> finalize_tx E (pd_finalize_time dr) (pd_event_id dr) b i a key amt
      (psp (pr_card_token req) amt key) d1 = Inr (out, d'))"
    using assms(2) Inr x tx by (auto simp: pay_def Let_def pay_finalize_def result_simps split: claim.splits sum.splits)
  then have "keeps d1 d'"
  proof
    assume "\<exists>a out. c = Claimed a \<and> finalize_tx E (pd_finalize_time dr) (pd_event_id dr) b i a key amt
      (psp (pr_card_token req) amt key) d1 = Inr (out, d')"
    then obtain a out where c: "c = Claimed a" and fin: "finalize_tx E (pd_finalize_time dr) (pd_event_id dr) b i a key amt
      (psp (pr_card_token req) amt key) d1 = Inr (out, d')" by blast
    from keeps_finalize [OF claimed_attempt [OF tx [unfolded c]] fin] show ?thesis .
  qed (simp add: keeps_refl)
  moreover have "keeps d d1" using keeps_claim [OF assms(1) pay_read_invoice tx] Inr x by blast
  ultimately show ?thesis using keeps_trans by blast
qed (use assms(2) keeps_refl in \<open>simp add: pay_def\<close>)

abbreviation can_reconcile :: "db \<Rightarrow> leased_row \<Rightarrow> bool" where
  "can_reconcile d row \<equiv> has_attempt (jb_business row) (jb_invoice row) (jb_attempt row) (jb_key row) (jb_amount row) d"

lemma reconcile_row_keeps:
  assumes "can_reconcile d row"
  shows "keeps d (reconcile_row E psp draw row d) \<and> (can_reconcile d x \<longrightarrow> can_reconcile (reconcile_row E psp draw row d) x)"
  using reconcile_row_cases [of E psp draw row d]
proof
  assume "\<exists>out. finalize_tx E (fst draw) (snd draw) (jb_business row) (jb_invoice row) (jb_attempt row) (jb_key row)
    (jb_amount row) (psp (jb_token row) (jb_amount row) (jb_key row)) d = Inr (out, reconcile_row E psp draw row d)"
  then obtain out where fin: "finalize_tx E (fst draw) (snd draw) (jb_business row) (jb_invoice row) (jb_attempt row) (jb_key row)
    (jb_amount row) (psp (jb_token row) (jb_amount row) (jb_key row)) d = Inr (out, reconcile_row E psp draw row d)" ..
  from keeps_finalize [OF assms fin] finalize_has_attempt [OF fin] show ?thesis by simp
qed (simp add: keeps_refl)

lemma reconcile_rows_keeps:
  assumes "\<forall>row \<in> set rows. can_reconcile d row"
  shows "keeps d (snd (reconcile_rows E psp draws rows d))"
  using assms
proof (induction rows arbitrary: draws d)
  case (Cons row rows)
  show ?case
  proof (cases draws)
    case draws: (Cons draw draws')
    let ?d = "reconcile_row E psp draw row d"
    have row: "can_reconcile d row" using Cons.prems by simp
    have "\<forall>x \<in> set rows. can_reconcile ?d x" using reconcile_row_keeps [OF row] Cons.prems by simp
    from keeps_trans [OF conjunct1 [OF reconcile_row_keeps [OF row]] Cons.IH [OF this]]
    show ?thesis by (simp add: draws split_beta Let_def)
  qed (simp add: keeps_refl)
qed (simp add: keeps_refl)

lemma tick_keeps: "keeps d (snd (tick E psp draws locked now d))"
proof -
  let ?d = "snd (lease_batch locked now d)" and ?rows = "map leased_row_of (due_batch locked now d)"
  have "can_reconcile ?d row" if row: "row \<in> set ?rows" for row
  proof -
    obtain a where a: "a \<in> set (due_batch locked now d)" "row = leased_row_of a" using row by auto
    from leased_attempt [OF _ a(2)] due_batch_due [OF a(1)] show ?thesis by (simp add: lease_has_attempt)
  qed
  then have "keeps ?d (snd (reconcile_rows E psp draws ?rows ?d))" by (intro reconcile_rows_keeps) blast
  from keeps_trans [OF keeps_lease this] show ?thesis by (simp add: tick_def lease_batch_def Let_def)
qed

end

sublocale transactional < requests E "\<lambda>_. True" "\<lambda>d _ d'. keeps d d'"
  by unfold_locales
    (auto intro: keeps_refl keeps_key keeps_revoke keeps_customer invoice_create_keeps service_transition_keeps pay_keeps
      keeps_endpoint keeps_redeliver)

section \<open>All interleavings of transactions\<close>

text \<open>
  One transaction of any worker, with its guards. The dispatcher's claim and the UPDATEs that
  record the outcomes of its sends are transactions of their own, for any job and any answer.
\<close>

inductive txn :: "ext \<Rightarrow> int \<Rightarrow> db \<Rightarrow> db \<Rightarrow> bool" for E :: ext and m :: int where
  touches: "txn E m d (touch_last_used now pre d)"
| adds_key: "authorised b d \<Longrightarrow> api_key_insert now i b name pre hash last_four d = Inr (x, d') \<Longrightarrow> txn E m d d'"
| revokes: "txn E m d (snd (api_key_revoke now b i d))"
| adds_customer: "authorised b d \<Longrightarrow> customer_insert E now i b email name d = Inr (cu, d') \<Longrightarrow> txn E m d d'"
| creates: "authorised b d \<Longrightarrow> has_customer b (ci_customer_id req) d \<Longrightarrow> validate_line_items req = Inr ()
    \<Longrightarrow> create_tx E now new_ids b req d = Inr (r, d') \<Longrightarrow> txn E m d d'"
| moves: "can_transition_to frm to \<Longrightarrow> to \<noteq> Paid \<Longrightarrow> transition now b i frm to d = Inr (iv', d') \<Longrightarrow> txn E m d d'"
| claims_payment: "authorised b d \<Longrightarrow> has_invoice b i amt d \<Longrightarrow> pay_tx1 E now kid aid b i key tok st amt d = (c, d') \<Longrightarrow> txn E m d d'"
| finalizes_payment: "has_attempt b i aid key amt d \<Longrightarrow> finalize_tx E now eid b i aid key amt res d = Inr (out, d') \<Longrightarrow> txn E m d d'"
| leases: "txn E m d (snd (lease_batch locked now d))"
| adds_endpoint: "authorised b d \<Longrightarrow> register_endpoint E i secret b ereq d = Inr (er, d') \<Longrightarrow> txn E m d d'"
| requeues: "redeliver now b i d = Inr d' \<Longrightarrow> txn E m d d'"
| fans_out: "fan_out now new_ids d = Inr d' \<Longrightarrow> txn E m d d'"
| claims_deliveries: "claim_batch locked now d = Inr (ids, d') \<Longrightarrow> txn E m d d'"
| records: "txn E m d (send_one E post m ts now jitter wk d)"

abbreviation txns :: "ext \<Rightarrow> int \<Rightarrow> db \<Rightarrow> db \<Rightarrow> bool" where
  "txns E m \<equiv> (txn E m)\<^sup>*\<^sup>*"

lemma records_fold: "txns E m d (fold (\<lambda>x d'. send_one E (f x) m (ts x) (t x) (jitter x) (wk x) d') xs d)"
  by (induction xs arbitrary: d) (auto intro: converse_rtranclp_into_rtranclp records)

lemma deliver_batch_txns:
  assumes "deliver_batch E post m locked now draws d = Inr d'"
  shows "txns E m d d'"
proof -
  obtain ids d1 where claim: "claim_batch locked now d = Inr (ids, d1)"
      and d': "d' = fold (\<lambda>(n, wk) d'. let (ts, t, jitter) = draws n in send_one E post m ts t jitter wk d') (enumerate 0 (hydrate ids d1)) d1"
    using assms by (auto simp: deliver_batch_def result_simps)
  have "txns E m d1 d'"
    using records_fold [of E m d1 "\<lambda>_. post" "\<lambda>(n, wk). fst (draws n)" "\<lambda>(n, wk). fst (snd (draws n))"
        "\<lambda>(n, wk). snd (snd (draws n))" snd "enumerate 0 (hydrate ids d1)"]
    by (simp add: d' case_prod_unfold Let_def)
  with claims_deliveries [OF claim] show ?thesis by (rule converse_rtranclp_into_rtranclp)
qed

interpretation interleaving: transactional E m "txns E m" for E m
  by unfold_locales
    (auto intro: touches adds_key revokes adds_customer creates moves claims_payment finalizes_payment leases adds_endpoint
      requeues fans_out deliver_batch_txns)

end
