(* ===== verification/Delivery.thy ===== *)
theory Delivery
  imports Dispatcher
begin

text \<open>
  The webhook pipeline as a machine. Any number of dispatcher replicas run their ticks at once,
  interleaved at the points where the code leaves the database (between the claim, the hydrating
  SELECT, the POST and the UPDATE that records its outcome), any of them can die at any such
  point, and the API adds endpoints, events and redeliveries in between. The receivers answer
  what they like; times, ids, jitter and locked rows are arbitrary.
\<close>

section \<open>The machine\<close>

type_synonym answer = "work_item \<times> i64 \<times> post_result"

record hooks =
  hk_db :: db
  hk_claimed :: "uuid list list"
  hk_jobs :: "work_item list"
  hk_answers :: "answer list"
  hk_log :: "answer list"

text \<open>The part of the database the pipeline works on.\<close>

definition same_hooks :: "db \<Rightarrow> db \<Rightarrow> bool" where
  "same_hooks d d' \<longleftrightarrow> db_deliveries d' = db_deliveries d \<and> db_events d' = db_events d \<and> db_endpoints d' = db_endpoints d"

text \<open>
  A claimed batch waits for its SELECT, a job for its POST, an answer for the UPDATE that records
  it; the log keeps every POST with its signing time and its result. \<open>m\<close> is the attempt budget.
\<close>

inductive hook_step :: "ext \<Rightarrow> int \<Rightarrow> hooks \<Rightarrow> hooks \<Rightarrow> bool" for E :: ext and m :: int where
  fan: "fan_out now new_ids (hk_db s) = Inr d' \<Longrightarrow> hook_step E m s (s\<lparr>hk_db := d'\<rparr>)"
| claims: "claim_batch locked now (hk_db s) = Inr (ids, d') \<Longrightarrow>
     hook_step E m s (s\<lparr>hk_db := d', hk_claimed := ids # hk_claimed s\<rparr>)"
| hydrates: "ids \<in> set (hk_claimed s) \<Longrightarrow>
     hook_step E m s (s\<lparr>hk_claimed := remove1 ids (hk_claimed s), hk_jobs := hk_jobs s @ hydrate ids (hk_db s)\<rparr>)"
| posts: "wk \<in> set (hk_jobs s) \<Longrightarrow>
     hook_step E m s (s\<lparr>hk_jobs := remove1 wk (hk_jobs s), hk_answers := (wk, ts, r) # hk_answers s,
                        hk_log := hk_log s @ [(wk, ts, r)]\<rparr>)"
| marks: "(wk, ts, r) \<in> set (hk_answers s) \<Longrightarrow>
     hook_step E m s (s\<lparr>hk_db := send_one E (\<lambda>_. r) m ts now jitter wk (hk_db s),
                        hk_answers := remove1 (wk, ts, r) (hk_answers s)\<rparr>)"
| dies: "set cs \<subseteq> set (hk_claimed s) \<Longrightarrow> set js \<subseteq> set (hk_jobs s) \<Longrightarrow> set xs \<subseteq> set (hk_answers s) \<Longrightarrow>
     hook_step E m s (s\<lparr>hk_claimed := cs, hk_jobs := js, hk_answers := xs\<rparr>)"
| emits: "emit_event now i b ty agg p (hk_db s) = Inr (j, d') \<Longrightarrow> hook_step E m s (s\<lparr>hk_db := d'\<rparr>)"
| registers: "register_endpoint E i secret b req (hk_db s) = Inr (r, d') \<Longrightarrow> hook_step E m s (s\<lparr>hk_db := d'\<rparr>)"
| redelivers: "redeliver now b i (hk_db s) = Inr d' \<Longrightarrow> hook_step E m s (s\<lparr>hk_db := d'\<rparr>)"
| elsewhere: "same_hooks (hk_db s) d' \<Longrightarrow> hook_step E m s (s\<lparr>hk_db := d'\<rparr>)"

definition hook_start :: "hooks \<Rightarrow> bool" where
  "hook_start s \<longleftrightarrow> db_deliveries (hk_db s) = [] \<and> db_events (hk_db s) = [] \<and> db_endpoints (hk_db s) = []
     \<and> hk_claimed s = [] \<and> hk_jobs s = [] \<and> hk_answers s = [] \<and> hk_log s = []"

section \<open>The invariant\<close>

text \<open>A delivery is the pair of an event and an endpoint of one business that wants it.\<close>

definition delivery_for :: "webhook_delivery \<Rightarrow> webhook_event \<Rightarrow> webhook_endpoint \<Rightarrow> bool" where
  "delivery_for w e ep \<longleftrightarrow> wd_event_id w = ev_id e \<and> wd_endpoint_id w = ep_id ep \<and> wants_event ep e
     \<and> wd_business_id w = ev_business_id e"

definition tables_ok :: "db \<Rightarrow> bool" where
  "tables_ok d \<longleftrightarrow> distinct (map wd_id (db_deliveries d)) \<and> distinct (map ev_id (db_events d))
     \<and> distinct (map ep_id (db_endpoints d)) \<and> distinct (map pair_of (db_deliveries d))
     \<and> (\<forall>w \<in> set (db_deliveries d). \<exists>e \<in> set (db_events d). \<exists>ep \<in> set (db_endpoints d). delivery_for w e ep)"

text \<open>A job carries the content of its event and the address and secret of its endpoint.\<close>

definition hook_job_ok :: "db \<Rightarrow> work_item \<Rightarrow> bool" where
  "hook_job_ok d wk \<longleftrightarrow> (\<exists>w \<in> set (db_deliveries d). \<exists>e \<in> set (db_events d). \<exists>ep \<in> set (db_endpoints d).
     delivery_for w e ep \<and> wk = (work_of w e ep)\<lparr>wk_attempts := wk_attempts wk\<rparr>)"

definition acknowledged :: "answer list \<Rightarrow> webhook_delivery \<Rightarrow> bool" where
  "acknowledged log w \<longleftrightarrow> (wd_status w = ''succeeded'' \<longrightarrow>
     (\<exists>wk ts c. (wk, ts, PostStatus c) \<in> set log \<and> wk_delivery wk = wd_id w \<and> is_success c
        \<and> wd_last_status_code w = Some c))"

definition hooks_ok :: "hooks \<Rightarrow> bool" where
  "hooks_ok s \<longleftrightarrow> tables_ok (hk_db s) \<and> (\<forall>wk \<in> set (hk_jobs s). hook_job_ok (hk_db s) wk)
     \<and> (\<forall>x \<in> set (hk_log s). hook_job_ok (hk_db s) (fst x)) \<and> set (hk_answers s) \<subseteq> set (hk_log s)
     \<and> (\<forall>w \<in> set (db_deliveries (hk_db s)). acknowledged (hk_log s) w)"

section \<open>Lemmas: how the tables evolve\<close>

text \<open>Rows keep what they are about; tables only grow.\<close>

definition same_target :: "webhook_delivery \<Rightarrow> webhook_delivery \<Rightarrow> bool" where
  "same_target w w' \<longleftrightarrow> wd_id w' = wd_id w \<and> wd_event_id w' = wd_event_id w \<and> wd_endpoint_id w' = wd_endpoint_id w
     \<and> wd_business_id w' = wd_business_id w"

definition hooks_grow :: "db \<Rightarrow> db \<Rightarrow> bool" where
  "hooks_grow d d' \<longleftrightarrow> (\<forall>w \<in> set (db_deliveries d). \<exists>w' \<in> set (db_deliveries d'). same_target w w')
     \<and> set (db_events d) \<subseteq> set (db_events d') \<and> set (db_endpoints d) \<subseteq> set (db_endpoints d')"

lemma delivery_for_target: "same_target w w' \<Longrightarrow> delivery_for w' e ep \<longleftrightarrow> delivery_for w e ep"
  by (simp add: same_target_def delivery_for_def)

lemma hook_job_ok_grow:
  assumes "hook_job_ok d wk" and "hooks_grow d d'"
  shows "hook_job_ok d' wk"
proof -
  obtain w e ep where w: "w \<in> set (db_deliveries d)" "e \<in> set (db_events d)" "ep \<in> set (db_endpoints d)"
      "delivery_for w e ep" "wk = (work_of w e ep)\<lparr>wk_attempts := wk_attempts wk\<rparr>"
    using assms(1) unfolding hook_job_ok_def by blast
  obtain w' where w': "w' \<in> set (db_deliveries d')" "same_target w w'" using assms(2) w(1) by (auto simp: hooks_grow_def)
  have "work_of w' e ep\<lparr>wk_attempts := n\<rparr> = work_of w e ep\<lparr>wk_attempts := n\<rparr>" for n
    using w'(2) by (simp add: work_of_def same_target_def)
  then have "wk = (work_of w' e ep)\<lparr>wk_attempts := wk_attempts wk\<rparr>" using w(5) by simp
  moreover have "e \<in> set (db_events d')" "ep \<in> set (db_endpoints d')" using assms(2) w(2,3) by (auto simp: hooks_grow_def)
  ultimately show ?thesis unfolding hook_job_ok_def using w'(1) w(4) delivery_for_target [OF w'(2)] by blast
qed

text \<open>An UPDATE of deliveries that keeps what they are about keeps the tables.\<close>

lemma targets_kept:
  assumes "list_all2 same_target t t'"
  shows "map wd_id t' = map wd_id t" "map pair_of t' = map pair_of t"
    and "\<forall>w' \<in> set t'. \<exists>w \<in> set t. same_target w w'" "\<forall>w \<in> set t. \<exists>w' \<in> set t'. same_target w w'"
  using assms by (induction rule: list_all2_induct) (auto simp: same_target_def)

lemma update_keeps:
  assumes "tables_ok d" and "list_all2 same_target (db_deliveries d) (db_deliveries d')"
    and "db_events d' = db_events d" and "db_endpoints d' = db_endpoints d"
  shows "tables_ok d' \<and> hooks_grow d d'"
proof -
  note kept = targets_kept [OF assms(2)]
  have "\<exists>e \<in> set (db_events d'). \<exists>ep \<in> set (db_endpoints d'). delivery_for w' e ep" if w': "w' \<in> set (db_deliveries d')" for w'
  proof -
    obtain w where "w \<in> set (db_deliveries d)" "same_target w w'" using kept(3) w' by blast
    then show ?thesis using assms(1,3,4) delivery_for_target by (simp add: tables_ok_def)
  qed
  then show ?thesis using assms kept by (simp add: tables_ok_def hooks_grow_def)
qed

lemma list_all2_target_update:
  assumes "\<And>w. P w \<Longrightarrow> same_target w (f w)"
  shows "list_all2 same_target t (update_where P f t)"
  using assms by (auto simp: update_where_def list_all2_conv_all_nth same_target_def)

lemma same_target_row: "same_target w (claim_row now w)" "same_target w (outcome_row post E m draw wk w)"
  by (auto simp: same_target_def claim_row_def outcome_row_def Let_def split_beta)

text \<open>Every statement of the pipeline, as an evolution of the tables.\<close>

lemma insert_deliveries_ids:
  "insert_deliveries now new_ids n rows t = Inr t' \<Longrightarrow> distinct (map wd_id t) \<Longrightarrow> distinct (map wd_id t')"
proof (induction now new_ids n rows t rule: insert_deliveries.induct)
  case (2 now new_ids n e ep rows t)
  have "new_ids n \<notin> wd_id ` set t" if "\<not> exists_row (\<lambda>w. wd_id w = new_ids n) t" using that by (auto simp: table_simps)
  with 2 show ?case by (simp add: new_delivery_def split: if_splits)
qed simp

lemma fan_out_keeps:
  assumes "tables_ok d" and "fan_out now new_ids d = Inr d'"
  shows "tables_ok d' \<and> hooks_grow d d' \<and> (\<exists>xs. db_deliveries d' = db_deliveries d @ xs \<and> (\<forall>w \<in> set xs. wd_status w = ''pending''))"
proof -
  obtain t where run: "insert_deliveries now new_ids 0 (fan_out_rows now d) (db_deliveries d) = Inr t" "d' = d\<lparr>db_deliveries := t\<rparr>"
    using assms(2) by (auto simp: fan_out_def result_simps)
  obtain xs where xs: "t = db_deliveries d @ xs" "distinct (map pair_of t)"
      "\<forall>w \<in> set xs. \<exists>(e, ep) \<in> set (fan_out_rows now d). \<exists>i. w = new_delivery now i e ep"
    using insert_deliveries_Inr [OF run(1)] assms(1) unfolding tables_ok_def by blast
  have new: "wd_status w = ''pending'' \<and> (\<exists>e \<in> set (db_events d). \<exists>ep \<in> set (db_endpoints d). delivery_for w e ep)"
    if w: "w \<in> set xs" for w
  proof -
    obtain e ep i where "(e, ep) \<in> set (fan_out_rows now d)" "w = new_delivery now i e ep" using xs(3) w by blast
    then show ?thesis by (auto simp: set_fan_out_rows delivery_for_def new_delivery_def)
  qed
  have "distinct (map wd_id t)" using insert_deliveries_ids [OF run(1)] assms(1) by (simp add: tables_ok_def)
  then show ?thesis
    using assms(1) xs(1,2) new by (auto simp: run(2) tables_ok_def hooks_grow_def same_target_def)
qed

lemma hydrate_job_ok:
  assumes "tables_ok d" and "wk \<in> set (hydrate ids d)"
  shows "hook_job_ok d wk"
proof -
  obtain w e ep where w: "w \<in> set (db_deliveries d)" "e \<in> set (db_events d)" "ev_id e = wd_event_id w"
      "ep \<in> set (db_endpoints d)" "ep_id ep = wd_endpoint_id w" "wk = work_of w e ep"
    using assms(2) by (auto simp: hydrate_def work_of_def)
  obtain e' ep' where w': "e' \<in> set (db_events d)" "ep' \<in> set (db_endpoints d)" "delivery_for w e' ep'"
    using assms(1) w(1) by (auto simp: tables_ok_def)
  have "e' = e" "ep' = ep"
    using w w' assms(1) by (auto simp: tables_ok_def delivery_for_def distinct_map inj_on_def)
  then show ?thesis using w w' unfolding hook_job_ok_def by (intro bexI [of _ w] bexI [of _ e] bexI [of _ ep]) simp_all
qed


section \<open>Lemmas: the invariant is kept\<close>

text \<open>A step that changes only the database.\<close>

lemma hooks_ok_db:
  assumes "hooks_ok s" and "tables_ok d' \<and> hooks_grow (hk_db s) d'"
    and "\<And>w. w \<in> set (db_deliveries d') \<Longrightarrow> acknowledged (hk_log s) w"
  shows "hooks_ok (s\<lparr>hk_db := d'\<rparr>)"
  using assms hook_job_ok_grow by (auto simp: hooks_ok_def)

lemma acknowledged_update:
  assumes "\<And>w. w \<in> set t \<Longrightarrow> acknowledged log w" and "\<And>w. w \<in> set t \<Longrightarrow> P w \<Longrightarrow> acknowledged log (f w)"
  shows "w \<in> set (update_where P f t) \<Longrightarrow> acknowledged log w"
  using assms by (auto simp: update_where_def)

lemma acknowledged_mono: "acknowledged log w \<Longrightarrow> acknowledged (log @ xs) w"
  unfolding acknowledged_def set_append by blast

lemma fan_ok:
  assumes "hooks_ok s" and "fan_out now new_ids (hk_db s) = Inr d'"
  shows "hooks_ok (s\<lparr>hk_db := d'\<rparr>)"
proof -
  have "tables_ok (hk_db s)" using assms(1) by (simp add: hooks_ok_def)
  note keeps = fan_out_keeps [OF this assms(2)]
  show ?thesis
    by (rule hooks_ok_db [OF assms(1)]) (use keeps assms(1) in \<open>auto simp: hooks_ok_def acknowledged_def\<close>)
qed

lemma claims_ok:
  assumes "hooks_ok s" and "claim_batch locked now (hk_db s) = Inr (ids, d')"
  shows "hooks_ok (s\<lparr>hk_db := d', hk_claimed := cs\<rparr>)"
proof -
  let ?P = "\<lambda>w. wd_id w \<in> wd_id ` set (due_deliveries locked now (hk_db s))"
  have d': "d' = (hk_db s)\<lparr>db_deliveries := update_where ?P (claim_row now) (db_deliveries (hk_db s))\<rparr>"
    using claim_batch_Inr [OF assms(2)] by simp
  have "hooks_ok (s\<lparr>hk_db := d'\<rparr>)"
  proof (rule hooks_ok_db [OF assms(1)])
    show "tables_ok d' \<and> hooks_grow (hk_db s) d'"
      by (rule update_keeps) (use assms(1) in \<open>auto simp: d' hooks_ok_def intro: list_all2_target_update same_target_row\<close>)
    show "acknowledged (hk_log s) w" if "w \<in> set (db_deliveries d')" for w
      by (rule acknowledged_update [where P = ?P and f = "claim_row now" and t = "db_deliveries (hk_db s)"])
        (use assms(1) that in \<open>auto simp: d' hooks_ok_def acknowledged_def claim_row_def\<close>)
  qed
  then show ?thesis by (simp add: hooks_ok_def)
qed

text \<open>The row of an answered job becomes succeeded only on the 2xx that the log has.\<close>

lemma outcome_acknowledged:
  assumes "(wk, ts, r) \<in> set log" and "wd_id w = wk_delivery wk"
  shows "acknowledged log (outcome_row (\<lambda>_. r) E m (ts, now, jitter) wk w)"
proof (cases r)
  case (PostStatus c)
  then show ?thesis
    using assms by (auto simp: acknowledged_def outcome_row_def Let_def)
qed (auto simp: acknowledged_def outcome_row_def Let_def)

lemma marks_ok:
  assumes "hooks_ok s" and "(wk, ts, r) \<in> set (hk_answers s)"
  shows "hooks_ok (s\<lparr>hk_db := send_one E (\<lambda>_. r) m ts now jitter wk (hk_db s), hk_answers := remove1 (wk, ts, r) (hk_answers s)\<rparr>)"
proof -
  let ?d = "send_one E (\<lambda>_. r) m ts now jitter wk (hk_db s)"
  have logged: "(wk, ts, r) \<in> set (hk_log s)" using assms by (auto simp: hooks_ok_def)
  have "hooks_ok (s\<lparr>hk_db := ?d\<rparr>)"
  proof (rule hooks_ok_db [OF assms(1)])
    show "tables_ok ?d \<and> hooks_grow (hk_db s) ?d"
      by (rule update_keeps) (use assms(1) in \<open>auto simp: send_one_row hooks_ok_def intro: list_all2_target_update same_target_row\<close>)
    show "acknowledged (hk_log s) w" if "w \<in> set (db_deliveries ?d)" for w
      by (rule acknowledged_update [where P = "\<lambda>w. wd_id w = wk_delivery wk" and f = "outcome_row (\<lambda>_. r) E m (ts, now, jitter) wk"
          and t = "db_deliveries (hk_db s)"])
        (use assms(1) that outcome_acknowledged [OF logged] in \<open>auto simp: send_one_row hooks_ok_def\<close>)
  qed
  then show ?thesis by (auto simp: hooks_ok_def dest: notin_set_remove1)
qed

text \<open>The API appends events and endpoints with fresh ids and leaves the deliveries alone.\<close>

lemma append_ok:
  assumes "hooks_ok s" and "db_deliveries d' = db_deliveries (hk_db s)"
    and "db_events d' = db_events (hk_db s) @ es" and "db_endpoints d' = db_endpoints (hk_db s) @ eps"
    and "distinct (map ev_id (db_events d'))" and "distinct (map ep_id (db_endpoints d'))"
  shows "hooks_ok (s\<lparr>hk_db := d'\<rparr>)"
proof (rule hooks_ok_db [OF assms(1)])
  have ok: "tables_ok (hk_db s)" using assms(1) by (simp add: hooks_ok_def)
  have "\<exists>e \<in> set (db_events d'). \<exists>ep \<in> set (db_endpoints d'). delivery_for w e ep" if w: "w \<in> set (db_deliveries d')" for w
  proof -
    obtain e ep where "e \<in> set (db_events (hk_db s))" "ep \<in> set (db_endpoints (hk_db s))" "delivery_for w e ep"
      using ok w assms(2) by (auto simp: tables_ok_def)
    then show ?thesis using assms(3,4) by (intro bexI [of _ e] bexI [of _ ep]) simp_all
  qed
  then show "tables_ok d' \<and> hooks_grow (hk_db s) d'"
    using ok assms by (auto simp: tables_ok_def hooks_grow_def same_target_def)
qed (use assms in \<open>simp add: hooks_ok_def\<close>)

lemma emits_ok:
  assumes "hooks_ok s" and "emit_event now i b ty agg p (hk_db s) = Inr (j, d')"
  shows "hooks_ok (s\<lparr>hk_db := d'\<rparr>)"
  by (rule append_ok [OF assms(1), where eps = "[]"])
    (use assms in \<open>auto simp: emit_event_Inr hooks_ok_def tables_ok_def\<close>)

lemma registers_ok:
  assumes "hooks_ok s" and "register_endpoint E i secret b req (hk_db s) = Inr (r, d')"
  shows "hooks_ok (s\<lparr>hk_db := d'\<rparr>)"
  by (rule append_ok [OF assms(1), where es = "[]"])
    (use assms in \<open>auto simp: register_endpoint_def table_simps hooks_ok_def tables_ok_def split: if_splits\<close>)

lemma redelivers_ok:
  assumes "hooks_ok s" and "redeliver now b i (hk_db s) = Inr d'"
  shows "hooks_ok (s\<lparr>hk_db := d'\<rparr>)"
proof -
  obtain P f where d': "d' = (hk_db s)\<lparr>db_deliveries := update_where P f (db_deliveries (hk_db s))\<rparr>"
      and f: "\<And>w. same_target w (f w) \<and> wd_status (f w) = ''pending''"
    using assms(2) by (auto simp: redeliver_def Let_def same_target_def split: if_splits)
  show ?thesis
  proof (rule hooks_ok_db [OF assms(1)])
    show "tables_ok d' \<and> hooks_grow (hk_db s) d'"
      by (rule update_keeps) (use assms(1) f in \<open>auto simp: d' hooks_ok_def intro: list_all2_target_update\<close>)
    show "acknowledged (hk_log s) w" if "w \<in> set (db_deliveries d')" for w
      by (rule acknowledged_update [where P = P and f = f and t = "db_deliveries (hk_db s)"])
        (use assms(1) that f in \<open>auto simp: d' hooks_ok_def acknowledged_def\<close>)
  qed
qed

lemma elsewhere_ok:
  assumes "hooks_ok s" and "same_hooks (hk_db s) d'"
  shows "hooks_ok (s\<lparr>hk_db := d'\<rparr>)"
  by (rule append_ok [OF assms(1), where es = "[]" and eps = "[]"])
    (use assms in \<open>simp_all add: same_hooks_def hooks_ok_def tables_ok_def\<close>)

lemma hook_step_ok: "hooks_ok s \<Longrightarrow> hook_step E m s t \<Longrightarrow> hooks_ok t"
proof (rotate_tac, induction rule: hook_step.induct)
  case (hydrates ids s)
  then show ?case using hydrate_job_ok by (auto simp: hooks_ok_def)
next
  case (posts wk s ts r)
  then show ?case using acknowledged_mono by (auto simp: hooks_ok_def dest: notin_set_remove1)
next
  case (dies cs s js xs)
  then show ?case by (auto simp: hooks_ok_def)
qed (auto intro: fan_ok claims_ok marks_ok emits_ok registers_ok redelivers_ok elsewhere_ok)

interpretation pipeline: machine_invariant hook_start "hook_step E m" hooks_ok for E m
  by unfold_locales (simp add: hook_start_def hooks_ok_def tables_ok_def, rule hook_step_ok)


section \<open>Properties\<close>

text \<open>
  C16: webhooks do not leak. Whatever the interleaving of replicas, crashes and API calls, every
  POST ever sent carries the payload and id of an event, goes to the address of an endpoint of the
  same business that subscribes to the event's type, and is signed with that endpoint's secret;
  and an event and an endpoint never have more than one delivery row.
\<close>

theorem webhook_no_leak:
  assumes "reach hook_start (hook_step E m) s"
  shows "(\<forall>(wk, ts, r) \<in> set (hk_log s). \<exists>e \<in> set (db_events (hk_db s)). \<exists>ep \<in> set (db_endpoints (hk_db s)).
       ep_business_id ep = ev_business_id e \<and> ep_status ep = ''active''
       \<and> (ep_event_types ep = [] \<or> ev_event_type e \<in> set (ep_event_types ep))
       \<and> webhook_request E ts wk =
           \<lparr>po_url = ep_url ep,
            po_headers = [(''Content-Type'', ''application/json''), (''X-Webhook-Id'', uuid_to_string E (ev_id e)),
              (''X-Webhook-Signature'', signature_header E (ep_secret ep) ts (json_to_vec E (ev_payload e)))],
            po_body = json_to_vec E (ev_payload e)\<rparr>)
     \<and> distinct (map (\<lambda>w. (wd_event_id w, wd_endpoint_id w)) (db_deliveries (hk_db s)))"
proof -
  have ok: "hooks_ok s" using pipeline.reach_inv [OF assms] .
  have "\<exists>e \<in> set (db_events (hk_db s)). \<exists>ep \<in> set (db_endpoints (hk_db s)). wants_event ep e
      \<and> webhook_request E ts wk = webhook_request E ts (work_of w e ep)"
    if job: "hook_job_ok (hk_db s) wk" for wk ts w
  proof -
    obtain v e ep where v: "e \<in> set (db_events (hk_db s))" "ep \<in> set (db_endpoints (hk_db s))" "delivery_for v e ep"
        "wk = (work_of v e ep)\<lparr>wk_attempts := wk_attempts wk\<rparr>"
      using job unfolding hook_job_ok_def by blast
    have "webhook_request E ts wk = webhook_request E ts (work_of w e ep)"
      by (subst v(4)) (simp add: webhook_request_def work_of_def)
    then show ?thesis using v(1-3) by (auto simp: delivery_for_def)
  qed
  note sent = this
  show ?thesis
  proof (intro conjI ballI, clarify)
    fix wk ts r assume "(wk, ts, r) \<in> set (hk_log s)"
    then have "hook_job_ok (hk_db s) wk" using ok by (force simp: hooks_ok_def)
    from sent [OF this, of ts] show "\<exists>e \<in> set (db_events (hk_db s)). \<exists>ep \<in> set (db_endpoints (hk_db s)).
       ep_business_id ep = ev_business_id e \<and> ep_status ep = ''active''
       \<and> (ep_event_types ep = [] \<or> ev_event_type e \<in> set (ep_event_types ep))
       \<and> webhook_request E ts wk =
           \<lparr>po_url = ep_url ep,
            po_headers = [(''Content-Type'', ''application/json''), (''X-Webhook-Id'', uuid_to_string E (ev_id e)),
              (''X-Webhook-Signature'', signature_header E (ep_secret ep) ts (json_to_vec E (ev_payload e)))],
            po_body = json_to_vec E (ev_payload e)\<rparr>"
      by (simp add: webhook_request_def work_of_def wants_event_def Let_def)
  qed (use ok in \<open>simp add: hooks_ok_def tables_ok_def\<close>)
qed

text \<open>A run: an endpoint and an event appear, are joined, claimed, read and sent.\<close>

definition sample_joined :: webhook_delivery where
  "sample_joined = new_delivery 60 9 sample_event sample_endpoint"

definition sample_pipeline_db :: "webhook_delivery list \<Rightarrow> db" where
  "sample_pipeline_db ws = sample_hook_db\<lparr>db_event_seq := 2, db_deliveries := ws\<rparr>"

definition sample_hooks :: "webhook_delivery list \<Rightarrow> uuid list list \<Rightarrow> work_item list \<Rightarrow> answer list \<Rightarrow> answer list \<Rightarrow> hooks" where
  "sample_hooks ws cs js xs log =
     \<lparr>hk_db = sample_pipeline_db ws, hk_claimed = cs, hk_jobs = js, hk_answers = xs, hk_log = log\<rparr>"

definition sample_hook_job :: "webhook_delivery \<Rightarrow> work_item" where
  "sample_hook_job w = work_of w sample_event sample_endpoint"

abbreviation sample_hook_run :: "hooks \<Rightarrow> bool" where
  "sample_hook_run \<equiv> reach hook_start (hook_step sample_ext 8)"

lemma sample_joined_fields:
  "wd_id sample_joined = 9" "wd_event_id sample_joined = 7" "wd_endpoint_id sample_joined = 6" "wd_status sample_joined = ''pending''"
  "wd_attempts sample_joined = 0" "wd_next_attempt_at sample_joined = 60"
  by (simp_all add: sample_joined_def new_delivery_def sample_event_def sample_endpoint_def)

lemma sample_hook_run_joined: "sample_hook_run (sample_hooks [sample_joined] [] [] [] [])"
proof -
  let ?s = "\<lambda>d. \<lparr>hk_db = d, hk_claimed = [], hk_jobs = [], hk_answers = [], hk_log = []\<rparr>"
  let ?d1 = "empty_db\<lparr>db_endpoints := [sample_endpoint]\<rparr>"
  have r0: "sample_hook_run (?s empty_db)" by (rule reach_start) (simp add: hook_start_def empty_db_def)
  have "register_endpoint sample_ext 6 [1] 1 \<lparr>ce_url = ''https://x'', ce_event_types = []\<rparr> empty_db
      = Inr (\<lparr>cer_id = 6, cer_url = ''https://x'', cer_event_types = [], cer_secret = hex_encode sample_ext [1]\<rparr>, ?d1)"
    by (simp add: register_endpoint_def starts_with_def table_simps empty_db_def sample_endpoint_def)
  then have r1: "sample_hook_run (?s ?d1)"
    using reach_step [OF r0 hook_step.registers [where s = "?s empty_db"]] by simp
  have "emit_event 50 7 1 ''invoice.paid'' 3 JNull ?d1 = Inr (7, sample_pipeline_db [])"
    by (simp add: emit_event_Inr sample_pipeline_db_def sample_hook_db_def empty_db_def sample_event_def)
  then have r2: "sample_hook_run (sample_hooks [] [] [] [] [])"
    using reach_step [OF r1 hook_step.emits [where s = "?s ?d1"]] by (simp add: sample_hooks_def)
  have "fan_out_rows 60 (sample_pipeline_db []) = [(sample_event, sample_endpoint)]"
    by (simp add: fan_out_rows_def sample_pipeline_db_def sample_hook_db_def sample_wants) (simp add: sample_event_def seconds_def)
  then have "fan_out 60 (\<lambda>_. 9) (sample_pipeline_db []) = Inr (sample_pipeline_db [sample_joined])"
    by (simp add: fan_out_def) (simp add: sample_pipeline_db_def sample_joined_def table_simps)
  then show ?thesis
    using reach_step [OF r2 hook_step.fan [where s = "sample_hooks [] [] [] [] []"]] by (simp add: sample_hooks_def)
qed

text \<open>A claim of the sample row followed by its SELECT.\<close>

lemma sample_hook_run_claim:
  assumes "sample_hook_run (sample_hooks [w] [] js xs log)" and "delivery_due now w" and "wd_id w = 9" "wd_event_id w = 7" "wd_endpoint_id w = 6"
    and "wd_attempts w \<in> {0, 1}"
  shows "sample_hook_run (sample_hooks [claim_row now w] [] (js @ [sample_hook_job (claim_row now w)]) xs log)"
proof -
  let ?s = "sample_hooks [w] [] js xs log" and ?t = "sample_hooks [claim_row now w] [[9]] js xs log"
  have due: "due_deliveries (\<lambda>_. False) now (sample_pipeline_db [w]) = [w]"
    using assms(2) by (simp add: due_deliveries_def due_rows_def BATCH_DELIVERIES_def sample_pipeline_db_def)
  have "try_claim_row now w = Inr (claim_row now w)" using assms(6) by (auto simp: try_claim_row_def pg_int4_def)
  then have "claim_batch (\<lambda>_. False) now (hk_db ?s) = Inr ([9], sample_pipeline_db [claim_row now w])"
    using assms(3) by (simp add: claim_batch_def due sample_hooks_def) (simp add: sample_pipeline_db_def)
  then have "hook_step sample_ext 8 ?s ?t"
    using hook_step.claims [of "\<lambda>_. False" now ?s] by (simp add: sample_hooks_def)
  then have t: "sample_hook_run ?t" by (rule reach_step [OF assms(1)])
  have fields: "wd_id (claim_row now w) = 9" "wd_event_id (claim_row now w) = 7" "wd_endpoint_id (claim_row now w) = 6"
    using assms(3-5) by (simp_all add: claim_row_def)
  have "hydrate [9] (hk_db ?t) = [sample_hook_job (claim_row now w)]"
    by (simp add: hydrate_def sample_hooks_def sample_pipeline_db_def sample_hook_db_def fields sample_hook_job_def work_of_def)
      (simp add: sample_event_def sample_endpoint_def)
  then show ?thesis
    using reach_step [OF t hook_step.hydrates [of "[9]" ?t]] by (simp add: sample_hooks_def)
qed

lemma sample_hook_run_post:
  assumes "sample_hook_run (sample_hooks ws [] js xs log)" and "wk \<in> set js"
  shows "sample_hook_run (sample_hooks ws [] (remove1 wk js) ((wk, ts, r) # xs) (log @ [(wk, ts, r)]))"
  using reach_step [OF assms(1) hook_step.posts [of wk "sample_hooks ws [] js xs log" sample_ext 8 ts r]] assms(2)
  by (simp add: sample_hooks_def)

lemma sample_hook_run_mark:
  assumes "sample_hook_run (sample_hooks [w] [] js ((wk, ts, r) # xs) log)" and "wd_id w = wk_delivery wk"
  shows "sample_hook_run (sample_hooks [outcome_row (\<lambda>_. r) sample_ext 8 (ts, now, 0) wk w] [] js xs log)"
  using reach_step [OF assms(1) hook_step.marks [of wk ts r "sample_hooks [w] [] js ((wk, ts, r) # xs) log" sample_ext 8 now 0]] assms(2)
  by (simp add: sample_hooks_def send_one_row sample_pipeline_db_def update_where_def)


text \<open>The first attempt fails without an answer while a second worker, whose claim reclaimed the row, gets a 200.\<close>

definition sample_claimed :: webhook_delivery where
  "sample_claimed = claim_row 70 sample_joined"

definition sample_reclaimed :: webhook_delivery where
  "sample_reclaimed = claim_row (71 + seconds 30) sample_claimed"

definition sample_delivered :: webhook_delivery where
  "sample_delivered = outcome_row (\<lambda>_. PostStatus 200) sample_ext 8 (0, 72 + seconds 30, 0) (sample_hook_job sample_reclaimed) sample_reclaimed"

definition sample_race :: hooks where
  "sample_race = sample_hooks [sample_delivered] [] [] [(sample_hook_job sample_claimed, 0, PostError ''timeout'')]
     [(sample_hook_job sample_claimed, 0, PostError ''timeout''), (sample_hook_job sample_reclaimed, 0, PostStatus 200)]"

lemma sample_race_fields:
  "wd_id sample_claimed = 9" "wd_event_id sample_claimed = 7" "wd_endpoint_id sample_claimed = 6" "wd_attempts sample_claimed = 1"
  "wd_id sample_reclaimed = 9" "wk_delivery (sample_hook_job sample_claimed) = 9" "wk_delivery (sample_hook_job sample_reclaimed) = 9"
  "wk_attempts (sample_hook_job sample_claimed) = 1" "wd_id sample_delivered = 9" "wd_status sample_delivered = ''succeeded''"
  "wd_last_status_code sample_delivered = Some 200"
  by (simp_all add: sample_claimed_def sample_reclaimed_def claim_row_def sample_joined_fields sample_hook_job_def work_of_def
      sample_delivered_def outcome_row_def is_success_def)

lemma sample_hook_run_race: "sample_hook_run sample_race"
proof -
  let ?j1 = "sample_hook_job sample_claimed" and ?j2 = "sample_hook_job sample_reclaimed"
  have "delivery_due 70 sample_joined" by (simp add: delivery_due_def sample_joined_fields)
  then have "sample_hook_run (sample_hooks [sample_claimed] [] [?j1] [] [])"
    using sample_hook_run_claim [OF sample_hook_run_joined] by (simp add: sample_joined_fields sample_claimed_def)
  note posted = sample_hook_run_post [OF this, of ?j1 0 "PostError ''timeout''", simplified]
  have "delivery_due (71 + seconds 30) sample_claimed"
    by (simp add: delivery_due_def sample_claimed_def claim_row_def)
  then have "sample_hook_run (sample_hooks [sample_reclaimed] [] [?j2] [(?j1, 0, PostError ''timeout'')] [(?j1, 0, PostError ''timeout'')])"
    using sample_hook_run_claim [OF posted] by (simp add: sample_race_fields sample_reclaimed_def)
  note posted = sample_hook_run_post [OF this, of ?j2 0 "PostStatus 200", simplified]
  show ?thesis
    using sample_hook_run_mark [OF posted, of "72 + seconds 30"] by (simp add: sample_race_fields sample_race_def sample_delivered_def)
qed

theorem webhook_no_leak_witness:
  "\<exists>e \<in> set (db_events (hk_db sample_race)). \<exists>ep \<in> set (db_endpoints (hk_db sample_race)).
     ep_business_id ep = ev_business_id e \<and> po_url (webhook_request sample_ext 0 (sample_hook_job sample_reclaimed)) = ep_url ep"
proof -
  have "(sample_hook_job sample_reclaimed, 0, PostStatus 200) \<in> set (hk_log sample_race)"
    by (simp add: sample_race_def sample_hooks_def)
  with webhook_no_leak [OF sample_hook_run_race] show ?thesis by fastforce
qed

text \<open>
  C32: success is real. In every reachable state of the pipeline a delivery marked succeeded was
  sent in a POST that its receiver answered with a 2xx, and that code is on the row.
\<close>

theorem succeeded_acknowledged:
  assumes "reach hook_start (hook_step E m) s" and "w \<in> set (db_deliveries (hk_db s))" and "wd_status w = ''succeeded''"
  shows "\<exists>wk ts c. (wk, ts, PostStatus c) \<in> set (hk_log s) \<and> wk_delivery wk = wd_id w \<and> 200 \<le> c \<and> c < 300
     \<and> wd_last_status_code w = Some c"
  using pipeline.reach_inv [OF assms(1)] assms(2,3) by (auto simp: hooks_ok_def acknowledged_def is_success_def)

theorem succeeded_acknowledged_witness:
  "\<exists>wk ts c. (wk, ts, PostStatus c) \<in> set (hk_log sample_race) \<and> wk_delivery wk = 9 \<and> 200 \<le> c \<and> c < 300"
proof -
  have "sample_delivered \<in> set (db_deliveries (hk_db sample_race))"
    by (simp add: sample_race_def sample_hooks_def sample_pipeline_db_def)
  note succeeded_acknowledged [OF sample_hook_run_race this]
  then show ?thesis unfolding sample_race_fields by blast
qed

text \<open>
  C33: outcomes are recorded unconditionally. When a worker reports a failed send while its
  attempt is below the budget, the delivery becomes failed and is due again within the jitter,
  even if another worker, which reclaimed it after the lease ran out, has already delivered it.
\<close>

theorem late_failure_overwrites:
  fixes jitter :: u64
  assumes "reach hook_start (hook_step E m) s" and "(wk, ts, PostError err) \<in> set (hk_answers s)" and "wk_attempts wk < m"
    and "w \<in> set (db_deliveries (hk_db s))" and "wd_id w = wk_delivery wk"
  shows "\<exists>t w'. hook_step E m s t \<and> w' \<in> set (db_deliveries (hk_db t)) \<and> wd_id w' = wd_id w \<and> wd_status w' = ''failed''
     \<and> delivery_due (now + seconds (int (unat jitter))) w'"
proof (intro exI conjI)
  let ?t = "s\<lparr>hk_db := send_one E (\<lambda>_. PostError err) m ts now jitter wk (hk_db s), hk_answers := remove1 (wk, ts, PostError err) (hk_answers s)\<rparr>"
  let ?w = "outcome_row (\<lambda>_. PostError err) E m (ts, now, jitter) wk w"
  show "hook_step E m s ?t" by (rule hook_step.marks [OF assms(2)])
  show "?w \<in> set (db_deliveries (hk_db ?t))" using assms(4,5) by (auto simp: send_one_row update_where_def)
  show "wd_id ?w = wd_id w" "wd_status ?w = ''failed''" "delivery_due (now + seconds (int (unat jitter))) ?w"
    using assms(3) by (simp_all add: outcome_row_def delivery_due_def)
qed

theorem late_failure_overwrites_witness:
  "wd_status sample_delivered = ''succeeded'' \<and> db_deliveries (hk_db sample_race) = [sample_delivered]
     \<and> (\<exists>t w'. hook_step sample_ext 8 sample_race t \<and> w' \<in> set (db_deliveries (hk_db t)) \<and> wd_id w' = 9 \<and> wd_status w' = ''failed'')"
proof -
  have "(sample_hook_job sample_claimed, 0, PostError ''timeout'') \<in> set (hk_answers sample_race)"
    by (simp add: sample_race_def sample_hooks_def)
  moreover have rows: "db_deliveries (hk_db sample_race) = [sample_delivered]"
    by (simp add: sample_race_def sample_hooks_def sample_pipeline_db_def)
  ultimately show ?thesis
    using late_failure_overwrites [OF sample_hook_run_race, of "sample_hook_job sample_claimed" 0 "''timeout''" sample_delivered 0 0]
    by (auto simp: sample_race_fields)
qed

end
