(* ===== verification/Background.thy ===== *)
theory Background
  imports Config Transactions Delivery
begin

text \<open>
  The running service: \<^verbatim>\<open>main.rs\<close>, \<^verbatim>\<open>lib.rs\<close> (\<open>build_state\<close>, \<open>spawn_background_tasks\<close>), \<^verbatim>\<open>state.rs\<close> and the loops of
  the two background tasks. The process reads its configuration, connects, spawns the webhook
  dispatcher and the payment reconciler and serves requests; all three work on one database.
  Connecting and migrating (\<^verbatim>\<open>db.rs\<close>) is sqlx and the bound socket is tokio: both are parameters.
\<close>

section \<open>State and wiring\<close>

record psp_client =
  pc_timeout_ms :: u64
  pc_base_url :: string

definition new_psp_client :: "string \<Rightarrow> u64 \<Rightarrow> psp_client" where
  "new_psp_client base_url timeout = \<lparr>pc_timeout_ms = timeout, pc_base_url = base_url\<rparr>"

text \<open>The pool of \<open>AppState\<close> is the database, which the definitions pass along as a value.\<close>

record app_state =
  st_psp :: psp_client
  st_config :: service_config

definition build_state :: "service_config \<Rightarrow> app_state" where
  "build_state config =
     \<lparr>st_psp = new_psp_client (psp_base_url config) (psp_timeout_ms config), st_config = config\<rparr>"

definition SEND_TIMEOUT :: nat where "SEND_TIMEOUT = 10"

record dispatcher =
  dp_http_timeout :: nat
  dp_max_attempts :: int

definition new_dispatcher :: "int \<Rightarrow> dispatcher" where
  "new_dispatcher max_attempts = \<lparr>dp_http_timeout = SEND_TIMEOUT, dp_max_attempts = max_attempts\<rparr>"

section \<open>The loops\<close>

text \<open>
  What one wake-up of a task meets: times, new ids, rows locked by others, the answers of the
  receivers or of the provider. \<^verbatim>\<open>tokio::select!\<close> takes one of two arms; the arm of the token can
  only be taken once the token is cancelled. An error of a tick is logged and the loop goes on.
\<close>

record dispatcher_wake =
  dk_fan_at :: timestamp
  dk_ids :: "nat \<Rightarrow> uuid"
  dk_claim_at :: timestamp
  dk_locked :: "uuid \<Rightarrow> bool"
  dk_post :: "webhook_post \<Rightarrow> post_result"
  dk_draws :: "nat \<Rightarrow> i64 \<times> timestamp \<times> u64"

record reconciler_wake =
  rk_at :: timestamp
  rk_locked :: "uuid \<Rightarrow> bool"
  rk_psp :: "string \<Rightarrow> i64 \<Rightarrow> string \<Rightarrow> psp_result"
  rk_draws :: "(timestamp \<times> uuid) list"

datatype 'k arm = Cancelled | Elapsed 'k

definition dispatcher_tick :: "ext \<Rightarrow> dispatcher \<Rightarrow> dispatcher_wake \<Rightarrow> db \<Rightarrow> db" where
  "dispatcher_tick E dp k d =
     (let d1 = (case fan_out (dk_fan_at k) (dk_ids k) d of Inl e \<Rightarrow> d | Inr d' \<Rightarrow> d')
      in case deliver_batch E (dk_post k) (dp_max_attempts dp) (dk_locked k) (dk_claim_at k) (dk_draws k) d1 of
           Inl e \<Rightarrow> d1
         | Inr d' \<Rightarrow> d')"

text \<open>One iteration: the task that goes on, or none when it returns, and the database.\<close>

definition dispatcher_iteration ::
  "ext \<Rightarrow> bool \<Rightarrow> dispatcher_wake arm \<Rightarrow> dispatcher \<Rightarrow> db \<Rightarrow> dispatcher option \<times> db" where
  "dispatcher_iteration E cancelled arm dp d =
     (case arm of
        Cancelled \<Rightarrow> (if cancelled then None else Some dp, d)
      | Elapsed k \<Rightarrow> (Some dp, dispatcher_tick E dp k d))"

definition reconciler_iteration ::
  "ext \<Rightarrow> bool \<Rightarrow> reconciler_wake arm \<Rightarrow> app_state \<Rightarrow> db \<Rightarrow> app_state option \<times> charge_call list \<times> db" where
  "reconciler_iteration E cancelled arm st d =
     (case arm of
        Cancelled \<Rightarrow> (if cancelled then None else Some st, [], d)
      | Elapsed k \<Rightarrow> (Some st, tick E (rk_psp k) (rk_draws k) (rk_locked k) (rk_at k) d))"

section \<open>The process\<close>

record process =
  pr_state :: app_state
  pr_db :: db
  pr_cancelled :: bool
  pr_dispatcher :: "dispatcher option"
  pr_reconciler :: "app_state option"
  pr_calls :: "charge_call list"

definition spawn_background_tasks :: "app_state \<Rightarrow> db \<Rightarrow> process" where
  "spawn_background_tasks st d =
     \<lparr>pr_state = st, pr_db = d, pr_cancelled = False,
      pr_dispatcher = Some (new_dispatcher (webhook_max_attempts (st_config st))), pr_reconciler = Some st,
      pr_calls = []\<rparr>"

text \<open>
  \<open>main\<close>: \<open>connect\<close> opens and migrates the database of a URL, \<open>bind\<close> the socket of an address. The
  tasks are spawned before the socket is bound, so they run even if binding fails; the process
  then ends with the error.
\<close>

definition main_start ::
  "(string \<Rightarrow> (string, db) result) \<Rightarrow> (string \<Rightarrow> (string, unit) result) \<Rightarrow> (string \<rightharpoonup> string) \<Rightarrow> (string, process) result" where
  "main_start connect bind env =
     res_bind (from_env env) (\<lambda>config.
     res_bind (connect (database_url config)) (\<lambda>d.
       let p = spawn_background_tasks (build_state config) d
       in res_bind (bind (bind_addr config)) (\<lambda>_. Inr p)))"

datatype process_event =
    Request "string \<Rightarrow> i64 \<Rightarrow> string \<Rightarrow> psp_result" draws "u8 list option" api_request
  | TouchKey timestamp string
  | ShutdownSignal
  | DispatcherWakes "dispatcher_wake arm"
  | ReconcilerWakes "reconciler_wake arm"

text \<open>
  The process runs one request, one \<open>last_used_at\<close> update or one iteration of a task after the
  other; a task that has returned does nothing. The shutdown signal cancels the token. \<open>pr_calls\<close>
  records the charges sent to the provider. The interleavings inside a request or a tick are the
  subject of \<open>Delivery\<close> and \<open>System\<close>.
\<close>

definition shutdown_signal :: "process \<Rightarrow> process" where
  "shutdown_signal p = p\<lparr>pr_cancelled := True\<rparr>"

fun process_step :: "ext \<Rightarrow> process_event \<Rightarrow> process \<Rightarrow> process" where
  "process_step E (Request psp dr authorization req) p =
     (let ((reply, d'), calls) = serve_request E psp dr authorization req (pr_db p)
      in p\<lparr>pr_db := d', pr_calls := pr_calls p @ calls\<rparr>)"
| "process_step E (TouchKey now pre) p = p\<lparr>pr_db := touch_last_used now pre (pr_db p)\<rparr>"
| "process_step E ShutdownSignal p = shutdown_signal p"
| "process_step E (DispatcherWakes arm) p =
     (case pr_dispatcher p of
        None \<Rightarrow> p
      | Some dp \<Rightarrow>
          let (task, d') = dispatcher_iteration E (pr_cancelled p) arm dp (pr_db p)
          in p\<lparr>pr_dispatcher := task, pr_db := d'\<rparr>)"
| "process_step E (ReconcilerWakes arm) p =
     (case pr_reconciler p of
        None \<Rightarrow> p
      | Some st \<Rightarrow>
          let (task, calls, d') = reconciler_iteration E (pr_cancelled p) arm st (pr_db p)
          in p\<lparr>pr_reconciler := task, pr_db := d', pr_calls := pr_calls p @ calls\<rparr>)"

definition process_run :: "ext \<Rightarrow> process_event list \<Rightarrow> process \<Rightarrow> process" where
  "process_run E es p = fold (process_step E) es p"

section \<open>Lemmas: the process is a sequence of transactions\<close>

text \<open>The attempt budget the dispatcher was started with; it never changes.\<close>

definition budget_ok :: "int \<Rightarrow> process \<Rightarrow> bool" where
  "budget_ok m p \<longleftrightarrow> pr_dispatcher p = None \<or> pr_dispatcher p = Some (new_dispatcher m)"

context transactional
begin

lemma dispatcher_tick_keeps:
  assumes "dp_max_attempts dp = m"
  shows "keeps d (dispatcher_tick E dp k d)"
proof -
  let ?d1 = "case fan_out (dk_fan_at k) (dk_ids k) d of Inl e \<Rightarrow> d | Inr d' \<Rightarrow> d'"
  have "keeps d ?d1" by (auto intro: keeps_refl keeps_fan split: sum.splits)
  moreover have "keeps ?d1 (dispatcher_tick E dp k d)"
    using assms by (auto simp: dispatcher_tick_def Let_def intro: keeps_refl keeps_deliver split: sum.splits)
  ultimately show ?thesis by (rule keeps_trans)
qed

lemma process_step_keeps:
  assumes "budget_ok m p"
  shows "budget_ok m (process_step E e p) \<and> keeps (pr_db p) (pr_db (process_step E e p))"
proof (cases e)
  case (Request psp dr authorization req)
  then show ?thesis using assms serve_does [of psp dr authorization req "pr_db p"] by (auto simp: budget_ok_def split: prod.splits)
next
  case (DispatcherWakes arm)
  then show ?thesis
    using assms dispatcher_tick_keeps [of "new_dispatcher m"] keeps_refl
    by (auto simp: budget_ok_def dispatcher_iteration_def new_dispatcher_def split: option.splits arm.splits)
next
  case (ReconcilerWakes arm)
  then show ?thesis
    using assms tick_keeps keeps_refl
    by (auto simp: budget_ok_def reconciler_iteration_def split_beta split: option.splits arm.splits)
qed (use assms keeps_refl keeps_touch in \<open>auto simp: budget_ok_def shutdown_signal_def\<close>)

lemma process_run_keeps: "budget_ok m p \<Longrightarrow> keeps (pr_db p) (pr_db (process_run E es p))"
proof (induction es arbitrary: p)
  case (Cons e es)
  have step: "budget_ok m (process_step E e p)" "keeps (pr_db p) (pr_db (process_step E e p))"
    using process_step_keeps [OF Cons.prems] by simp_all
  show ?case using keeps_trans [OF step(2) Cons.IH [OF step(1)]] by (simp add: process_run_def)
qed (simp add: process_run_def keeps_refl)

end

section \<open>Lemmas: the process is a run of the webhook pipeline\<close>

abbreviation idle :: "db \<Rightarrow> answer list \<Rightarrow> hooks" where
  "idle d log \<equiv> \<lparr>hk_db = d, hk_claimed = [], hk_jobs = [], hk_answers = [], hk_log = log\<rparr>"

definition pipeline_run :: "ext \<Rightarrow> int \<Rightarrow> db \<Rightarrow> db \<Rightarrow> bool" where
  "pipeline_run E m d d' \<longleftrightarrow> (\<forall>log. \<exists>log'. (hook_step E m)\<^sup>*\<^sup>* (idle d log) (idle d' log'))"

lemma pipeline_run_refl [simp]: "pipeline_run E m d d"
  unfolding pipeline_run_def by blast

lemma pipeline_run_trans [trans]: "pipeline_run E m d d' \<Longrightarrow> pipeline_run E m d' d'' \<Longrightarrow> pipeline_run E m d d''"
  unfolding pipeline_run_def by (meson rtranclp_trans)

lemma pipeline_run_step:
  assumes "\<And>log. hook_step E m (idle d log) (idle d' log)"
  shows "pipeline_run E m d d'"
  unfolding pipeline_run_def using assms by blast

lemma elsewhere_run: "same_hooks d d' \<Longrightarrow> pipeline_run E m d d'"
  using hook_step.elsewhere [of "idle d _" d'] by (intro pipeline_run_step) simp

text \<open>Appending one fresh event, whatever happens to the other tables.\<close>

lemma emit_run:
  assumes "db_events d' = db_events d @ [e]" and "\<forall>e' \<in> set (db_events d). ev_id e' \<noteq> ev_id e"
    and "db_deliveries d' = db_deliveries d" and "db_endpoints d' = db_endpoints d"
  shows "pipeline_run E m d d'"
proof -
  let ?d0 = "d\<lparr>db_event_seq := ev_sequence e\<rparr>"
  let ?d1 = "?d0\<lparr>db_events := db_events d @ [e], db_event_seq := ev_sequence e + 1\<rparr>"
  have "emit_event (ev_created_at e) (ev_id e) (ev_business_id e) (ev_event_type e) (ev_aggregate_id e) (ev_payload e) ?d0
      = Inr (ev_id e, ?d1)"
    using assms(2) by (simp add: emit_event_Inr)
  then have "pipeline_run E m ?d0 ?d1"
    using hook_step.emits [of _ _ _ _ _ _ "idle ?d0 _"] by (intro pipeline_run_step) fastforce
  moreover have "pipeline_run E m d ?d0" by (rule elsewhere_run) (simp add: same_hooks_def)
  moreover have "pipeline_run E m ?d1 d'" by (rule elsewhere_run) (use assms in \<open>simp add: same_hooks_def\<close>)
  ultimately show ?thesis by (blast intro: pipeline_run_trans)
qed

lemma finalize_run:
  assumes "finalize_tx E now eid b i aid key amt res d = Inr (out, d')"
  shows "pipeline_run E m d d'"
proof (cases "definite res")
  case True
  have "ev_id (paid_event E now eid b i aid amt res d) = eid" by (simp add: paid_event_def emitted_event_def)
  then show ?thesis
    using True finalize_tx_rows [OF assms] finalize_tx_other_tables [OF assms]
    by (intro emit_run [where e = "paid_event E now eid b i aid amt res d"]) simp_all
next
  case False
  then show ?thesis
    using finalize_tx_rows [OF assms] finalize_tx_other_tables [OF assms] by (intro elsewhere_run) (simp add: same_hooks_def)
qed

lemma claim_run: "pay_tx1 E now kid aid b i key tok st amt d = (c, d') \<Longrightarrow> pipeline_run E m d d'"
  by (rule elsewhere_run, cases c) (auto simp: pay_tx1_Claimed pay_tx1_Replay same_hooks_def dest: pay_tx1_Rejected)

text \<open>The dispatcher: the claim, the SELECT, and for each job its POST and its UPDATE.\<close>

lemma send_one_result: "send_one E (\<lambda>_. post (webhook_request E ts wk)) m ts now jitter wk d = send_one E post m ts now jitter wk d"
  by (simp add: send_one_def)

lemma jobs_run:
  "\<exists>log'. (hook_step E m)\<^sup>*\<^sup>* \<lparr>hk_db = d, hk_claimed = [], hk_jobs = js, hk_answers = [], hk_log = log\<rparr>
     (idle (fold (\<lambda>(n, wk) d'. let (ts, t, jitter) = draws n in send_one E post m ts t jitter wk d') (enumerate n js) d) log')"
proof (induction js arbitrary: n d log)
  case (Cons wk js)
  obtain ts t jitter where dn: "draws n = (ts, t, jitter)" by (cases "draws n")
  let ?r = "post (webhook_request E ts wk)" and ?d = "send_one E post m ts t jitter wk d"
  let ?s = "\<lparr>hk_db = d, hk_claimed = [], hk_jobs = wk # js, hk_answers = [], hk_log = log\<rparr>"
  let ?s1 = "\<lparr>hk_db = d, hk_claimed = [], hk_jobs = js, hk_answers = [(wk, ts, ?r)], hk_log = log @ [(wk, ts, ?r)]\<rparr>"
  let ?s2 = "\<lparr>hk_db = ?d, hk_claimed = [], hk_jobs = js, hk_answers = [], hk_log = log @ [(wk, ts, ?r)]\<rparr>"
  have "hook_step E m ?s ?s1" using hook_step.posts [of wk ?s E m ts ?r] by simp
  moreover have "hook_step E m ?s1 ?s2" using hook_step.marks [of wk ts ?r ?s1 E m t jitter] by (simp add: send_one_result)
  ultimately have "(hook_step E m)\<^sup>*\<^sup>* ?s ?s2" by (meson r_into_rtranclp rtranclp.rtrancl_into_rtrancl)
  with Cons.IH [of ?d "log @ [(wk, ts, ?r)]" "Suc n"] show ?case by (simp add: dn) (meson rtranclp_trans)
qed auto

lemma deliver_run:
  assumes "deliver_batch E post m locked now draws d = Inr d'"
  shows "pipeline_run E m d d'"
  unfolding pipeline_run_def
proof
  fix log
  obtain ids d1 where claim: "claim_batch locked now d = Inr (ids, d1)"
      and d': "d' = fold (\<lambda>(n, wk) d'. let (ts, t, jitter) = draws n in send_one E post m ts t jitter wk d') (enumerate 0 (hydrate ids d1)) d1"
    using assms by (auto simp: deliver_batch_def result_simps)
  let ?s1 = "\<lparr>hk_db = d1, hk_claimed = [ids], hk_jobs = [], hk_answers = [], hk_log = log\<rparr>"
  let ?s2 = "\<lparr>hk_db = d1, hk_claimed = [], hk_jobs = hydrate ids d1, hk_answers = [], hk_log = log\<rparr>"
  have "hook_step E m (idle d log) ?s1" using hook_step.claims [of locked now "idle d log" ids d1] claim by simp
  moreover have "hook_step E m ?s1 ?s2" using hook_step.hydrates [of ids ?s1] by simp
  ultimately have "(hook_step E m)\<^sup>*\<^sup>* (idle d log) ?s2" by (meson r_into_rtranclp rtranclp.rtrancl_into_rtrancl)
  with jobs_run [of E m d1 "hydrate ids d1" log draws post 0] show "\<exists>log'. (hook_step E m)\<^sup>*\<^sup>* (idle d log) (idle d' log')"
    unfolding d' by (meson rtranclp_trans)
qed

text \<open>Every transaction of the service is a run of the pipeline, so requests and ticks are.\<close>

lemma create_run:
  assumes "create_tx E now new_ids b req d = Inr (r, d')"
  shows "pipeline_run E m d d'"
proof -
  from create_tx_frame [OF assms] obtain e where "db_events d' = db_events d @ [e]" "\<forall>e' \<in> set (db_events d). ev_id e' \<noteq> ev_id e"
      "db_deliveries d' = db_deliveries d" "db_endpoints d' = db_endpoints d" by auto
  then show ?thesis by (rule emit_run)
qed

lemma transition_run:
  assumes "transition now b i frm to d = Inr (iv', d')"
  shows "pipeline_run E m d d'"
  by (rule elsewhere_run) (use assms in \<open>auto simp: transition_def Let_def result_simps same_hooks_def split: option.splits\<close>)

lemma hook_laws:
  "register_endpoint E i secret b ereq d = Inr (er, d') \<Longrightarrow> pipeline_run E m d d'"
  "redeliver now b i d = Inr d' \<Longrightarrow> pipeline_run E m d d'"
  "fan_out now new_ids d = Inr d' \<Longrightarrow> pipeline_run E m d d'"
  using hook_step.registers [of E i secret b ereq "idle d _"] hook_step.redelivers [of now b i "idle d _"]
    hook_step.fan [of now new_ids "idle d _"]
  by (auto intro!: pipeline_run_step)

interpretation webhooks: transactional E m "pipeline_run E m" for E m
  by unfold_locales
    (auto intro: pipeline_run_trans create_run transition_run claim_run finalize_run hook_laws deliver_run elsewhere_run
      simp: touch_last_used_def api_key_insert_def api_key_revoke_def customer_insert_Inr lease_batch_def Let_def same_hooks_def
      split: if_splits)

lemma process_run_hooks: "budget_ok m p \<Longrightarrow> pipeline_run E m (pr_db p) (pr_db (process_run E es p))"
  by (rule webhooks.process_run_keeps)

section \<open>Lemmas: the reconciler drains its backlog\<close>

text \<open>Which attempts a statement may have changed; a settled attempt stays settled.\<close>

definition attempts_kept :: "uuid set \<Rightarrow> db \<Rightarrow> db \<Rightarrow> bool" where
  "attempts_kept I d d' \<longleftrightarrow> list_all2 (\<lambda>a a'. pa_id a' = pa_id a \<and> (pa_status a' = Pending \<longrightarrow> pa_status a = Pending)
     \<and> (pa_id a \<notin> I \<longrightarrow> a' = a)) (db_attempts d) (db_attempts d')"

lemma attempts_kept_same: "db_attempts d' = db_attempts d \<Longrightarrow> attempts_kept I d d'"
  by (simp add: attempts_kept_def list_all2_same_eq)

lemma attempts_kept_trans:
  assumes "attempts_kept I d d'" and "attempts_kept J d' d''"
  shows "attempts_kept (I \<union> J) d d''"
  unfolding attempts_kept_def
  by (rule list_all2_trans [OF _ assms(1) [unfolded attempts_kept_def] assms(2) [unfolded attempts_kept_def]]) auto

lemma attempts_kept_mono: "attempts_kept I d d' \<Longrightarrow> I \<subseteq> J \<Longrightarrow> attempts_kept J d d'"
  unfolding attempts_kept_def by (erule list_all2_mono) auto

lemma attempts_kept_facts:
  assumes "attempts_kept I d d'"
  shows "map pa_id (db_attempts d') = map pa_id (db_attempts d)"
    and "pa_id a \<notin> I \<Longrightarrow> a \<in> set (db_attempts d) \<Longrightarrow> a \<in> set (db_attempts d')"
    and "pa_id ` {x \<in> set (db_attempts d'). pa_status x = Pending} \<subseteq> pa_id ` {x \<in> set (db_attempts d). pa_status x = Pending}"
  using assms unfolding attempts_kept_def by (induction rule: list_all2_induct) auto

lemma finalize_attempts_kept:
  assumes "finalize_tx E now eid b i aid key amt res d = Inr (out, d')"
  shows "attempts_kept {aid} d d'"
  unfolding attempts_kept_def
  by (rule list_all2_mono [OF finalize_tx_rows(2) [OF assms]])
    (cases res; auto simp: pending_attempt_def attempt_succeeded_def attempt_failed_def unknown_rel_def
      attempt_unknown_def result_simps split: if_splits)

lemma reconcile_rows_kept: "attempts_kept (jb_attempt ` set rows) d (snd (reconcile_rows E psp draws rows d))"
proof (induction E psp draws rows d rule: reconcile_rows.induct)
  case (1 E psp draw draws row rows d)
  let ?d = "reconcile_row E psp draw row d"
  have "attempts_kept {jb_attempt row} d ?d"
    using reconcile_row_cases [of E psp draw row d] finalize_attempts_kept attempts_kept_same by metis
  from attempts_kept_trans [OF this "1.IH"] show ?case by (simp add: split_beta Let_def)
qed (simp_all add: attempts_kept_same)

lemma tick_kept: "attempts_kept (pa_id ` set (due_batch locked now d)) d (snd (tick E psp draws locked now d))"
proof -
  let ?I = "pa_id ` set (due_batch locked now d)" and ?d = "snd (lease_batch locked now d)"
  have "attempts_kept ?I d ?d"
    by (auto simp: attempts_kept_def lease_batch_def Let_def lease_row_def update_where_def list_all2_conv_all_nth)
  moreover have "attempts_kept ?I ?d (snd (tick E psp draws locked now d))"
    using reconcile_rows_kept [of "map leased_row_of (due_batch locked now d)" ?d E psp draws]
    by (simp add: tick_def lease_batch_def Let_def leased_row_of_def image_image)
  ultimately show ?thesis using attempts_kept_trans by fastforce
qed


lemma can_settle_subset:
  "can_settle ids d \<Longrightarrow> set ids' \<subseteq> set ids \<Longrightarrow> distinct ids' \<Longrightarrow> can_settle ids' d"
  by (auto simp: can_settle_def)

lemma reconcile_rows_can_settle:
  "can_settle (map snd draws @ ids) d \<Longrightarrow> can_settle ids (snd (reconcile_rows E psp draws rows d))"
proof (induction E psp draws rows d rule: reconcile_rows.induct)
  case (1 E psp draw draws row rows d)
  have "can_settle (map snd draws @ ids) (reconcile_row E psp draw row d)"
    using reconcile_row_can_settle "1.prems" by simp
  then show ?case using "1.IH" by (simp add: split_beta Let_def)
qed (auto elim!: can_settle_subset simp: can_settle_def)

text \<open>A tick against a provider that answers settles its whole batch, and keeps what was settled.\<close>

lemma lease_settle:
  "can_settle ids (snd (lease_batch locked now d)) \<longleftrightarrow> can_settle ids d"
  "settled_in psp row d \<Longrightarrow> settled_in psp row (snd (lease_batch locked now d))"
  by (auto simp: lease_batch_def Let_def can_settle_def settled_in_def lease_row_def update_where_def)

lemma tick_settled_in:
  assumes "can_settle (map snd draws @ ids) d" and "BATCH \<le> length draws" and "\<forall>t m k. definite (psp t m k)"
    and "settled_in psp row d \<or> (\<exists>a \<in> set (due_batch locked now d). row = leased_row_of a)"
  shows "settled_in psp row (snd (tick E psp draws locked now d))"
proof -
  let ?rows = "map leased_row_of (due_batch locked now d)" and ?d = "snd (lease_batch locked now d)"
  have run: "snd (tick E psp draws locked now d) = snd (reconcile_rows E psp draws ?rows ?d)"
    by (simp add: tick_def lease_batch_def Let_def)
  have "can_settle (map snd draws) ?d"
    using assms(1) unfolding lease_settle(1) by (rule can_settle_subset) (use assms(1) in \<open>auto simp: can_settle_def\<close>)
  moreover have "length ?rows \<le> length draws" using length_due_batch [of locked now d] assms(2) by simp
  moreover have "settled_in psp row ?d \<or> row \<in> set ?rows \<and> definite (psp (jb_token row) (jb_amount row) (jb_key row))"
    using assms(3,4) lease_settle(2) by auto
  ultimately show ?thesis unfolding run by (rule reconcile_rows_settle)
qed

definition pending_ids :: "db \<Rightarrow> uuid set" where
  "pending_ids d = pa_id ` {a \<in> set (db_attempts d). pa_status a = Pending}"

lemma distinct_due_batch: "distinct (map pa_id (db_attempts d)) \<Longrightarrow> distinct (map pa_id (due_batch locked now d))"
  unfolding due_batch_def due_rows_def take_map [symmetric]
  by (intro distinct_take) (simp add: distinct_map distinct_map_filter inj_on_def)

text \<open>An attempt that is due, not locked and still not settled was crowded out by a full batch.\<close>

lemma tick_takes_batch:
  assumes "can_settle (map snd draws @ ids) d" and "BATCH \<le> length draws" and "\<forall>t m k. definite (psp t m k)"
    and "distinct (map pa_id (db_attempts d))" and "a \<in> set (db_attempts d)" and "poll_due now a" and "\<not> locked (pa_id a)"
    and "\<not> settled_in psp (leased_row_of a) (snd (tick E psp draws locked now d))"
  shows "a \<in> set (db_attempts (snd (tick E psp draws locked now d)))
    \<and> card (pending_ids (snd (tick E psp draws locked now d))) + BATCH \<le> card (pending_ids d)"
proof -
  let ?b = "due_batch locked now d" and ?d = "snd (tick E psp draws locked now d)"
  have out: "a \<notin> set ?b" using assms(8) tick_settled_in [OF assms(1-3), where row = "leased_row_of a"] by blast
  have full: "length ?b = BATCH"
    unfolding due_batch_def by (rule due_rows_full [OF assms(5)]) (use assms(6,7) out in \<open>simp_all add: due_batch_def\<close>)
  have "x = a" if "x \<in> set (db_attempts d)" "pa_id x = pa_id a" for x
    using that assms(4,5) by (auto simp: distinct_map inj_on_def)
  then have "pa_id a \<notin> pa_id ` set ?b" using out due_batch_due by (metis imageE)
  then have stays: "a \<in> set (db_attempts ?d)" using attempts_kept_facts(2) [OF tick_kept] assms(5) by blast
  have "pa_status x \<noteq> Pending" if y: "y \<in> set ?b" "x \<in> set (db_attempts ?d)" "pa_id x = pa_id y" for x y
  proof -
    have "settled_in psp (leased_row_of y) ?d" using y(1) by (intro tick_settled_in [OF assms(1-3)]) blast
    then show ?thesis using y(2,3) unfolding settled_in_def leased_row_of_def by simp
  qed
  then have "pending_ids ?d \<inter> pa_id ` set ?b = {}" by (auto simp: pending_ids_def)
  moreover have "pending_ids ?d \<subseteq> pending_ids d" using attempts_kept_facts(3) [OF tick_kept] by (simp add: pending_ids_def)
  moreover have "pa_id ` set ?b \<subseteq> pending_ids d"
    by (auto simp: pending_ids_def poll_due_def dest!: due_batch_due)
  ultimately have "card (pending_ids ?d) + card (pa_id ` set ?b) \<le> card (pending_ids d)"
    by (subst card_Un_disjoint [symmetric]) (auto intro!: card_mono simp: pending_ids_def)
  moreover have "card (pa_id ` set ?b) = BATCH"
    using distinct_card [OF distinct_due_batch [OF assms(4), of locked now]] full by simp
  ultimately show ?thesis using stays by simp
qed

text \<open>The dispatcher writes deliveries only.\<close>

lemma deliver_frame:
  assumes "deliver_batch E post m locked now draws d = Inr d'"
  shows "\<exists>t. d' = d\<lparr>db_deliveries := t\<rparr>"
proof -
  obtain ids d1 where claim: "claim_batch locked now d = Inr (ids, d1)"
      and d': "d' = fold (\<lambda>(n, wk) d'. let (ts, t, jitter) = draws n in send_one E post m ts t jitter wk d') (enumerate 0 (hydrate ids d1)) d1"
    using assms by (auto simp: deliver_batch_def result_simps)
  show ?thesis unfolding d' deliver_fold using claim_batch_Inr [OF claim] by auto
qed

lemma dispatcher_tick_frame: "\<exists>t. dispatcher_tick E dp k d = d\<lparr>db_deliveries := t\<rparr>"
proof -
  let ?d1 = "case fan_out (dk_fan_at k) (dk_ids k) d of Inl e \<Rightarrow> d | Inr d' \<Rightarrow> d'"
  obtain t1 where d1: "?d1 = d\<lparr>db_deliveries := t1\<rparr>"
    by (cases "fan_out (dk_fan_at k) (dk_ids k) d") (auto simp: fan_out_def result_simps, metis db.surjective db.update_convs(10))
  show ?thesis
    unfolding dispatcher_tick_def Let_def d1
    by (cases "deliver_batch E (dk_post k) (dp_max_attempts dp) (dk_locked k) (dk_claim_at k) (dk_draws k) (d\<lparr>db_deliveries := t1\<rparr>)")
      (auto dest!: deliver_frame)
qed


text \<open>
  A schedule in which the reconciler can do its work on the attempt \<open>a\<close>: no request and no
  shutdown, and whenever it wakes the attempt is due and no other transaction holds it.
\<close>

fun undisturbed :: "(string \<Rightarrow> i64 \<Rightarrow> string \<Rightarrow> psp_result) \<Rightarrow> payment_attempt \<Rightarrow> process_event \<Rightarrow> bool" where
  "undisturbed psp a (ReconcilerWakes (Elapsed k)) \<longleftrightarrow>
     rk_psp k = psp \<and> BATCH \<le> length (rk_draws k) \<and> poll_due (rk_at k) a \<and> \<not> rk_locked k (pa_id a)"
| "undisturbed psp a (Request _ _ _ _) \<longleftrightarrow> False"
| "undisturbed psp a ShutdownSignal \<longleftrightarrow> False"
| "undisturbed psp a _ \<longleftrightarrow> True"

fun reconciles :: "process_event \<Rightarrow> bool" where
  "reconciles (ReconcilerWakes (Elapsed k)) \<longleftrightarrow> True"
| "reconciles _ \<longleftrightarrow> False"

text \<open>The event ids the ticks of a schedule draw.\<close>

fun drawn_ids :: "process_event \<Rightarrow> uuid list" where
  "drawn_ids (ReconcilerWakes (Elapsed k)) = map snd (rk_draws k)"
| "drawn_ids _ = []"

definition drain_ready ::
  "(string \<Rightarrow> i64 \<Rightarrow> string \<Rightarrow> psp_result) \<Rightarrow> payment_attempt \<Rightarrow> process_event list \<Rightarrow> process \<Rightarrow> bool" where
  "drain_ready psp a es p \<longleftrightarrow> (\<forall>t m k. definite (psp t m k)) \<and> pr_reconciler p \<noteq> None \<and> \<not> pr_cancelled p
     \<and> distinct (map pa_id (db_attempts (pr_db p))) \<and> can_settle (concat (map drawn_ids es)) (pr_db p)
     \<and> (\<forall>e \<in> set es. undisturbed psp a e)
     \<and> (settled_in psp (leased_row_of a) (pr_db p) \<or> a \<in> set (db_attempts (pr_db p)) \<and> pa_status a = Pending)"

text \<open>An event that leaves the tables of the payment flow alone keeps everything.\<close>

lemma drain_frame:
  assumes "drain_ready psp a (e # es) p" and "drawn_ids e = []" and "pr_reconciler p' = pr_reconciler p" "pr_cancelled p' = pr_cancelled p"
    and "db_attempts (pr_db p') = db_attempts (pr_db p)" "db_invoices (pr_db p') = db_invoices (pr_db p)"
      "db_keys (pr_db p') = db_keys (pr_db p)" "db_events (pr_db p') = db_events (pr_db p)"
  shows "drain_ready psp a es p' \<and> (settled_in psp (leased_row_of a) (pr_db p') \<longleftrightarrow> settled_in psp (leased_row_of a) (pr_db p))
     \<and> pending_ids (pr_db p') = pending_ids (pr_db p)"
proof -
  have "settled_in psp (leased_row_of a) (pr_db p') \<longleftrightarrow> settled_in psp (leased_row_of a) (pr_db p)"
    using assms(5-7) by (simp add: settled_in_def)
  moreover have "can_settle ids (pr_db p') \<longleftrightarrow> can_settle ids (pr_db p)" for ids
    using assms(6,8) by (simp add: can_settle_def)
  ultimately show ?thesis using assms by (auto simp: drain_ready_def pending_ids_def)
qed

lemma quiet_step:
  assumes "drain_ready psp a (e # es) p" and "\<not> reconciles e"
  shows "drain_ready psp a es (process_step E e p)
     \<and> (settled_in psp (leased_row_of a) (pr_db (process_step E e p)) \<longleftrightarrow> settled_in psp (leased_row_of a) (pr_db p))
     \<and> pending_ids (pr_db (process_step E e p)) = pending_ids (pr_db p)"
proof (rule drain_frame [OF assms(1)])
  have und: "undisturbed psp a e" "\<not> pr_cancelled p" "pr_reconciler p \<noteq> None" using assms(1) by (simp_all add: drain_ready_def)
  have frame: "db_attempts (dispatcher_tick E dp k d) = db_attempts d" "db_invoices (dispatcher_tick E dp k d) = db_invoices d"
    "db_keys (dispatcher_tick E dp k d) = db_keys d" "db_events (dispatcher_tick E dp k d) = db_events d" for dp k d
    using dispatcher_tick_frame [of E dp k d] by auto
  show "drawn_ids e = []" using assms(2) by (cases e rule: drawn_ids.cases) simp_all
  show "pr_reconciler (process_step E e p) = pr_reconciler p" "pr_cancelled (process_step E e p) = pr_cancelled p"
    "db_attempts (pr_db (process_step E e p)) = db_attempts (pr_db p)" "db_invoices (pr_db (process_step E e p)) = db_invoices (pr_db p)"
    "db_keys (pr_db (process_step E e p)) = db_keys (pr_db p)" "db_events (pr_db (process_step E e p)) = db_events (pr_db p)"
    using und assms(2) frame
    by (cases e rule: reconciles.cases; auto simp: touch_last_used_def dispatcher_iteration_def reconciler_iteration_def Let_def
        split: option.splits arm.splits)+
qed

lemma tick_step:
  assumes "drain_ready psp a (ReconcilerWakes (Elapsed k) # es) p" and "p' = process_step E (ReconcilerWakes (Elapsed k)) p"
  shows "drain_ready psp a es p'"
    and "settled_in psp (leased_row_of a) (pr_db p) \<Longrightarrow> settled_in psp (leased_row_of a) (pr_db p')"
    and "\<not> settled_in psp (leased_row_of a) (pr_db p) \<Longrightarrow> \<not> settled_in psp (leased_row_of a) (pr_db p')
      \<Longrightarrow> card (pending_ids (pr_db p')) + BATCH \<le> card (pending_ids (pr_db p))"
proof -
  let ?d = "pr_db p" and ?row = "leased_row_of a"
  define d' where "d' = snd (tick E psp (rk_draws k) (rk_locked k) (rk_at k) ?d)"
  have und: "\<forall>t m k. definite (psp t m k)" "rk_psp k = psp" "BATCH \<le> length (rk_draws k)" "poll_due (rk_at k) a" "\<not> rk_locked k (pa_id a)"
    "distinct (map pa_id (db_attempts ?d))" "can_settle (map snd (rk_draws k) @ concat (map drawn_ids es)) ?d"
    "settled_in psp ?row ?d \<or> a \<in> set (db_attempts ?d) \<and> pa_status a = Pending"
    using assms(1) by (simp_all add: drain_ready_def)
  obtain st calls where p': "p' = p\<lparr>pr_reconciler := Some st, pr_db := d', pr_calls := calls\<rparr>"
    using assms und(2) by (auto simp: drain_ready_def reconciler_iteration_def d'_def split_beta)
  show kept: "settled_in psp ?row ?d \<Longrightarrow> settled_in psp ?row (pr_db p')"
    using tick_settled_in [OF und(7,3,1)] by (simp add: p' d'_def)
  have crowded: "a \<in> set (db_attempts d') \<and> card (pending_ids d') + BATCH \<le> card (pending_ids ?d)"
    if "\<not> settled_in psp ?row ?d" "\<not> settled_in psp ?row d'"
    unfolding d'_def by (rule tick_takes_batch [OF und(7,3,1,6)]) (use und that in \<open>auto simp: d'_def\<close>)
  then show "\<not> settled_in psp ?row ?d \<Longrightarrow> \<not> settled_in psp ?row (pr_db p') \<Longrightarrow> card (pending_ids (pr_db p')) + BATCH \<le> card (pending_ids ?d)"
    by (simp add: p')
  have "can_settle (concat (map drawn_ids es)) d'"
    using reconcile_rows_can_settle [of "rk_draws k" _ "snd (lease_batch (rk_locked k) (rk_at k) ?d)"] und(7) lease_settle(1)
    by (simp add: d'_def tick_def split_beta)
  moreover have "distinct (map pa_id (db_attempts d'))" using attempts_kept_facts(1) [OF tick_kept] und(6) by (simp add: d'_def)
  moreover have "settled_in psp ?row d' \<or> a \<in> set (db_attempts d') \<and> pa_status a = Pending"
    using crowded kept und(8) by (auto simp: p')
  ultimately show "drain_ready psp a es p'" using assms(1) by (simp add: p' drain_ready_def)
qed

interpretation backlog: draining "process_step E" "drain_ready psp a" reconciles "\<lambda>p. card (pending_ids (pr_db p))"
  "\<lambda>p. \<not> settled_in psp (leased_row_of a) (pr_db p)" BATCH for E psp a
proof unfold_locales
  fix e es p
  assume ready: "drain_ready psp a (e # es) p"
  show "drain_ready psp a es (process_step E e p)"
    using quiet_step [OF ready] tick_step(1) ready by (cases e rule: reconciles.cases) auto
  show "\<not> \<not> settled_in psp (leased_row_of a) (pr_db p) \<Longrightarrow> \<not> \<not> settled_in psp (leased_row_of a) (pr_db (process_step E e p))"
    using quiet_step [OF ready] tick_step(2) ready by (cases e rule: reconciles.cases) auto
  show "reconciles e \<Longrightarrow> \<not> settled_in psp (leased_row_of a) (pr_db p) \<Longrightarrow> \<not> settled_in psp (leased_row_of a) (pr_db (process_step E e p))
      \<Longrightarrow> card (pending_ids (pr_db (process_step E e p))) + BATCH \<le> card (pending_ids (pr_db p))"
    using tick_step(3) ready by (cases e rule: reconciles.cases) auto
  show "\<not> reconciles e \<Longrightarrow> card (pending_ids (pr_db (process_step E e p))) \<le> card (pending_ids (pr_db p))"
    using quiet_step [OF ready] by simp
next
  fix es p assume "drain_ready psp a es p" "\<not> settled_in psp (leased_row_of a) (pr_db p)"
  then have "pa_id a \<in> pending_ids (pr_db p)" by (auto simp: drain_ready_def pending_ids_def)
  moreover have "finite (pending_ids (pr_db p))" by (simp add: pending_ids_def)
  ultimately show "0 < card (pending_ids (pr_db p))" using card_gt_0_iff by blast
qed


section \<open>Lemmas: a new event reaches its endpoint\<close>

text \<open>With unused ids a fan-out succeeds, and adds at most one row per matching pair.\<close>

lemma insert_deliveries_total:
  assumes "inj_on new_ids {n..<n + length rows}" and "\<forall>w \<in> set t. wd_id w \<notin> new_ids ` {n..<n + length rows}"
  shows "\<exists>xs. insert_deliveries now new_ids n rows t = Inr (t @ xs) \<and> length xs \<le> length rows
     \<and> (\<forall>w \<in> set xs. wd_id w \<in> new_ids ` {n..<n + length rows})"
  using assms
proof (induction now new_ids n rows t rule: insert_deliveries.induct)
  case (2 now new_ids n e ep rows t)
  let ?P = "\<lambda>w. wd_event_id w = ev_id e \<and> wd_endpoint_id w = ep_id ep" and ?w = "new_delivery now (new_ids n) e ep"
  have range: "{n..<n + length ((e, ep) # rows)} = insert n {Suc n..<Suc n + length rows}" by auto
  have inj: "inj_on new_ids {Suc n..<Suc n + length rows}" and out: "new_ids n \<notin> new_ids ` {Suc n..<Suc n + length rows}"
    and fresh: "\<forall>w \<in> set t. wd_id w \<noteq> new_ids n \<and> wd_id w \<notin> new_ids ` {Suc n..<Suc n + length rows}"
    using "2.prems" unfolding range by auto
  have unused: "\<not> exists_row (\<lambda>w. wd_id w = new_ids n) t" using fresh by (simp add: table_simps)
  show ?case
  proof (cases "exists_row ?P t")
    case True
    obtain xs where "insert_deliveries now new_ids (Suc n) rows t = Inr (t @ xs)" "length xs \<le> length rows"
        "\<forall>w \<in> set xs. wd_id w \<in> new_ids ` {Suc n..<Suc n + length rows}"
      using "2.IH"(1) [OF True inj] fresh by blast
    then show ?thesis using True unfolding range by (intro exI [of _ xs]) auto
  next
    case False
    have "\<forall>w \<in> set (t @ [?w]). wd_id w \<notin> new_ids ` {Suc n..<Suc n + length rows}"
      using fresh out by (auto simp: new_delivery_def)
    then obtain xs where "insert_deliveries now new_ids (Suc n) rows (t @ [?w]) = Inr ((t @ [?w]) @ xs)" "length xs \<le> length rows"
        "\<forall>w \<in> set xs. wd_id w \<in> new_ids ` {Suc n..<Suc n + length rows}"
      using "2.IH"(2) [OF False unused inj] by blast
    moreover have "wd_id ?w = new_ids n" by (simp add: new_delivery_def)
    ultimately show ?thesis using False unused unfolding range by (intro exI [of _ "?w # xs"]) simp
  qed
qed simp

lemma fan_out_total:
  assumes "inj_on new_ids {..<length (fan_out_rows now d)}"
    and "\<forall>w \<in> set (db_deliveries d). wd_id w \<notin> new_ids ` {..<length (fan_out_rows now d)}"
  shows "\<exists>xs. fan_out now new_ids d = Inr (d\<lparr>db_deliveries := db_deliveries d @ xs\<rparr>) \<and> length xs \<le> length (fan_out_rows now d)
     \<and> (\<forall>w \<in> set xs. wd_id w \<in> new_ids ` {..<length (fan_out_rows now d)})"
  using insert_deliveries_total [of new_ids 0 "fan_out_rows now d" "db_deliveries d" now] assms
  unfolding fan_out_def atLeast0LessThan by auto

lemma deliver_batch_total:
  assumes "\<forall>w \<in> set (db_deliveries d). - (2 ^ 31) \<le> wd_attempts w \<and> wd_attempts w < 2 ^ 31 - 1"
  shows "\<exists>d'. deliver_batch E post m locked now draws d = Inr d'"
proof -
  have "try_update_where (\<lambda>w. wd_id w \<in> set ids) (try_claim_row now) (db_deliveries d)
      = Inr (update_where (\<lambda>w. wd_id w \<in> set ids) (claim_row now) (db_deliveries d))" for ids
    by (rule try_update_where_total) (use assms in \<open>auto simp: try_claim_row_def pg_int4_def\<close>)
  then show ?thesis by (simp add: deliver_batch_def claim_batch_def Let_def)
qed

lemma same_target_trans: "same_target w w' \<Longrightarrow> same_target w' w'' \<Longrightarrow> same_target w w''"
  by (simp add: same_target_def)

lemma deliver_targets:
  assumes "deliver_batch E post m locked now draws d = Inr d'"
  shows "list_all2 same_target (db_deliveries d) (db_deliveries d')"
proof -
  have sends: "list_all2 same_target t (fold (\<lambda>u t. update_where (\<lambda>w. wd_id w = wk_delivery (snd u))
      (outcome_row post E m (draws (fst u)) (snd u)) t) us t)" for us t
  proof (induction us arbitrary: t)
    case Nil
    show ?case by (simp add: list_all2_same_eq same_target_def)
  next
    case (Cons u us)
    let ?t = "update_where (\<lambda>w. wd_id w = wk_delivery (snd u)) (outcome_row post E m (draws (fst u)) (snd u)) t"
    have "list_all2 same_target t ?t" by (rule list_all2_target_update) (rule same_target_row)
    from list_all2_trans [OF same_target_trans this Cons.IH [of ?t]] show ?case by simp
  qed
  obtain ids d1 where claim: "claim_batch locked now d = Inr (ids, d1)"
      and d': "d' = fold (\<lambda>(n, wk) d'. let (ts, t, jitter) = draws n in send_one E post m ts t jitter wk d') (enumerate 0 (hydrate ids d1)) d1"
    using assms by (auto simp: deliver_batch_def result_simps)
  have "list_all2 same_target (db_deliveries d) (db_deliveries d1)"
    using claim_batch_Inr [OF claim] by (simp add: list_all2_target_update same_target_row)
  from list_all2_trans [OF same_target_trans this sends] show ?thesis unfolding d' deliver_fold by simp
qed

text \<open>A pair without a delivery gets a fresh one that is due at once.\<close>

lemma fan_out_new_rows:
  assumes "distinct (map pair_of (db_deliveries d))" and "fan_out now new_ids d = Inr (d\<lparr>db_deliveries := db_deliveries d @ xs\<rparr>)"
  shows "\<forall>w \<in> set xs. wd_status w = ''pending'' \<and> wd_attempts w = 0 \<and> wd_next_attempt_at w = now"
    and "(e, ep) \<in> set (fan_out_rows now d) \<Longrightarrow> (ev_id e, ep_id ep) \<notin> pair_of ` set (db_deliveries d)
      \<Longrightarrow> \<exists>w \<in> set xs. pair_of w = (ev_id e, ep_id ep)"
proof -
  let ?d' = "d\<lparr>db_deliveries := db_deliveries d @ xs\<rparr>"
  obtain ys where eq: "?d' = d\<lparr>db_deliveries := db_deliveries d @ ys\<rparr>"
      and ys: "\<forall>(e, ep) \<in> set (fan_out_rows now d). \<exists>w \<in> set (db_deliveries ?d'). pair_of w = (ev_id e, ep_id ep)"
        "\<forall>w \<in> set ys. \<exists>(e, ep) \<in> set (fan_out_rows now d). \<exists>i. w = new_delivery now i e ep"
    by (rule fan_out_Inr [OF assms])
  have "ys = xs" using arg_cong [OF eq, of db_deliveries] by simp
  with ys(2) show "\<forall>w \<in> set xs. wd_status w = ''pending'' \<and> wd_attempts w = 0 \<and> wd_next_attempt_at w = now"
    by (auto simp: new_delivery_def)
  assume "(e, ep) \<in> set (fan_out_rows now d)" "(ev_id e, ep_id ep) \<notin> pair_of ` set (db_deliveries d)"
  then show "\<exists>w \<in> set xs. pair_of w = (ev_id e, ep_id ep)" using ys(1) by (force simp: image_iff)
qed

text \<open>A delivery that is due in a batch with room for all is sent; on a 2xx it is done.\<close>

lemma accepted_outcome:
  assumes "tables_ok d" and "w \<in> set (db_deliveries d)" and "delivery_due now w" and "pair_of w = (ev_id e, ep_id ep)"
    and "e \<in> set (db_events d)" and "ep \<in> set (db_endpoints d)" and "\<forall>i. \<not> locked i"
    and "length (filter (delivery_due now) (db_deliveries d)) \<le> BATCH_DELIVERIES"
    and "\<forall>q. po_url q = ep_url ep \<longrightarrow> (\<exists>c. post q = PostStatus c \<and> 200 \<le> c \<and> c < 300)"
    and "deliver_batch E post m locked now draws d = Inr d'"
  shows "\<exists>w' \<in> set (db_deliveries d'). pair_of w' = (ev_id e, ep_id ep) \<and> wd_status w' = ''succeeded'' \<and> wd_attempts w' = wd_attempts w + 1"
proof -
  have due: "w \<in> set (due_deliveries locked now d)"
    using due_rows_all [of "\<lambda>w. delivery_due now w \<and> \<not> locked (wd_id w)" "db_deliveries d" BATCH_DELIVERIES wd_next_attempt_at] assms(2,3,7,8)
    by (simp add: due_deliveries_def)
  have "distinct (map wd_id (db_deliveries d))" "distinct (map ev_id (db_events d))" "distinct (map ep_id (db_endpoints d))"
    using assms(1) by (simp_all add: tables_ok_def)
  then obtain n k where row: "k < length (db_deliveries d)" "length (db_deliveries d') = length (db_deliveries d)" "db_deliveries d ! k = w"
      "db_deliveries d' ! k = outcome_row post E m (draws n) (work_of (claim_row now w) e ep) (claim_row now w)"
    using deliver_batch_row [OF _ _ _ due assms(5) _ assms(6) _ assms(10)] assms(4) by auto
  obtain ts t j where dn: "draws n = (ts, t, j)" by (cases "draws n")
  have "po_url (webhook_request E ts (work_of (claim_row now w) e ep)) = ep_url ep" by (simp add: webhook_request_def work_of_def Let_def)
  then obtain c where c: "post (webhook_request E ts (work_of (claim_row now w) e ep)) = PostStatus c" "200 \<le> c \<and> c < 300"
    using assms(9) by blast
  have "wd_status (db_deliveries d' ! k) = ''succeeded''"
    unfolding row(4) dn using outcome_row_facts [where post = post and E = E and ts = ts and wk = "work_of (claim_row now w) e ep",
        OF c(1) [symmetric], of m t j "claim_row now w"] c(2) by simp
  moreover have "wd_attempts (db_deliveries d' ! k) = wd_attempts w + 1" unfolding row(4) outcome_row_id by (simp add: claim_row_def)
  moreover have "pair_of (db_deliveries d' ! k) = (ev_id e, ep_id ep)"
    unfolding row(4) using assms(4) by (auto simp: outcome_row_def Let_def split_beta claim_row_def)
  ultimately show ?thesis using row(1,2) by (metis nth_mem)
qed

section \<open>Properties\<close>


definition sample_env :: "string \<rightharpoonup> string" where
  "sample_env = [''DATABASE_URL'' \<mapsto> ''pg'']"

definition sample_process :: process where
  "sample_process = spawn_background_tasks (build_state \<lparr>database_url = ''pg'', bind_addr = ''0.0.0.0:8080'',
     psp_base_url = ''http://localhost:9090'', psp_timeout_ms = 5000, webhook_max_attempts = 8\<rparr>) empty_db"



text \<open>
  C18: the reconciler drains its backlog. While no request comes in and the provider answers, an
  attempt that is due and not locked at every wake-up is settled once twenty times the number of
  wake-ups covers the attempts that were pending at the start, whatever the dispatcher does in
  between: it is no longer pending, its idempotency key is completed, and its invoice is not open
  after a success.
\<close>

theorem backlog_drained:
  assumes "pr_reconciler p = Some st" and "\<not> pr_cancelled p" and "\<forall>t m k. definite (psp t m k)"
    and "distinct (map pa_id (db_attempts (pr_db p)))" and "can_settle (concat (map drawn_ids es)) (pr_db p)"
    and "a \<in> set (db_attempts (pr_db p))" and "pa_status a = Pending" and "\<forall>e \<in> set es. undisturbed psp a e"
    and "length (filter (\<lambda>x. pa_status x = Pending) (db_attempts (pr_db p))) \<le> 20 * length (filter reconciles es)"
    and "d' = pr_db (process_run E es p)"
  shows "(\<forall>x \<in> set (db_attempts d'). pa_id x = pa_id a \<longrightarrow> pa_status x \<noteq> Pending)
     \<and> (\<forall>k \<in> set (db_keys d'). key_matches (pa_business_id a) (pa_idempotency_key a) k \<longrightarrow> ik_status k = ''completed'')
     \<and> (\<forall>iv \<in> set (db_invoices d'). inv_id iv = pa_invoice_id a
          \<and> (\<exists>r. psp (pa_card_token a) (cents (pa_amount_cents a)) (pa_idempotency_key a) = PspSucceeded r)
          \<longrightarrow> inv_state iv \<noteq> Open)"
proof -
  let ?pending = "filter (\<lambda>x. pa_status x = Pending) (db_attempts (pr_db p))"
  have "card (pending_ids (pr_db p)) = card (set (map pa_id ?pending))" by (simp add: pending_ids_def)
  also have "\<dots> \<le> length ?pending" using card_length [of "map pa_id ?pending"] by simp
  finally have "card (pending_ids (pr_db p)) \<le> BATCH * length (filter reconciles es)"
    using assms(9) by (simp add: BATCH_def)
  moreover have "drain_ready psp a es p" using assms(1-8) by (simp add: drain_ready_def)
  ultimately have "settled_in psp (leased_row_of a) d'" using backlog.drained by (auto simp: assms(10) process_run_def)
  then show ?thesis by (simp add: settled_in_def leased_row_of_def)
qed

definition sample_wake :: reconciler_wake where
  "sample_wake = \<lparr>rk_at = 60, rk_locked = (\<lambda>_. False), rk_psp = (\<lambda>_ _ _. PspSucceeded ''ref''), rk_draws = sample_tick_draws\<rparr>"

theorem backlog_drained_witness:
  "\<not> (\<exists>x \<in> set (db_attempts (pr_db (process_run sample_ext [DispatcherWakes Cancelled, ReconcilerWakes (Elapsed sample_wake)]
       (sample_process\<lparr>pr_db := sample_due_db\<rparr>)))). pa_id x = 8 \<and> pa_status x = Pending)"
proof -
  let ?p = "sample_process\<lparr>pr_db := sample_due_db\<rparr>" and ?psp = "\<lambda>_ _ _. PspSucceeded ''ref''"
  let ?es = "[DispatcherWakes Cancelled, ReconcilerWakes (Elapsed sample_wake)]"
  have p: "pr_reconciler ?p = Some (pr_state sample_process)" "\<not> pr_cancelled ?p" "pr_db ?p = sample_due_db"
    by (simp_all add: sample_process_def spawn_background_tasks_def)
  have a: "db_attempts sample_due_db = [sample_due]" "pa_status sample_due = Pending" "pa_id sample_due = 8"
    by (simp_all add: sample_due_db_def sample_due_def new_attempt_row_def)
  have "poll_due 60 sample_due" by (simp add: poll_due_def sample_due_def new_attempt_row_def)
  then have "\<forall>e \<in> set ?es. undisturbed ?psp sample_due e"
    by (simp add: sample_wake_def BATCH_def sample_tick_draws_def)
  moreover have "can_settle (concat (map drawn_ids ?es)) (pr_db ?p)"
    using sample_can_settle by (simp add: sample_wake_def p)
  ultimately show ?thesis
    using backlog_drained [OF p(1,2), of ?psp ?es sample_due, OF _ _ _ _ _ _ _ refl, of sample_ext] p(3) a by simp
qed

text \<open>
  C31: events are delivered. One wake-up of the dispatcher gives an event of the last hour that has
  no delivery yet to each active endpoint of its business that wants it: the pair has exactly one
  delivery afterwards, and it has been sent once and acknowledged, if the receiver answers 2xx
  and no more than a batch of fifty is due.
\<close>

theorem event_delivered:
  assumes "tables_ok d" and "e \<in> set (db_events d)" and "ep \<in> set (db_endpoints d)" and "wants_event ep e"
    and "dk_fan_at k - seconds 3600 < ev_created_at e" and "dk_fan_at k \<le> dk_claim_at k"
    and "\<forall>w \<in> set (db_deliveries d). (wd_event_id w, wd_endpoint_id w) \<noteq> (ev_id e, ep_id ep)"
    and "inj_on (dk_ids k) {..<length (fan_out_rows (dk_fan_at k) d)}"
    and "\<forall>w \<in> set (db_deliveries d). wd_id w \<notin> dk_ids k ` {..<length (fan_out_rows (dk_fan_at k) d)}"
    and "\<forall>i. \<not> dk_locked k i"
    and "\<forall>w \<in> set (db_deliveries d). - (2 ^ 31) \<le> wd_attempts w \<and> wd_attempts w < 2 ^ 31 - 1"
    and "length (filter (delivery_due (dk_claim_at k)) (db_deliveries d)) + length (fan_out_rows (dk_fan_at k) d) \<le> 50"
    and "\<forall>q. po_url q = ep_url ep \<longrightarrow> (\<exists>c. dk_post k q = PostStatus c \<and> 200 \<le> c \<and> c < 300)"
  shows "(\<exists>!w. w \<in> set (db_deliveries (dispatcher_tick E dp k d)) \<and> wd_event_id w = ev_id e \<and> wd_endpoint_id w = ep_id ep)
     \<and> (\<forall>w \<in> set (db_deliveries (dispatcher_tick E dp k d)). wd_event_id w = ev_id e \<and> wd_endpoint_id w = ep_id ep \<longrightarrow>
          wd_status w = ''succeeded'' \<and> wd_attempts w = 1)"
proof -
  let ?rows = "fan_out_rows (dk_fan_at k) d"
  obtain xs where fan: "fan_out (dk_fan_at k) (dk_ids k) d = Inr (d\<lparr>db_deliveries := db_deliveries d @ xs\<rparr>)" (is "_ = Inr ?d1")
      and few: "length xs \<le> length ?rows"
    using fan_out_total [OF assms(8,9)] by blast
  have "distinct (map pair_of (db_deliveries d))" using assms(1) by (simp add: tables_ok_def)
  note new = fan_out_new_rows [OF this fan]
  have "(ev_id e, ep_id ep) \<notin> pair_of ` set (db_deliveries d)" using assms(7) by force
  then obtain w where w: "w \<in> set xs" "pair_of w = (ev_id e, ep_id ep)" using new(2) [of e ep] assms(2-5) by (auto simp: set_fan_out_rows)
  have ok: "tables_ok ?d1" using fan_out_keeps [OF assms(1) fan] by simp
  have due: "delivery_due (dk_claim_at k) w" using new(1) w(1) assms(6) by (simp add: delivery_due_def)
  have room: "length (filter (delivery_due (dk_claim_at k)) (db_deliveries ?d1)) \<le> BATCH_DELIVERIES"
    using assms(12) few length_filter_le [of "delivery_due (dk_claim_at k)" xs]
    unfolding BATCH_DELIVERIES_def by (simp del: length_filter_le)
  obtain d' where d': "deliver_batch E (dk_post k) (dp_max_attempts dp) (dk_locked k) (dk_claim_at k) (dk_draws k) ?d1 = Inr d'"
    using deliver_batch_total [of ?d1] assms(11) new(1) by fastforce
  have tick: "dispatcher_tick E dp k d = d'" by (simp add: dispatcher_tick_def fan d')
  obtain w' where w': "w' \<in> set (db_deliveries d')" "pair_of w' = (ev_id e, ep_id ep)" "wd_status w' = ''succeeded''" "wd_attempts w' = 1"
    using accepted_outcome [OF ok _ due w(2) _ _ assms(10) room assms(13) d'] w(1) assms(2,3) new(1) by auto
  have "distinct (map pair_of (db_deliveries d'))" using targets_kept(2) [OF deliver_targets [OF d']] ok by (simp add: tables_ok_def)
  from unique_pair [OF this w'(1,2)] w' show ?thesis unfolding tick by auto
qed

definition sample_hook_wake :: dispatcher_wake where
  "sample_hook_wake = \<lparr>dk_fan_at = 60, dk_ids = (\<lambda>_. 9), dk_claim_at = 61, dk_locked = (\<lambda>_. False), dk_post = (\<lambda>_. PostStatus 204),
     dk_draws = (\<lambda>_. (0, 62, 0))\<rparr>"

theorem event_delivered_witness:
  "\<exists>w \<in> set (db_deliveries (dispatcher_tick sample_ext (new_dispatcher 8) sample_hook_wake sample_hook_db)).
     wd_event_id w = 7 \<and> wd_endpoint_id w = 6 \<and> wd_status w = ''succeeded'' \<and> wd_attempts w = 1"
proof -
  have rows: "fan_out_rows 60 sample_hook_db = [(sample_event, sample_endpoint)]"
    by (simp add: fan_out_rows_def sample_hook_db_def sample_wants) (simp add: sample_event_def seconds_def)
  have wake: "dk_fan_at sample_hook_wake = 60" "dk_claim_at sample_hook_wake = 61" "\<And>i. \<not> dk_locked sample_hook_wake i"
    "\<And>q. dk_post sample_hook_wake q = PostStatus 204" by (simp_all add: sample_hook_wake_def)
  have db: "db_deliveries sample_hook_db = []" "db_events sample_hook_db = [sample_event]" "db_endpoints sample_hook_db = [sample_endpoint]"
    by (simp_all add: sample_hook_db_def empty_db_def)
  have ids: "ev_id sample_event = 7" "ep_id sample_endpoint = 6" "(60 :: int) - seconds 3600 < ev_created_at sample_event"
    by (simp_all add: sample_event_def sample_endpoint_def seconds_def)
  have "tables_ok sample_hook_db" by (simp add: tables_ok_def db)
  from event_delivered [OF this, of sample_event sample_endpoint sample_hook_wake sample_ext "new_dispatcher 8"] show ?thesis
    by (simp add: db wake rows sample_wants ids inj_on_def) blast
qed

end
