(* ===== verification/System.thy ===== *)
theory System
  imports Reconciler
begin

text \<open>
  The payment system as a whole: any number of requests, reconciler ticks and admin calls run at
  once, interleaved at the points where the code leaves the database (between the unlocked read
  and transaction 1, around the provider call, between the check and the UPDATE of a
  transition), and any of them can die at any such point. A step is one transaction, one
  provider call or one internal move of one worker; times, ids and locked rows are arbitrary.

  The provider answers by idempotency key: \<open>ans key\<close> is the one outcome it has for a key, and a
  call reports that outcome or something that is not definite. This is the promise of the locale
  \<open>idempotent_psp\<close>, whose histories have such an answer function.
\<close>

section \<open>The machine\<close>

datatype worker =
    Idle
  | PayRead uuid uuid string string
  | PayClaim uuid uuid string string invoice_state i64
  | PayReplay uuid uuid string "u8 list"
  | Charge leased_row "leased_row list"
  | Finalize leased_row psp_result "leased_row list"
  | Transition uuid uuid invoice_state invoice_state
  | Done "(app_error, pay_outcome) result"

record sys =
  s_db :: db
  s_workers :: "nat \<Rightarrow> worker"
  s_log :: "(leased_row \<times> psp_result) list"

text \<open>After a finalize: the next row of the batch, or the end of the request or tick.\<close>

fun next_job :: "(app_error, pay_outcome) result \<Rightarrow> leased_row list \<Rightarrow> worker" where
  "next_job r [] = Done r"
| "next_job r (j # rest) = Charge j rest"

fun start_batch :: "leased_row list \<Rightarrow> worker" where
  "start_batch [] = Idle"
| "start_batch (j # rest) = Charge j rest"

abbreviation at :: "sys \<Rightarrow> nat \<Rightarrow> worker \<Rightarrow> sys" where
  "at s w x \<equiv> s\<lparr>s_workers := (s_workers s)(w := x)\<rparr>"

text \<open>The part of the database the payment flow works on.\<close>

definition same_core :: "db \<Rightarrow> db \<Rightarrow> bool" where
  "same_core d d' \<longleftrightarrow> db_invoices d' = db_invoices d \<and> db_attempts d' = db_attempts d \<and> db_keys d' = db_keys d
     \<and> db_events d' = db_events d"

inductive step :: "ext \<Rightarrow> (string \<Rightarrow> psp_result) \<Rightarrow> sys \<Rightarrow> sys \<Rightarrow> bool"
  for E :: ext and ans :: "string \<Rightarrow> psp_result" where
  submit: "s_workers s w = Idle \<Longrightarrow> step E ans s (at s w (PayRead b i key tok))"
| read_ok: "s_workers s w = PayRead b i key tok \<Longrightarrow>
     pay_read b i \<lparr>pr_card_token = tok\<rparr> (s_db s) = Inr (st, amt) \<Longrightarrow>
     step E ans s (at s w (PayClaim b i key tok st amt))"
| read_err: "s_workers s w = PayRead b i key tok \<Longrightarrow>
     pay_read b i \<lparr>pr_card_token = tok\<rparr> (s_db s) = Inl e \<Longrightarrow> step E ans s (at s w (Done (Inl e)))"
| claim_ok: "s_workers s w = PayClaim b i key tok st amt \<Longrightarrow>
     pay_tx1 E now kid aid b i key tok st amt (s_db s) = (Claimed a, d') \<Longrightarrow>
     step E ans s (at (s\<lparr>s_db := d'\<rparr>) w
       (Charge \<lparr>jb_attempt = a, jb_invoice = i, jb_business = b, jb_key = key, jb_amount = amt, jb_token = tok\<rparr> []))"
| claim_replay: "s_workers s w = PayClaim b i key tok st amt \<Longrightarrow>
     pay_tx1 E now kid aid b i key tok st amt (s_db s) = (ClaimReplay, d') \<Longrightarrow>
     step E ans s (at (s\<lparr>s_db := d'\<rparr>) w (PayReplay b i key (fingerprint E i tok amt)))"
| claim_rejected: "s_workers s w = PayClaim b i key tok st amt \<Longrightarrow>
     pay_tx1 E now kid aid b i key tok st amt (s_db s) = (ClaimRejected e, d') \<Longrightarrow>
     step E ans s (at (s\<lparr>s_db := d'\<rparr>) w (Done (Inl e)))"
| replayed: "s_workers s w = PayReplay b i key fp \<Longrightarrow>
     step E ans s (at s w (Done (replay E b key fp i (s_db s))))"
| charge: "s_workers s w = Charge j rest \<Longrightarrow> r = ans (jb_key j) \<or> \<not> definite r \<Longrightarrow>
     step E ans s (at (s\<lparr>s_log := s_log s @ [(j, r)]\<rparr>) w (Finalize j r rest))"
| finalize_ok: "s_workers s w = Finalize j r rest \<Longrightarrow>
     pay_finalize E now eid (jb_business j) (jb_invoice j) (jb_attempt j) (jb_key j) (jb_amount j) r (s_db s)
       = Inr (out, d') \<Longrightarrow>
     step E ans s (at (s\<lparr>s_db := d'\<rparr>) w (next_job (Inr out) rest))"
| finalize_err: "s_workers s w = Finalize j r rest \<Longrightarrow>
     pay_finalize E now eid (jb_business j) (jb_invoice j) (jb_attempt j) (jb_key j) (jb_amount j) r (s_db s)
       = Inl e \<Longrightarrow>
     step E ans s (at s w (next_job (Inl e) rest))"
| lease: "s_workers s w = Idle \<Longrightarrow> lease_batch locked now (s_db s) = (rows, d') \<Longrightarrow>
     step E ans s (at (s\<lparr>s_db := d'\<rparr>) w (start_batch rows))"
| admin_check: "s_workers s w = Idle \<Longrightarrow> to \<in> {Open, Void, Uncollectible} \<Longrightarrow>
     check_transition b i to (s_db s) = Inr cur \<Longrightarrow>
     step E ans s (at s w (Transition b i (inv_state cur) to))"
| admin_apply: "s_workers s w = Transition b i frm to \<Longrightarrow>
     apply_transition now b i frm to (s_db s) = Inr (r, d') \<Longrightarrow>
     step E ans s (at (s\<lparr>s_db := d'\<rparr>) w Idle)"
| create: "invoice_create E now ids b req (s_db s) = Inr (r, d') \<Longrightarrow> step E ans s (s\<lparr>s_db := d'\<rparr>)"
| elsewhere: "same_core (s_db s) d' \<Longrightarrow> step E ans s (s\<lparr>s_db := d'\<rparr>)"
| stop: "step E ans s (at s w Idle)"

definition start :: "sys \<Rightarrow> bool" where
  "start s \<longleftrightarrow> db_invoices (s_db s) = [] \<and> db_attempts (s_db s) = [] \<and> db_keys (s_db s) = []
     \<and> db_events (s_db s) = [] \<and> s_workers s = (\<lambda>_. Idle) \<and> s_log s = []"

section \<open>The invariant\<close>

text \<open>Invoices: unique ids, a version that counts the transitions, a total that is not negative.\<close>

definition invoice_ok :: "invoice \<Rightarrow> bool" where
  "invoice_ok iv \<longleftrightarrow> 0 \<le> inv_version iv \<and> inv_version iv \<le> int (state_rank (inv_state iv))
     \<and> 0 \<le> sint (cents (inv_total_cents iv))"

definition invoices_ok :: "db \<Rightarrow> bool" where
  "invoices_ok d \<longleftrightarrow> distinct (map inv_id (db_invoices d)) \<and> (\<forall>iv \<in> set (db_invoices d). invoice_ok iv)"

text \<open>Attempts: unique ids, one active attempt per invoice, a status that is the provider's answer.\<close>

definition attempt_ok :: "(string \<Rightarrow> psp_result) \<Rightarrow> payment_attempt \<Rightarrow> bool" where
  "attempt_ok ans a \<longleftrightarrow>
     (case pa_status a of
        Pending \<Rightarrow> True
      | Succeeded \<Rightarrow> \<exists>r. ans (pa_idempotency_key a) = PspSucceeded r \<and> pa_psp_ref a = Some r
      | Failed \<Rightarrow> \<exists>c. ans (pa_idempotency_key a) = PspDeclined c \<and> pa_failure_code a = Some c
      | Expired \<Rightarrow> False)"

definition attempts_ok :: "(string \<Rightarrow> psp_result) \<Rightarrow> db \<Rightarrow> bool" where
  "attempts_ok ans d \<longleftrightarrow> distinct (map pa_id (db_attempts d)) \<and> (\<forall>a \<in> set (db_attempts d). attempt_ok ans a)
     \<and> (\<forall>a \<in> set (db_attempts d). \<forall>x \<in> set (db_attempts d).
          active_attempt a \<and> active_attempt x \<and> pa_invoice_id a = pa_invoice_id x \<longrightarrow> pa_id a = pa_id x)"

text \<open>Every attempt is for the total of an invoice of its business that left draft.\<close>

definition link_ok :: "payment_attempt \<Rightarrow> invoice \<Rightarrow> bool" where
  "link_ok a iv \<longleftrightarrow> inv_id iv = pa_invoice_id a \<and> inv_business_id iv = pa_business_id a
     \<and> inv_total_cents iv = pa_amount_cents a \<and> inv_state iv \<noteq> Draft
     \<and> (pa_status a = Succeeded \<longrightarrow> is_terminal (inv_state iv))"

definition links_ok :: "db \<Rightarrow> bool" where
  "links_ok d \<longleftrightarrow> (\<forall>a \<in> set (db_attempts d). \<exists>iv \<in> set (db_invoices d). link_ok a iv)
     \<and> (\<forall>iv \<in> set (db_invoices d). inv_state iv = Paid \<longrightarrow>
          (\<exists>a \<in> set (db_attempts d). pa_invoice_id a = inv_id iv \<and> pa_status a = Succeeded))"

text \<open>Every attempt has its key, every key its attempt; a settled attempt's key caches the outcome.\<close>

definition attempt_outcome :: "ext \<Rightarrow> (string \<Rightarrow> psp_result) \<Rightarrow> payment_attempt \<Rightarrow> pay_outcome" where
  "attempt_outcome E ans a =
     outcome_response E (pa_invoice_id a) (pa_id a) (cents (pa_amount_cents a)) (ans (pa_idempotency_key a))"

definition key_ok :: "ext \<Rightarrow> (string \<Rightarrow> psp_result) \<Rightarrow> payment_attempt \<Rightarrow> idempotency_key_row \<Rightarrow> bool" where
  "key_ok E ans a k \<longleftrightarrow> ik_business_id k = pa_business_id a \<and> ik_idempotency_key k = pa_idempotency_key a
     \<and> ik_attempt_id k = Some (pa_id a)
     \<and> ik_request_fingerprint k = fingerprint E (pa_invoice_id a) (pa_card_token a) (cents (pa_amount_cents a))
     \<and> (if pa_status a = Pending then ik_status k = ''in_progress''
        else ik_status k = ''completed'' \<and> ik_response_status k = Some (int (fst (attempt_outcome E ans a)))
          \<and> ik_response_body k = Some (response_to_value E (snd (attempt_outcome E ans a))))"

definition keys_ok :: "ext \<Rightarrow> (string \<Rightarrow> psp_result) \<Rightarrow> db \<Rightarrow> bool" where
  "keys_ok E ans d \<longleftrightarrow> distinct (map (\<lambda>k. (ik_business_id k, ik_idempotency_key k)) (db_keys d))
     \<and> (\<forall>a \<in> set (db_attempts d). \<exists>k \<in> set (db_keys d). key_ok E ans a k)
     \<and> (\<forall>k \<in> set (db_keys d). \<exists>a \<in> set (db_attempts d). key_ok E ans a k)"

text \<open>Every settled attempt has its event in the outbox.\<close>

definition event_ok :: "ext \<Rightarrow> (string \<Rightarrow> psp_result) \<Rightarrow> payment_attempt \<Rightarrow> webhook_event \<Rightarrow> bool" where
  "event_ok E ans a e \<longleftrightarrow> ev_business_id e = pa_business_id a \<and> ev_aggregate_id e = pa_invoice_id a
     \<and> ev_event_type e = (if pa_status a = Succeeded then INVOICE_PAID else INVOICE_PAYMENT_FAILED)
     \<and> ev_payload e = payment_payload E (pa_invoice_id a) (snd (attempt_outcome E ans a)) (cents (pa_amount_cents a))"

definition outbox_has :: "ext \<Rightarrow> (string \<Rightarrow> psp_result) \<Rightarrow> db \<Rightarrow> bool" where
  "outbox_has E ans d \<longleftrightarrow>
     (\<forall>a \<in> set (db_attempts d). pa_status a \<noteq> Pending \<longrightarrow> (\<exists>e \<in> set (db_events d). event_ok E ans a e))"

definition core_ok :: "ext \<Rightarrow> (string \<Rightarrow> psp_result) \<Rightarrow> db \<Rightarrow> bool" where
  "core_ok E ans d \<longleftrightarrow> invoices_ok d \<and> attempts_ok ans d \<and> links_ok d \<and> keys_ok E ans d \<and> outbox_has E ans d"

text \<open>Each part looks at its own tables only.\<close>

lemma core_congs:
  "db_invoices d = db_invoices d' \<Longrightarrow> invoices_ok d = invoices_ok d'"
  "db_attempts d = db_attempts d' \<Longrightarrow> attempts_ok ans d = attempts_ok ans d'"
  "db_attempts d = db_attempts d' \<Longrightarrow> db_invoices d = db_invoices d' \<Longrightarrow> links_ok d = links_ok d'"
  "db_attempts d = db_attempts d' \<Longrightarrow> db_keys d = db_keys d' \<Longrightarrow> keys_ok E ans d = keys_ok E ans d'"
  "db_attempts d = db_attempts d' \<Longrightarrow> db_events d = db_events d' \<Longrightarrow> outbox_has E ans d = outbox_has E ans d'"
  by (simp_all only: invoices_ok_def attempts_ok_def links_ok_def keys_ok_def outbox_has_def)

text \<open>What a worker may rely on, and what the log says.\<close>

definition job_ok :: "db \<Rightarrow> leased_row \<Rightarrow> bool" where
  "job_ok d j \<longleftrightarrow> (\<exists>a \<in> set (db_attempts d). leased_row_of a = j)"

definition invoice_seen :: "db \<Rightarrow> uuid \<Rightarrow> uuid \<Rightarrow> i64 \<Rightarrow> bool \<Rightarrow> bool" where
  "invoice_seen d b i amt opened \<longleftrightarrow> (\<exists>iv \<in> set (db_invoices d). inv_id iv = i \<and> inv_business_id iv = b
     \<and> cents (inv_total_cents iv) = amt \<and> (opened \<longrightarrow> inv_state iv \<noteq> Draft))"

fun worker_ok :: "(string \<Rightarrow> psp_result) \<Rightarrow> db \<Rightarrow> worker \<Rightarrow> bool" where
  "worker_ok ans d (PayClaim b i key tok st amt) = invoice_seen d b i amt (st = Open)"
| "worker_ok ans d (PayReplay b i key fp) = (\<exists>k \<in> set (db_keys d). key_matches b key k)"
| "worker_ok ans d (Charge j rest) = (\<forall>x \<in> set (j # rest). job_ok d x)"
| "worker_ok ans d (Finalize j r rest) =
     ((\<forall>x \<in> set (j # rest). job_ok d x) \<and> (definite r \<longrightarrow> r = ans (jb_key j)))"
| "worker_ok ans d (Transition b i frm to) = (can_transition_to frm to \<and> to \<noteq> Paid)"
| "worker_ok ans d _ = True"

definition log_ok :: "(string \<Rightarrow> psp_result) \<Rightarrow> db \<Rightarrow> (leased_row \<times> psp_result) list \<Rightarrow> bool" where
  "log_ok ans d l \<longleftrightarrow> (\<forall>(j, r) \<in> set l. job_ok d j \<and> (definite r \<longrightarrow> r = ans (jb_key j)))"

definition sys_ok :: "ext \<Rightarrow> (string \<Rightarrow> psp_result) \<Rightarrow> sys \<Rightarrow> bool" where
  "sys_ok E ans s \<longleftrightarrow> core_ok E ans (s_db s) \<and> (\<forall>w. worker_ok ans (s_db s) (s_workers s w))
     \<and> log_ok ans (s_db s) (s_log s)"

section \<open>Growth\<close>

text \<open>
  No transaction takes anything back that a worker relies on: attempts keep what they were
  created with, invoices their id, owner and total and never return to draft, keys stay.
\<close>

definition invoice_kept :: "invoice \<Rightarrow> invoice \<Rightarrow> bool" where
  "invoice_kept iv iv' \<longleftrightarrow> inv_id iv' = inv_id iv \<and> inv_business_id iv' = inv_business_id iv
     \<and> inv_customer_id iv' = inv_customer_id iv \<and> inv_total_cents iv' = inv_total_cents iv
     \<and> can_transition_to\<^sup>*\<^sup>* (inv_state iv) (inv_state iv')"

definition grows :: "db \<Rightarrow> db \<Rightarrow> bool" where
  "grows d d' \<longleftrightarrow>
     (\<forall>a \<in> set (db_attempts d). \<exists>a' \<in> set (db_attempts d'). leased_row_of a' = leased_row_of a
        \<and> (pa_status a \<noteq> Pending \<longrightarrow> a' = a))
     \<and> (\<forall>iv \<in> set (db_invoices d). \<exists>iv' \<in> set (db_invoices d'). invoice_kept iv iv')
     \<and> (\<forall>k \<in> set (db_keys d). \<exists>k' \<in> set (db_keys d'). ik_business_id k' = ik_business_id k
          \<and> ik_idempotency_key k' = ik_idempotency_key k)
     \<and> set (db_events d) \<subseteq> set (db_events d')"

lemma grows_refl [simp]: "grows d d"
  by (auto simp: grows_def intro: bexI [OF _] simp: invoice_kept_def)

lemma job_ok_grows: "grows d d' \<Longrightarrow> job_ok d j \<Longrightarrow> job_ok d' j"
  unfolding grows_def job_ok_def by metis

lemma no_edge_to_draft: "\<not> can_transition_to a Draft"
  by (cases a) auto

lemma no_path_to_draft: "can_transition_to\<^sup>*\<^sup>* a Draft \<Longrightarrow> a = Draft"
  by (erule rtranclp.cases) (auto simp: no_edge_to_draft)

lemma invoice_kept_refl [simp]: "invoice_kept iv iv"
  by (simp add: invoice_kept_def)

lemma invoice_kept_trans: "invoice_kept iv iv' \<Longrightarrow> invoice_kept iv' iv'' \<Longrightarrow> invoice_kept iv iv''"
  by (auto simp: invoice_kept_def)

lemma growsD:
  assumes "grows d d'"
  shows "a \<in> set (db_attempts d) \<Longrightarrow> \<exists>a' \<in> set (db_attempts d'). leased_row_of a' = leased_row_of a \<and> (pa_status a \<noteq> Pending \<longrightarrow> a' = a)"
    and "iv \<in> set (db_invoices d) \<Longrightarrow> \<exists>iv' \<in> set (db_invoices d'). invoice_kept iv iv'"
    and "k \<in> set (db_keys d) \<Longrightarrow> \<exists>k' \<in> set (db_keys d'). ik_business_id k' = ik_business_id k \<and> ik_idempotency_key k' = ik_idempotency_key k"
    and "set (db_events d) \<subseteq> set (db_events d')"
  using assms unfolding grows_def by blast+

lemma grows_trans:
  assumes "grows d d'" and "grows d' d''"
  shows "grows d d''"
proof -
  note one = growsD [OF assms(1)] and two = growsD [OF assms(2)]
  have "\<exists>a'' \<in> set (db_attempts d''). leased_row_of a'' = leased_row_of a \<and> (pa_status a \<noteq> Pending \<longrightarrow> a'' = a)"
    if "a \<in> set (db_attempts d)" for a using one(1) [OF that] two(1) by metis
  moreover have "\<exists>iv'' \<in> set (db_invoices d''). invoice_kept iv iv''" if "iv \<in> set (db_invoices d)" for iv
    using one(2) [OF that] two(2) invoice_kept_trans by metis
  moreover have "\<exists>k'' \<in> set (db_keys d''). ik_business_id k'' = ik_business_id k \<and> ik_idempotency_key k'' = ik_idempotency_key k"
    if "k \<in> set (db_keys d)" for k using one(3) [OF that] two(3) by metis
  moreover have "set (db_events d) \<subseteq> set (db_events d'')" using one(4) two(4) by blast
  ultimately show ?thesis unfolding grows_def by blast
qed

lemma invoice_seen_grows: "grows d d' \<Longrightarrow> invoice_seen d b i amt opened \<Longrightarrow> invoice_seen d' b i amt opened"
proof -
  assume g: "grows d d'" and "invoice_seen d b i amt opened"
  then obtain iv where iv: "iv \<in> set (db_invoices d)" "inv_id iv = i" "inv_business_id iv = b"
      "cents (inv_total_cents iv) = amt" "opened \<longrightarrow> inv_state iv \<noteq> Draft" by (auto simp: invoice_seen_def)
  with g obtain iv' where "iv' \<in> set (db_invoices d')" "inv_id iv' = i" "inv_business_id iv' = b"
      "cents (inv_total_cents iv') = amt" "can_transition_to\<^sup>*\<^sup>* (inv_state iv) (inv_state iv')"
    unfolding grows_def invoice_kept_def by metis
  with iv(5) no_path_to_draft show "invoice_seen d' b i amt opened" unfolding invoice_seen_def by metis
qed

lemma worker_ok_grows: "grows d d' \<Longrightarrow> worker_ok ans d w \<Longrightarrow> worker_ok ans d' w"
  by (cases w) (auto intro: job_ok_grows invoice_seen_grows simp: grows_def key_matches_def)

lemma log_ok_grows: "grows d d' \<Longrightarrow> log_ok ans d l \<Longrightarrow> log_ok ans d' l"
  by (auto simp: log_ok_def intro: job_ok_grows)

end
