(* ===== verification/System_Invariant.thy ===== *)
theory System_Invariant
  imports System
begin

text \<open>
  Every step of the payment system keeps the invariant and takes nothing back: transaction 1,
  transaction 2, the lease, the admin transitions, the creation of an invoice and everything
  outside the payment tables, one after the other; then the three interpretations that carry
  this to whole runs (the invariant, growth of the database, and the log of the answers).
\<close>

section \<open>Transaction 1 keeps the invariant\<close>

lemma claim_grows:
  assumes "pay_tx1 E now kid aid b i key tok st amt d = (Claimed a, d')"
  shows "grows d d'" and "job_ok d' \<lparr>jb_attempt = a, jb_invoice = i, jb_business = b, jb_key = key, jb_amount = amt, jb_token = tok\<rparr>"
  using assms by (auto simp: pay_tx1_Claimed grows_def invoice_kept_def job_ok_def leased_row_of_def new_attempt_row_def cents_def from_cents_def)

lemma attempts_okI:
  assumes "distinct (map pa_id (db_attempts d))" and "\<And>a. a \<in> set (db_attempts d) \<Longrightarrow> attempt_ok ans a"
    and "\<And>a x. a \<in> set (db_attempts d) \<Longrightarrow> x \<in> set (db_attempts d) \<Longrightarrow> active_attempt a \<Longrightarrow> active_attempt x
           \<Longrightarrow> pa_invoice_id a = pa_invoice_id x \<Longrightarrow> pa_id a = pa_id x"
  shows "attempts_ok ans d"
  unfolding attempts_ok_def using assms by blast

lemma attempts_okD:
  assumes "attempts_ok ans d"
  shows "distinct (map pa_id (db_attempts d))" and "a \<in> set (db_attempts d) \<Longrightarrow> attempt_ok ans a"
    and "a \<in> set (db_attempts d) \<Longrightarrow> x \<in> set (db_attempts d) \<Longrightarrow> active_attempt a \<Longrightarrow> active_attempt x
           \<Longrightarrow> pa_invoice_id a = pa_invoice_id x \<Longrightarrow> pa_id a = pa_id x"
  using assms unfolding attempts_ok_def by blast+

lemma attempts_ok_append:
  assumes "attempts_ok ans d" and "db_attempts d' = db_attempts d @ [a]" and "attempt_ok ans a"
    and "\<forall>x \<in> set (db_attempts d). pa_id x \<noteq> pa_id a"
    and "\<forall>x \<in> set (db_attempts d). \<not> (pa_invoice_id x = pa_invoice_id a \<and> active_attempt x)"
  shows "attempts_ok ans d'"
proof (rule attempts_okI)
  note old = attempts_okD [OF assms(1)]
  show "distinct (map pa_id (db_attempts d'))" using old(1) assms(2,4) by auto
  show "attempt_ok ans x" if "x \<in> set (db_attempts d')" for x using old(2) assms(2,3) that by auto
  show "pa_id x = pa_id y" if two: "x \<in> set (db_attempts d')" "y \<in> set (db_attempts d')"
      "active_attempt x" "active_attempt y" "pa_invoice_id x = pa_invoice_id y" for x y
  proof -
    consider "x = a" "y = a" | "x = a" "y \<in> set (db_attempts d)" | "x \<in> set (db_attempts d)" "y = a"
      | "x \<in> set (db_attempts d)" "y \<in> set (db_attempts d)" using two(1,2) assms(2) by auto
    then show ?thesis using two(3-5) assms(5) old(3) by cases metis+
  qed
qed

lemma claim_core:
  assumes "pay_tx1 E now kid aid b i key tok st amt d = (Claimed a, d')" and "core_ok E ans d"
    and "invoice_seen d b i amt (st = Open)"
  shows "core_ok E ans d'"
proof -
  let ?a = "new_attempt_row now aid b i key amt tok"
  let ?k = "new_key_row now kid b key (fingerprint E i tok amt) aid"
  have st: "st = Open" and new_k: "\<forall>r \<in> set (db_keys d). \<not> key_matches b key r"
    and new_a: "\<forall>x \<in> set (db_attempts d). pa_id x \<noteq> aid"
    and idle: "\<forall>x \<in> set (db_attempts d). \<not> (pa_invoice_id x = i \<and> active_attempt x)"
    and d': "d' = d\<lparr>db_attempts := db_attempts d @ [?a], db_keys := db_keys d @ [?k]\<rparr>"
    using assms(1) by (auto simp: pay_tx1_Claimed)
  have a: "pa_id ?a = aid" "pa_invoice_id ?a = i" "pa_business_id ?a = b" "pa_status ?a = Pending"
    "pa_amount_cents ?a = from_cents amt" "cents (pa_amount_cents ?a) = amt" "pa_idempotency_key ?a = key" "pa_card_token ?a = tok"
    by (simp_all add: new_attempt_row_def cents_def from_cents_def)
  have "invoices_ok d'" using assms(2) by (simp add: core_ok_def invoices_ok_def d')
  moreover have "attempts_ok ans d'"
  proof (rule attempts_ok_append)
    show "attempts_ok ans d" using assms(2) by (simp add: core_ok_def)
    show "db_attempts d' = db_attempts d @ [?a]" by (simp add: d')
  qed (use new_a idle a in \<open>auto simp: attempt_ok_def\<close>)
  moreover have "links_ok d'"
  proof -
    obtain iv where iv: "iv \<in> set (db_invoices d)" "inv_id iv = i" "inv_business_id iv = b"
        "cents (inv_total_cents iv) = amt" "inv_state iv \<noteq> Draft"
      using assms(3) st by (auto simp: invoice_seen_def)
    have "from_cents (cents m) = m" for m by (cases m) (simp add: from_cents_def cents_def)
    then have "link_ok ?a iv" using iv a unfolding link_ok_def by (metis payment_status.distinct(1))
    then show ?thesis using assms(2) iv(1) by (auto simp: core_ok_def links_ok_def d')
  qed
  moreover have "keys_ok E ans d'"
  proof -
    have "key_ok E ans ?a ?k" using a by (simp add: key_ok_def new_key_row_def)
    moreover have "(b, key) \<notin> (\<lambda>k. (ik_business_id k, ik_idempotency_key k)) ` set (db_keys d)"
      using new_k by (auto simp: key_matches_def)
    then have "distinct (map (\<lambda>k. (ik_business_id k, ik_idempotency_key k)) (db_keys d @ [?k]))"
      using assms(2) by (simp add: core_ok_def keys_ok_def new_key_row_def)
    ultimately show ?thesis using assms(2) by (auto simp: core_ok_def keys_ok_def d')
  qed
  moreover have "outbox_has E ans d'" using assms(2) a(4) by (auto simp: core_ok_def outbox_has_def d')
  ultimately show ?thesis by (simp add: core_ok_def)
qed

section \<open>Transaction 2 keeps the invariant\<close>

text \<open>What an attempt row keeps and how its status can change.\<close>

lemma attempt_rel_same:
  "attempt_rel now res aid a a' \<Longrightarrow> leased_row_of a' = leased_row_of a \<and> (\<not> pending_attempt aid a \<longrightarrow> a' = a)
     \<and> (pending_attempt aid a \<longrightarrow> (case res of
          PspSucceeded r \<Rightarrow> pa_status a' = Succeeded \<and> pa_psp_ref a' = Some r
        | PspDeclined c \<Rightarrow> pa_status a' = Failed \<and> pa_failure_code a' = Some c
        | PspUnknown _ \<Rightarrow> pa_status a' = Pending))"
  by (cases res) (auto simp: attempt_succeeded_def attempt_failed_def unknown_rel_def attempt_unknown_def
      pending_attempt_def leased_row_of_def result_simps split: if_splits)

lemma invoice_rel_same:
  "invoice_rel now res i iv iv' \<Longrightarrow> inv_id iv' = inv_id iv \<and> inv_business_id iv' = inv_business_id iv
     \<and> inv_customer_id iv' = inv_customer_id iv \<and> inv_total_cents iv' = inv_total_cents iv
     \<and> (iv' = iv \<or> inv_state iv = Open \<and> inv_state iv' = Paid \<and> inv_version iv' = inv_version iv + 1
          \<and> inv_id iv = i \<and> (\<exists>r. res = PspSucceeded r))
     \<and> (inv_id iv = i \<and> inv_state iv = Open \<and> (\<exists>r. res = PspSucceeded r) \<longrightarrow> inv_state iv' = Paid)"
  by (cases res) (auto simp: paid_rel_def pay_invoice_row_def result_simps pg_int4_Inr split: if_splits)

lemma invoice_rel_kept: "invoice_rel now res i iv iv' \<Longrightarrow> invoice_kept iv iv'"
  using invoice_rel_same [of now res i iv iv'] r_into_rtranclp [of can_transition_to Open Paid] by (auto simp: invoice_kept_def)

lemma key_rel_same: "key_rel E r out b key k k' \<Longrightarrow> ik_business_id k' = ik_business_id k \<and> ik_idempotency_key k' = ik_idempotency_key k"
  by (simp add: key_rel_def completed_row_def)

lemma leased_row_of_inject:
  "leased_row_of a = leased_row_of a' \<longleftrightarrow> pa_id a = pa_id a' \<and> pa_invoice_id a = pa_invoice_id a'
     \<and> pa_business_id a = pa_business_id a' \<and> pa_idempotency_key a = pa_idempotency_key a'
     \<and> pa_amount_cents a = pa_amount_cents a' \<and> pa_card_token a = pa_card_token a'"
proof -
  have "cents m = cents m' \<longleftrightarrow> m = m'" for m m' by (cases m; cases m') (simp add: cents_def)
  then show ?thesis by (auto simp: leased_row_of_def)
qed

text \<open>A finalize in a good state, for a job that exists and with an answer that is the provider's.\<close>

definition finalizes ::
  "ext \<Rightarrow> (string \<Rightarrow> psp_result) \<Rightarrow> timestamp \<Rightarrow> uuid \<Rightarrow> leased_row \<Rightarrow> psp_result \<Rightarrow> db \<Rightarrow> pay_outcome \<Rightarrow> db \<Rightarrow> bool" where
  "finalizes E ans now eid j r d out d' \<longleftrightarrow>
     finalize_tx E now eid (jb_business j) (jb_invoice j) (jb_attempt j) (jb_key j) (jb_amount j) r d = Inr (out, d')
     \<and> core_ok E ans d \<and> job_ok d j \<and> (definite r \<longrightarrow> r = ans (jb_key j))"

lemma finalizes_rows:
  assumes "finalizes E ans now eid j r d out d'"
  shows "out = outcome_response E (jb_invoice j) (jb_attempt j) (jb_amount j) r"
    and "list_all2 (attempt_rel now r (jb_attempt j)) (db_attempts d) (db_attempts d')"
    and "list_all2 (invoice_rel now r (jb_invoice j)) (db_invoices d) (db_invoices d')"
    and "list_all2 (key_rel E r out (jb_business j) (jb_key j)) (db_keys d) (db_keys d')"
    and "db_events d' = db_events d @ (if definite r
           then [paid_event E now eid (jb_business j) (jb_invoice j) (jb_attempt j) (jb_amount j) r d] else [])"
  by (rule finalize_tx_rows [OF conjunct1 [OF assms [unfolded finalizes_def]]])+

lemma finalizes_target:
  assumes "finalizes E ans now eid j r d out d'"
  obtains a where "a \<in> set (db_attempts d)" "leased_row_of a = j" "pa_id a = jb_attempt j" "pa_invoice_id a = jb_invoice j"
    "pa_business_id a = jb_business j" "pa_idempotency_key a = jb_key j" "cents (pa_amount_cents a) = jb_amount j"
    "\<And>x. x \<in> set (db_attempts d) \<Longrightarrow> pa_id x = jb_attempt j \<Longrightarrow> x = a"
proof -
  obtain a where a: "a \<in> set (db_attempts d)" "leased_row_of a = j" using assms by (auto simp: finalizes_def job_ok_def)
  have "distinct (map pa_id (db_attempts d))" using assms by (simp add: finalizes_def core_ok_def attempts_ok_def)
  then have "x = a" if "x \<in> set (db_attempts d)" "pa_id x = jb_attempt j" for x
    using that a by (auto simp: distinct_map inj_on_def leased_row_of_def)
  with a show thesis by (intro that [of a]) (auto simp: leased_row_of_def)
qed

lemma finalizes_invoices: "finalizes E ans now eid j r d out d' \<Longrightarrow> invoices_ok d'"
proof -
  assume fin: "finalizes E ans now eid j r d out d'"
  note rows = finalizes_rows [OF fin]
  have old: "invoices_ok d" using fin by (simp add: finalizes_def core_ok_def)
  have "map inv_id (db_invoices d') = map inv_id (db_invoices d)"
    by (rule list_all2_map_eq [OF rows(3)]) (auto dest: invoice_rel_same)
  moreover have "invoice_ok iv'" if mem: "iv' \<in> set (db_invoices d')" for iv'
  proof -
    obtain iv where iv: "iv \<in> set (db_invoices d)" "invoice_rel now r (jb_invoice j) iv iv'"
      using list_all2_back [OF rows(3) mem] by blast
    then have "invoice_ok iv" using old by (simp add: invoices_ok_def)
    then show ?thesis using invoice_rel_same [OF iv(2)] by (auto simp: invoice_ok_def)
  qed
  ultimately show "invoices_ok d'" using old by (simp add: invoices_ok_def)
qed

text \<open>One attempt row through a finalize.\<close>

lemma finalizes_attempt:
  assumes "finalizes E ans now eid j r d out d'" and "a \<in> set (db_attempts d)" and "attempt_rel now r (jb_attempt j) a a'"
  shows "leased_row_of a' = leased_row_of a" and "attempt_ok ans a'" and "active_attempt a' \<Longrightarrow> active_attempt a"
    and "pa_status a \<noteq> Pending \<Longrightarrow> a' = a" and "pa_id a \<noteq> jb_attempt j \<Longrightarrow> a' = a"
    and "pa_id a = jb_attempt j \<Longrightarrow> pa_status a' = Pending \<longleftrightarrow> pa_status a = Pending \<and> \<not> definite r"
proof -
  note same = attempt_rel_same [OF assms(3)]
  show "leased_row_of a' = leased_row_of a" using same by simp
  show keep: "pa_status a \<noteq> Pending \<Longrightarrow> a' = a" using same by (simp add: pending_attempt_def)
  show "pa_id a \<noteq> jb_attempt j \<Longrightarrow> a' = a" using same by (simp add: pending_attempt_def)
  have ok: "attempt_ok ans a" using assms(1,2) by (simp add: finalizes_def core_ok_def attempts_ok_def)
  obtain a0 where a0: "pa_idempotency_key a0 = jb_key j" "\<And>x. x \<in> set (db_attempts d) \<Longrightarrow> pa_id x = jb_attempt j \<Longrightarrow> x = a0"
    using finalizes_target [OF assms(1)] by metis
  have ans: "r = ans (pa_idempotency_key a)" if "pending_attempt (jb_attempt j) a" "definite r"
    using a0(1) a0(2) [OF assms(2)] that assms(1) by (auto simp: pending_attempt_def finalizes_def)
  have key: "pa_idempotency_key a' = pa_idempotency_key a" using same by (simp add: leased_row_of_inject)
  show "attempt_ok ans a'"
  proof (cases "pending_attempt (jb_attempt j) a")
    case True
    then show ?thesis using same ans key by (cases r) (auto simp: attempt_ok_def)
  qed (use ok same in simp)
  show "active_attempt a' \<Longrightarrow> active_attempt a" using keep by (auto simp: active_attempt_def)
  show "pa_id a = jb_attempt j \<Longrightarrow> pa_status a' = Pending \<longleftrightarrow> pa_status a = Pending \<and> \<not> definite r"
    using same keep by (cases r) (auto simp: pending_attempt_def)
qed

lemma finalizes_attempts: "finalizes E ans now eid j r d out d' \<Longrightarrow> attempts_ok ans d'"
proof (rule attempts_okI)
  assume fin: "finalizes E ans now eid j r d out d'"
  note rows = finalizes_rows [OF fin]
  have old: "attempts_ok ans d" using fin by (simp add: finalizes_def core_ok_def)
  have prev: "\<exists>a \<in> set (db_attempts d). attempt_rel now r (jb_attempt j) a a'" if m: "a' \<in> set (db_attempts d')" for a'
    by (rule list_all2_back [OF rows(2) m])
  have "map pa_id (db_attempts d') = map pa_id (db_attempts d)"
    by (rule list_all2_map_eq [OF rows(2)]) (auto dest: attempt_rel_same simp: leased_row_of_inject)
  then show "distinct (map pa_id (db_attempts d'))" using attempts_okD(1) [OF old] by simp
  show "attempt_ok ans a'" if "a' \<in> set (db_attempts d')" for a'
    using prev [OF that] finalizes_attempt(2) [OF fin] by blast
  show "pa_id a' = pa_id x'" if two: "a' \<in> set (db_attempts d')" "x' \<in> set (db_attempts d')"
      "active_attempt a'" "active_attempt x'" "pa_invoice_id a' = pa_invoice_id x'" for a' x'
  proof -
    obtain a x where ax: "a \<in> set (db_attempts d)" "attempt_rel now r (jb_attempt j) a a'"
        "x \<in> set (db_attempts d)" "attempt_rel now r (jb_attempt j) x x'" using prev two(1,2) by blast
    note fa = finalizes_attempt [OF fin ax(1,2)] and fx = finalizes_attempt [OF fin ax(3,4)]
    have "pa_id a = pa_id x"
      by (rule attempts_okD(3) [OF old ax(1,3) fa(3) [OF two(3)] fx(3) [OF two(4)]])
        (use fa(1) fx(1) two(5) in \<open>simp add: leased_row_of_inject\<close>)
    then show ?thesis using fa(1) fx(1) by (simp add: leased_row_of_inject)
  qed
qed

fun result_status :: "psp_result \<Rightarrow> payment_status" where
  "result_status (PspSucceeded _) = Succeeded"
| "result_status (PspDeclined _) = Failed"
| "result_status (PspUnknown _) = Pending"

text \<open>A definite answer settles the target, or finds it settled by the same answer.\<close>

lemma finalizes_settled:
  assumes "finalizes E ans now eid j r d out d'" and "a \<in> set (db_attempts d)" and "attempt_rel now r (jb_attempt j) a a'"
    and "pa_id a = jb_attempt j" and "definite r"
  shows "pa_status a' = result_status r"
proof (cases "pa_status a = Pending")
  case True
  then show ?thesis using attempt_rel_same [OF assms(3)] assms(4,5) by (cases r) (auto simp: pending_attempt_def)
next
  case False
  have "r = ans (pa_idempotency_key a)"
    using finalizes_target [OF assms(1)] assms by (metis finalizes_def)
  moreover have "attempt_ok ans a" using assms(1,2) attempts_okD(2) unfolding finalizes_def core_ok_def by blast
  moreover have "a' = a" by (rule finalizes_attempt(4) [OF assms(1-3) False])
  ultimately show ?thesis using False by (cases r) (auto simp: attempt_ok_def split: payment_status.splits)
qed

lemma finalizes_link:
  assumes "finalizes E ans now eid j r d out d'" and "a \<in> set (db_attempts d)" and "attempt_rel now r (jb_attempt j) a a'"
    and "invoice_rel now r (jb_invoice j) iv iv'" and "link_ok a iv"
  shows "link_ok a' iv'"
proof -
  note att = finalizes_attempt [OF assms(1-3)] and inv = invoice_rel_same [OF assms(4)]
  have same: "inv_id iv' = pa_invoice_id a'" "inv_business_id iv' = pa_business_id a'" "inv_total_cents iv' = pa_amount_cents a'"
    "inv_state iv' \<noteq> Draft" using assms(5) inv att(1) by (auto simp: link_ok_def leased_row_of_inject)
  have "is_terminal (inv_state iv')" if paid: "pa_status a' = Succeeded"
  proof (cases "pa_id a = jb_attempt j \<and> definite r")
    case True
    then have "result_status r = Succeeded" using finalizes_settled [OF assms(1-3)] paid by simp
    then have "\<exists>q. r = PspSucceeded q" by (cases r) auto
    moreover have "inv_id iv = jb_invoice j"
      using finalizes_target [OF assms(1)] assms(2,5) True by (metis link_ok_def)
    ultimately show ?thesis using inv same(4) assms(5) by (cases "inv_state iv") (auto simp: link_ok_def)
  next
    case False
    then have "a' = a" using att(4,5,6) paid by fastforce
    then show ?thesis using assms(5) paid inv by (auto simp: link_ok_def)
  qed
  then show ?thesis using same by (simp add: link_ok_def)
qed

lemma finalizes_links: "finalizes E ans now eid j r d out d' \<Longrightarrow> links_ok d'"
proof -
  assume fin: "finalizes E ans now eid j r d out d'"
  note rows = finalizes_rows [OF fin]
  have old: "links_ok d" using fin by (simp add: finalizes_def core_ok_def)
  have "\<exists>iv' \<in> set (db_invoices d'). link_ok a' iv'" if m: "a' \<in> set (db_attempts d')" for a'
  proof -
    obtain a where a: "a \<in> set (db_attempts d)" "attempt_rel now r (jb_attempt j) a a'"
      using list_all2_back [OF rows(2) m] by blast
    then obtain iv where iv: "iv \<in> set (db_invoices d)" "link_ok a iv" using old by (auto simp: links_ok_def)
    then obtain iv' where "iv' \<in> set (db_invoices d')" "invoice_rel now r (jb_invoice j) iv iv'"
      using list_all2_fwd [OF rows(3)] by blast
    then show ?thesis using finalizes_link [OF fin a _ iv(2)] by blast
  qed
  moreover have "\<exists>a' \<in> set (db_attempts d'). pa_invoice_id a' = inv_id iv' \<and> pa_status a' = Succeeded"
    if m: "iv' \<in> set (db_invoices d')" and paid: "inv_state iv' = Paid" for iv'
  proof -
    obtain iv where iv: "iv \<in> set (db_invoices d)" "invoice_rel now r (jb_invoice j) iv iv'"
      using list_all2_back [OF rows(3) m] by blast
    note same = invoice_rel_same [OF iv(2)]
    obtain a where a: "a \<in> set (db_attempts d)" "pa_invoice_id a = inv_id iv"
        "pa_status a = Succeeded \<or> pa_id a = jb_attempt j \<and> result_status r = Succeeded"
    proof (cases "inv_state iv = Paid")
      case True
      then show thesis using old iv(1) that by (auto simp: links_ok_def)
    next
      case False
      with same paid have "inv_id iv = jb_invoice j" "result_status r = Succeeded" by auto
      then show thesis using finalizes_target [OF fin] that by metis
    qed
    obtain a' where a': "a' \<in> set (db_attempts d')" "attempt_rel now r (jb_attempt j) a a'"
      using list_all2_fwd [OF rows(2) a(1)] by blast
    have "definite r" if "result_status r = Succeeded" using that by (cases r) auto
    then have "pa_status a' = Succeeded"
      using a(3) finalizes_settled [OF fin a(1) a'(2)] finalizes_attempt(4) [OF fin a(1) a'(2)] by auto
    moreover have "pa_invoice_id a' = inv_id iv'"
      using finalizes_attempt(1) [OF fin a(1) a'(2)] a(2) same by (simp add: leased_row_of_inject)
    ultimately show ?thesis using a'(1) by blast
  qed
  ultimately show "links_ok d'" by (simp add: links_ok_def)
qed

lemma attempt_outcome_same: "leased_row_of a' = leased_row_of a \<Longrightarrow> attempt_outcome E ans a' = attempt_outcome E ans a"
  by (simp add: attempt_outcome_def leased_row_of_inject)

text \<open>The key row the finalize completes is the one of the attempt it settles, and no other.\<close>

lemma finalizes_key_target:
  assumes "finalizes E ans now eid j r d out d'" and "a \<in> set (db_attempts d)" and "k \<in> set (db_keys d)" and "key_ok E ans a k"
  shows "key_matches (jb_business j) (jb_key j) k \<longleftrightarrow> pa_id a = jb_attempt j"
proof -
  obtain a0 where a0: "a0 \<in> set (db_attempts d)" "pa_id a0 = jb_attempt j" "pa_business_id a0 = jb_business j"
      "pa_idempotency_key a0 = jb_key j" "\<And>x. x \<in> set (db_attempts d) \<Longrightarrow> pa_id x = jb_attempt j \<Longrightarrow> x = a0"
    using finalizes_target [OF assms(1)] by metis
  have keys: "keys_ok E ans d" using assms(1) by (simp add: finalizes_def core_ok_def)
  obtain k0 where k0: "k0 \<in> set (db_keys d)" "key_ok E ans a0 k0" using keys a0(1) by (auto simp: keys_ok_def)
  show ?thesis
  proof
    assume "key_matches (jb_business j) (jb_key j) k"
    then have "(ik_business_id k, ik_idempotency_key k) = (ik_business_id k0, ik_idempotency_key k0)"
      using k0(2) a0(3,4) by (simp add: key_ok_def key_matches_def)
    moreover have "inj_on (\<lambda>k. (ik_business_id k, ik_idempotency_key k)) (set (db_keys d))"
      using keys by (simp add: keys_ok_def distinct_map)
    ultimately have "k = k0" using assms(3) k0(1) by (metis (mono_tags, lifting) inj_onD)
    then show "pa_id a = jb_attempt j" using assms(4) k0(2) a0(2) by (simp add: key_ok_def)
  next
    assume "pa_id a = jb_attempt j"
    then have "a = a0" using a0(5) assms(2) by blast
    then show "key_matches (jb_business j) (jb_key j) k" using assms(4) a0(3,4) by (simp add: key_ok_def key_matches_def)
  qed
qed

lemma finalizes_key:
  assumes "finalizes E ans now eid j r d out d'" and "a \<in> set (db_attempts d)" and "attempt_rel now r (jb_attempt j) a a'"
    and "k \<in> set (db_keys d)" and "key_rel E r out (jb_business j) (jb_key j) k k'" and "key_ok E ans a k"
  shows "key_ok E ans a' k'"
proof -
  note att = finalizes_attempt [OF assms(1-3)] and target = finalizes_key_target [OF assms(1,2,4,6)]
  show ?thesis
  proof (cases "definite r \<and> pa_id a = jb_attempt j")
    case True
    have "r = ans (pa_idempotency_key a)" "out = attempt_outcome E ans a"
      using finalizes_target [OF assms(1)] assms(1,2) True finalizes_rows(1) [OF assms(1)]
      unfolding finalizes_def attempt_outcome_def by metis+
    moreover have "k' = completed_row E out k" using assms(5) target True by (simp add: key_rel_def)
    moreover have "pa_status a' \<noteq> Pending" using att(6) True by simp
    ultimately show ?thesis using assms(6) att(1) attempt_outcome_same [OF att(1), of E ans]
      by (simp add: key_ok_def completed_row_def leased_row_of_inject)
  next
    case False
    have "k' = k" using assms(5) target False by (auto simp: key_rel_def)
    moreover have "pa_status a' = Pending \<longleftrightarrow> pa_status a = Pending" using att(5,6) False by (cases "pa_id a = jb_attempt j") auto
    ultimately show ?thesis using assms(6) att(1) attempt_outcome_same [OF att(1), of E ans]
      by (simp add: key_ok_def leased_row_of_inject)
  qed
qed

lemma finalizes_keys: "finalizes E ans now eid j r d out d' \<Longrightarrow> keys_ok E ans d'"
proof -
  assume fin: "finalizes E ans now eid j r d out d'"
  note rows = finalizes_rows [OF fin] and key = finalizes_key [OF fin]
  have old: "keys_ok E ans d" using fin by (simp add: finalizes_def core_ok_def)
  have "map (\<lambda>k. (ik_business_id k, ik_idempotency_key k)) (db_keys d') = map (\<lambda>k. (ik_business_id k, ik_idempotency_key k)) (db_keys d)"
    by (rule list_all2_map_eq [OF rows(4)]) (simp add: key_rel_def completed_row_def)
  then have "distinct (map (\<lambda>k. (ik_business_id k, ik_idempotency_key k)) (db_keys d'))" using old by (simp add: keys_ok_def)
  moreover have "\<exists>k' \<in> set (db_keys d'). key_ok E ans a' k'" if m: "a' \<in> set (db_attempts d')" for a'
  proof -
    obtain a where a: "a \<in> set (db_attempts d)" "attempt_rel now r (jb_attempt j) a a'"
      using list_all2_back [OF rows(2) m] by blast
    then obtain k where k: "k \<in> set (db_keys d)" "key_ok E ans a k" using old by (auto simp: keys_ok_def)
    then show ?thesis using list_all2_fwd [OF rows(4) k(1)] key [OF a k(1) _ k(2)] by blast
  qed
  moreover have "\<exists>a' \<in> set (db_attempts d'). key_ok E ans a' k'" if m: "k' \<in> set (db_keys d')" for k'
  proof -
    obtain k where k: "k \<in> set (db_keys d)" "key_rel E r out (jb_business j) (jb_key j) k k'"
      using list_all2_back [OF rows(4) m] by blast
    then obtain a where a: "a \<in> set (db_attempts d)" "key_ok E ans a k" using old by (auto simp: keys_ok_def)
    then show ?thesis using list_all2_fwd [OF rows(2) a(1)] key [OF a(1) _ k a(2)] by blast
  qed
  ultimately show "keys_ok E ans d'" by (simp add: keys_ok_def)
qed

lemma finalizes_outbox: "finalizes E ans now eid j r d out d' \<Longrightarrow> outbox_has E ans d'"
proof -
  assume fin: "finalizes E ans now eid j r d out d'"
  note rows = finalizes_rows [OF fin]
  have old: "outbox_has E ans d" using fin by (simp add: finalizes_def core_ok_def)
  have "\<exists>e \<in> set (db_events d'). event_ok E ans a' e" if m: "a' \<in> set (db_attempts d')" and settled: "pa_status a' \<noteq> Pending" for a'
  proof -
    obtain a where a: "a \<in> set (db_attempts d)" "attempt_rel now r (jb_attempt j) a a'"
      using list_all2_back [OF rows(2) m] by blast
    note att = finalizes_attempt [OF fin a]
    show ?thesis
    proof (cases "pa_status a = Pending")
      case False
      then have "a' = a" using att(4) by blast
      then show ?thesis using old a(1) False rows(5) by (auto simp: outbox_has_def)
    next
      case True
      have target: "pa_id a = jb_attempt j" "definite r" using att(5,6) True settled by auto
      then have st: "pa_status a' = result_status r" by (rule finalizes_settled [OF fin a])
      have job: "leased_row_of a' = j" and r: "r = ans (jb_key j)"
        using finalizes_target [OF fin] a(1) target fin att(1) unfolding finalizes_def by metis+
      have out: "outcome_response E (jb_invoice j) (jb_attempt j) (jb_amount j) r = attempt_outcome E ans a'"
        using r by (simp add: attempt_outcome_def leased_row_of_def flip: job)
      have fields: "jb_invoice j = pa_invoice_id a'" "jb_business j = pa_business_id a'" "jb_amount j = cents (pa_amount_cents a')"
        by (simp_all add: leased_row_of_def flip: job)
      have "event_ok E ans a' (paid_event E now eid (jb_business j) (jb_invoice j) (jb_attempt j) (jb_amount j) r d)"
        unfolding event_ok_def paid_event_def emitted_event_def fields out [unfolded fields] using st target(2) by (cases r) simp_all
      then show ?thesis using rows(5) target(2) by auto
    qed
  qed
  then show "outbox_has E ans d'" by (simp add: outbox_has_def)
qed

lemma finalizes_core: "finalizes E ans now eid j r d out d' \<Longrightarrow> core_ok E ans d'"
  unfolding core_ok_def
  by (blast intro: finalizes_invoices finalizes_attempts finalizes_links finalizes_keys finalizes_outbox)

lemma finalizes_grows: "finalizes E ans now eid j r d out d' \<Longrightarrow> grows d d'"
proof -
  assume fin: "finalizes E ans now eid j r d out d'"
  note rows = finalizes_rows [OF fin]
  have "\<exists>a' \<in> set (db_attempts d'). leased_row_of a' = leased_row_of a \<and> (pa_status a \<noteq> Pending \<longrightarrow> a' = a)"
    if m: "a \<in> set (db_attempts d)" for a
    using list_all2_fwd [OF rows(2) m] finalizes_attempt(1,4) [OF fin m] by blast
  moreover have "\<exists>iv' \<in> set (db_invoices d'). invoice_kept iv iv'" if m: "iv \<in> set (db_invoices d)" for iv
    using list_all2_fwd [OF rows(3) m] invoice_rel_kept by blast
  moreover have "\<exists>k' \<in> set (db_keys d'). ik_business_id k' = ik_business_id k \<and> ik_idempotency_key k' = ik_idempotency_key k"
    if m: "k \<in> set (db_keys d)" for k
    using list_all2_fwd [OF rows(4) m] key_rel_same by blast
  ultimately show "grows d d'" using rows(5) unfolding grows_def by auto
qed

section \<open>The other transactions keep the invariant\<close>

text \<open>A lease moves poll times only; no part of the invariant looks at them.\<close>

definition same_attempt :: "payment_attempt \<Rightarrow> payment_attempt \<Rightarrow> bool" where
  "same_attempt a a' \<longleftrightarrow> leased_row_of a' = leased_row_of a \<and> pa_status a' = pa_status a
     \<and> pa_psp_ref a' = pa_psp_ref a \<and> pa_failure_code a' = pa_failure_code a"

lemma same_attempt_views:
  assumes "same_attempt a a'"
  shows "pa_id a' = pa_id a" and "attempt_ok ans a' \<longleftrightarrow> attempt_ok ans a" and "active_attempt a' \<longleftrightarrow> active_attempt a"
    and "pa_invoice_id a' = pa_invoice_id a" and "link_ok a' iv \<longleftrightarrow> link_ok a iv" and "key_ok E ans a' k \<longleftrightarrow> key_ok E ans a k"
    and "event_ok E ans a' e \<longleftrightarrow> event_ok E ans a e" and "pa_status a' = pa_status a"
proof -
  have eqs: "pa_id a' = pa_id a" "pa_invoice_id a' = pa_invoice_id a" "pa_business_id a' = pa_business_id a"
    "pa_idempotency_key a' = pa_idempotency_key a" "pa_amount_cents a' = pa_amount_cents a" "pa_card_token a' = pa_card_token a"
    "pa_status a' = pa_status a" "pa_psp_ref a' = pa_psp_ref a" "pa_failure_code a' = pa_failure_code a"
    using assms unfolding same_attempt_def leased_row_of_inject by blast+
  have out: "attempt_outcome E ans a' = attempt_outcome E ans a"
    by (rule attempt_outcome_same) (use assms in \<open>simp add: same_attempt_def\<close>)
  show "pa_id a' = pa_id a" "attempt_ok ans a' \<longleftrightarrow> attempt_ok ans a" "active_attempt a' \<longleftrightarrow> active_attempt a"
    "pa_invoice_id a' = pa_invoice_id a" "link_ok a' iv \<longleftrightarrow> link_ok a iv" "key_ok E ans a' k \<longleftrightarrow> key_ok E ans a k"
    "event_ok E ans a' e \<longleftrightarrow> event_ok E ans a e" "pa_status a' = pa_status a"
    unfolding attempt_ok_def active_attempt_def link_ok_def key_ok_def event_ok_def eqs out by simp_all
qed

lemma same_attempts_core:
  assumes "core_ok E ans d" and "\<And>a. same_attempt a (f a)" and "d' = d\<lparr>db_attempts := map f (db_attempts d)\<rparr>"
  shows "core_ok E ans d'"
proof -
  note v = same_attempt_views [OF assms(2)]
  have old: "attempts_ok ans d" using assms(1) by (simp add: core_ok_def)
  have mem: "\<exists>x \<in> set (db_attempts d). a = f x" if "a \<in> set (db_attempts d')" for a using that by (auto simp: assms(3))
  have "attempts_ok ans d'"
  proof (rule attempts_okI)
    have "map pa_id (db_attempts d') = map pa_id (db_attempts d)" by (simp add: assms(3) v(1))
    then show "distinct (map pa_id (db_attempts d'))" using attempts_okD(1) [OF old] by simp
    show "attempt_ok ans a" if "a \<in> set (db_attempts d')" for a using mem [OF that] v(2) attempts_okD(2) [OF old] by blast
    show "pa_id a = pa_id x" if "a \<in> set (db_attempts d')" "x \<in> set (db_attempts d')" "active_attempt a" "active_attempt x"
        "pa_invoice_id a = pa_invoice_id x" for a x
      using mem [OF that(1)] mem [OF that(2)] that(3-5) attempts_okD(3) [OF old] v(1,3,4) by metis
  qed
  moreover have "links_ok d'" using assms(1) by (simp add: core_ok_def links_ok_def assms(3) v)
  moreover have "keys_ok E ans d'" using assms(1) by (simp add: core_ok_def keys_ok_def assms(3) v)
  moreover have "outbox_has E ans d'" using assms(1) by (simp add: core_ok_def outbox_has_def assms(3) v)
  moreover have "invoices_ok d'" using assms(1) by (simp add: core_ok_def invoices_ok_def assms(3))
  ultimately show ?thesis by (simp add: core_ok_def)
qed

lemma lease_keeps:
  assumes "lease_batch locked now d = (rows, d')" and "core_ok E ans d"
  shows "core_ok E ans d'" and "grows d d'" and "\<forall>j \<in> set rows. job_ok d' j"
proof -
  let ?B = "set (due_batch locked now d)"
  define f where "f a = (if pa_id a \<in> pa_id ` ?B then lease_row now a else a)" for a
  have d': "d' = d\<lparr>db_attempts := map f (db_attempts d)\<rparr>" and rows: "rows = map leased_row_of (due_batch locked now d)"
    using assms(1) by (simp_all add: lease_batch_def Let_def update_where_def f_def [abs_def])
  have same: "same_attempt a (f a)" for a by (simp add: same_attempt_def lease_row_def leased_row_of_def f_def)
  show "core_ok E ans d'" by (rule same_attempts_core [OF assms(2) same d'])
  have due: "a \<in> set (db_attempts d) \<and> pa_status a = Pending" if "a \<in> ?B" for a
    using that by (auto simp: due_batch_def poll_due_def dest!: due_rows_due)
  have ids: "inj_on pa_id (set (db_attempts d))" using assms(2) by (simp add: core_ok_def attempts_ok_def distinct_map)
  have "f a = a" if "a \<in> set (db_attempts d)" "pa_status a \<noteq> Pending" for a
    using that due ids by (auto simp: f_def dest: inj_onD)
  moreover have "leased_row_of (f a) = leased_row_of a" for a using same by (simp add: same_attempt_def)
  ultimately show grown: "grows d d'" by (simp add: grows_def d' invoice_kept_def) blast
  show "\<forall>j \<in> set rows. job_ok d' j" using due job_ok_grows [OF grown] by (auto simp: rows job_ok_def)
qed

text \<open>An admin transition moves one invoice along an edge that does not end in paid.\<close>

definition moved :: "invoice \<Rightarrow> invoice \<Rightarrow> bool" where
  "moved iv iv' \<longleftrightarrow> iv' = iv \<or> (inv_id iv' = inv_id iv \<and> inv_business_id iv' = inv_business_id iv
     \<and> inv_customer_id iv' = inv_customer_id iv \<and> inv_total_cents iv' = inv_total_cents iv \<and> can_transition_to (inv_state iv) (inv_state iv')
     \<and> inv_state iv' \<noteq> Paid \<and> inv_version iv' = inv_version iv + 1)"

lemma moved_core:
  assumes "core_ok E ans d" and "list_all2 moved (db_invoices d) t" and "d' = d\<lparr>db_invoices := t\<rparr>"
  shows "core_ok E ans d'" and "grows d d'"
proof -
  have prev: "\<exists>iv \<in> set (db_invoices d). moved iv iv'" if "iv' \<in> set t" for iv' by (rule list_all2_back [OF assms(2) that])
  have succ: "\<exists>iv' \<in> set t. moved iv iv'" if "iv \<in> set (db_invoices d)" for iv by (rule list_all2_fwd [OF assms(2) that])
  have kept: "invoice_kept iv iv'" if "moved iv iv'" for iv iv' using that by (auto simp: moved_def invoice_kept_def)
  have "invoice_ok iv'" if "moved iv iv'" "invoice_ok iv" for iv iv'
    using that can_transition_rank [of "inv_state iv" "inv_state iv'"] by (auto simp: moved_def invoice_ok_def invoice_kept_def)
  moreover have "map inv_id t = map inv_id (db_invoices d)"
    by (rule list_all2_map_eq [OF assms(2)]) (auto dest: kept simp: invoice_kept_def)
  moreover have "invoices_ok d" using assms(1) by (simp add: core_ok_def)
  ultimately have "distinct (map inv_id t)" "\<forall>iv' \<in> set t. invoice_ok iv'" using prev unfolding invoices_ok_def by (simp, blast)
  then have "invoices_ok d'" by (simp add: invoices_ok_def assms(3))
  have link: "link_ok a iv'" if "moved iv iv'" "link_ok a iv" for a iv iv'
    using that no_edge_to_draft terminal_no_edge by (auto simp: moved_def link_ok_def invoice_kept_def)
  have paid: "iv' = iv" if "moved iv iv'" "inv_state iv' = Paid" for iv iv' using that by (auto simp: moved_def)
  have links: "links_ok d" using assms(1) by (simp add: core_ok_def)
  have "\<exists>iv' \<in> set t. link_ok a iv'" if "a \<in> set (db_attempts d)" for a
  proof -
    obtain iv where "iv \<in> set (db_invoices d)" "link_ok a iv" using links \<open>a \<in> _\<close> unfolding links_ok_def by blast
    then show ?thesis using succ link by blast
  qed
  moreover have "\<exists>a \<in> set (db_attempts d). pa_invoice_id a = inv_id iv \<and> pa_status a = Succeeded"
    if "iv \<in> set t" "inv_state iv = Paid" for iv
    using prev [OF that(1)] paid that(2) links unfolding links_ok_def by blast
  ultimately have "links_ok d'" by (simp add: links_ok_def assms(3))
  moreover have eq: "db_attempts d' = db_attempts d" "db_keys d' = db_keys d" "db_events d' = db_events d" by (simp_all add: assms(3))
  then have "attempts_ok ans d'" "keys_ok E ans d'" "outbox_has E ans d'"
    using assms(1) by (simp_all add: core_ok_def core_congs(2) [OF eq(1)] core_congs(4) [OF eq(1,2)] core_congs(5) [OF eq(1,3)])
  ultimately show "core_ok E ans d'" using \<open>invoices_ok d'\<close> by (simp add: core_ok_def)
  have "\<exists>iv' \<in> set t. invoice_kept iv iv'" if "iv \<in> set (db_invoices d)" for iv using succ [OF that] kept by blast
  then show "grows d d'" by (auto simp: grows_def assms(3))
qed

lemma transition_keeps:
  assumes "apply_transition now b i frm to d = Inr (r, d')" and "core_ok E ans d"
    and "can_transition_to frm to" and "to \<noteq> Paid"
  shows "core_ok E ans d'" and "grows d d'"
proof -
  obtain iv' where "transition now b i frm to d = Inr (Some iv', d')"
    using assms(1) by (auto simp: apply_transition_def result_simps split: option.splits)
  then obtain iv t where d': "d' = d\<lparr>db_invoices := t\<rparr>"
    and rows: "list_all2 (\<lambda>r r'. if inv_id r = i \<and> inv_business_id r = b \<and> inv_state r = frm
        then transition_row now to r = Inr r' else r' = r) (db_invoices d) t" by (rule transition_Inr)
  have "list_all2 moved (db_invoices d) t"
    using rows by (rule list_all2_mono)
      (use assms(3,4) in \<open>auto simp: moved_def invoice_kept_def dest!: transition_row_Inr split: if_splits\<close>)
  from moved_core [OF assms(2) this d'] show "core_ok E ans d'" and "grows d d'" by blast+
qed

lemma create_keeps:
  assumes "invoice_create E now ids b req d = Inr (r, d')" and "core_ok E ans d"
  shows "core_ok E ans d'" and "grows d d'"
proof -
  have "create_tx E now ids b req d = Inr (r, d')" using assms(1) by (simp add: invoice_create_Inr)
  from create_tx_frame [OF this] obtain m xs e
    where d': "d' = d\<lparr>db_invoices := db_invoices d @ [created_row now (ids 0) b (ci_customer_id req) m],
        db_line_items := db_line_items d @ xs, db_events := db_events d @ [e], db_event_seq := db_event_seq d + 1\<rparr>"
      and new: "\<forall>iv \<in> set (db_invoices d). inv_id iv \<noteq> ids 0" and m: "0 \<le> sint (cents m)" by blast
  let ?iv = "created_row now (ids 0) b (ci_customer_id req) m"
  have iv: "inv_id ?iv = ids 0" "inv_state ?iv = Draft" "invoice_ok ?iv" using m by (simp_all add: created_row_def invoice_ok_def)
  have "invoices_ok d'" using assms(2) new iv by (auto simp: core_ok_def invoices_ok_def d')
  moreover have "links_ok d'" using assms(2) iv(2) by (auto simp: core_ok_def links_ok_def d')
  moreover have eq: "db_attempts d' = db_attempts d" "db_keys d' = db_keys d" by (simp_all add: d')
  then have "attempts_ok ans d'" "keys_ok E ans d'"
    using assms(2) by (simp_all add: core_ok_def core_congs(2) [OF eq(1)] core_congs(4) [OF eq])
  moreover have "outbox_has E ans d'" using assms(2) by (auto simp: core_ok_def outbox_has_def d')
  ultimately show "core_ok E ans d'" by (simp add: core_ok_def)
  show "grows d d'" by (auto simp: grows_def d' invoice_kept_def)
qed

lemma same_core_keeps:
  assumes "same_core d d'"
  shows "core_ok E ans d \<Longrightarrow> core_ok E ans d'" and "grows d d'"
proof -
  have eq: "db_invoices d' = db_invoices d" "db_attempts d' = db_attempts d" "db_keys d' = db_keys d" "db_events d' = db_events d"
    using assms by (simp_all add: same_core_def)
  show "core_ok E ans d \<Longrightarrow> core_ok E ans d'" by (simp add: core_ok_def core_congs(1) [OF eq(1)] core_congs(2) [OF eq(2)]
      core_congs(3) [OF eq(2,1)] core_congs(4) [OF eq(2,3)] core_congs(5) [OF eq(2,4)])
  show "grows d d'" by (auto simp: grows_def invoice_kept_def eq)
qed

section \<open>Every step keeps the invariant\<close>

lemma sys_move:
  assumes "sys_ok E ans s" and "core_ok E ans d'" and "grows (s_db s) d'" and "worker_ok ans d' x"
  shows "sys_ok E ans (at (s\<lparr>s_db := d'\<rparr>) w x)"
  using assms worker_ok_grows [OF assms(3)] log_ok_grows [OF assms(3)] by (simp add: sys_ok_def)

lemma sys_worker:
  assumes "sys_ok E ans s" and "worker_ok ans (s_db s) x"
  shows "sys_ok E ans (at s w x)"
  using assms by (simp add: sys_ok_def)

lemma sys_db:
  assumes "sys_ok E ans s" and "core_ok E ans d'" and "grows (s_db s) d'"
  shows "sys_ok E ans (s\<lparr>s_db := d'\<rparr>)"
  using assms worker_ok_grows [OF assms(3)] log_ok_grows [OF assms(3)] by (simp add: sys_ok_def)

lemma sys_okD:
  assumes "sys_ok E ans s"
  shows "core_ok E ans (s_db s)" and "worker_ok ans (s_db s) (s_workers s w)" and "log_ok ans (s_db s) (s_log s)"
  using assms by (simp_all add: sys_ok_def)

lemma next_job_ok: "\<forall>x \<in> set rest. job_ok d x \<Longrightarrow> worker_ok ans d (next_job r rest)"
  by (cases rest) auto

lemma start_batch_ok: "\<forall>x \<in> set rows. job_ok d x \<Longrightarrow> worker_ok ans d (start_batch rows)"
  by (cases rows) auto

lemma pay_read_seen:
  "pay_read b i req d = Inr (st, amt) \<Longrightarrow> invoice_seen d b i amt (st = Open)"
  by (auto simp: pay_read_def invoice_seen_def result_simps invoice_get_def dest!: fetch_optional_SomeD split: if_splits)

lemma check_transition_edge:
  "check_transition b i to d = Inr cur \<Longrightarrow> can_transition_to (inv_state cur) to"
  by (auto simp: check_transition_def result_simps split: if_splits)

lemma finalize_step:
  assumes "sys_ok E ans s" and "s_workers s w = Finalize j r rest"
    and "pay_finalize E now eid (jb_business j) (jb_invoice j) (jb_attempt j) (jb_key j) (jb_amount j) r (s_db s) = Inr (out, d')"
  shows "finalizes E ans now eid j r (s_db s) out d'" and "\<forall>x \<in> set rest. job_ok (s_db s) x"
  using assms(3) sys_okD(1) [OF assms(1)] sys_okD(2) [OF assms(1), of w] assms(2) by (auto simp: finalizes_def pay_finalize_def result_simps)

lemma step_ok: "step E ans s t \<Longrightarrow> sys_ok E ans s \<Longrightarrow> sys_ok E ans t \<and> grows (s_db s) (s_db t)"
proof (induction rule: step.induct)
  case (read_ok s w b i key tok st amt)
  then show ?case using sys_worker pay_read_seen by simp
next
  case (claim_ok s w b i key tok st amt now kid aid a d')
  have seen: "invoice_seen (s_db s) b i amt (st = Open)" using sys_okD(2) [OF claim_ok(3), of w] claim_ok(1) by simp
  note core = claim_core [OF claim_ok(2) sys_okD(1) [OF claim_ok(3)] seen]
  show ?case using sys_move [OF claim_ok(3) core claim_grows(1) [OF claim_ok(2)]] claim_grows [OF claim_ok(2)] by simp
next
  case (charge s w j rest r)
  have "worker_ok ans (s_db s) (Charge j rest)" using sys_okD(2) [OF charge(3), of w] charge(1) by simp
  then show ?case using charge(2,3) by (auto simp: sys_ok_def log_ok_def)
next
  case (finalize_ok s w j r rest now eid out d')
  note fin = finalize_step [OF finalize_ok(3,1,2)] and core = finalizes_core and grown = finalizes_grows
  have "\<forall>x \<in> set rest. job_ok d' x" using fin(2) job_ok_grows [OF grown [OF fin(1)]] by blast
  then show ?case using sys_move [OF finalize_ok(3) core [OF fin(1)] grown [OF fin(1)] next_job_ok] grown [OF fin(1)] by simp
next
  case (finalize_err s w j r rest now eid e)
  then show ?case using sys_okD(2) [OF finalize_err(3), of w] by (auto intro!: sys_worker next_job_ok)
next
  case (lease s w locked now rows d')
  note keeps = lease_keeps [OF lease(2) sys_okD(1) [OF lease(3)]]
  show ?case using sys_move [OF lease(3) keeps(1,2) start_batch_ok [OF keeps(3)]] keeps(2) by simp
next
  case (admin_check s w to b i cur)
  then show ?case using check_transition_edge [OF admin_check(3)] by (auto intro!: sys_worker)
next
  case (admin_apply s w b i frm to now r d')
  have "can_transition_to frm to" "to \<noteq> Paid" using sys_okD(2) [OF admin_apply(3), of w] admin_apply(1) by simp_all
  note keeps = transition_keeps [OF admin_apply(2) sys_okD(1) [OF admin_apply(3)] this]
  show ?case using sys_move [OF admin_apply(3) keeps] keeps(2) by simp
next
  case (create now ids b req s r d')
  note keeps = create_keeps [OF create(1) sys_okD(1) [OF create(2)]]
  show ?case using sys_db [OF create(2) keeps] keeps(2) by simp
next
  case (elsewhere s d')
  note keeps = same_core_keeps [OF elsewhere(1)]
  show ?case using sys_db [OF elsewhere(2) keeps(1) keeps(2)] keeps(2) sys_okD(1) [OF elsewhere(2)] by simp
next
  case (claim_replay s w b i key tok st amt now kid aid d')
  then have "d' = s_db s" "\<exists>r \<in> set (db_keys (s_db s)). key_matches b key r" by (auto simp: pay_tx1_Replay)
  then show ?case using sys_worker [OF claim_replay(3), of "PayReplay b i key (fingerprint E i tok amt)" w] by simp
next
  case (claim_rejected s w b i key tok st amt now kid aid e d')
  then show ?case using pay_tx1_Rejected [OF claim_rejected(2)] sys_worker [OF claim_rejected(3), of "Done (Inl e)" w] by simp
qed (simp_all add: sys_worker)

interpretation payments: machine_invariant start "step E ans" "sys_ok E ans" for E ans
proof
  show "sys_ok E ans s" if "start s" for s
    using that by (simp add: start_def sys_ok_def core_ok_def invoices_ok_def attempts_ok_def links_ok_def keys_ok_def
        outbox_has_def log_ok_def)
  show "sys_ok E ans t" if "sys_ok E ans s" "step E ans s t" for s t using step_ok that by blast
qed

interpretation history: machine_stable start "step E ans" "sys_ok E ans" "\<lambda>s. grows d (s_db s)" for E ans d
  by unfold_locales (blast dest: step_ok intro: grows_trans)

section \<open>Every settled attempt has its answer in the log\<close>

definition settled_jobs :: "db \<Rightarrow> leased_row set" where
  "settled_jobs d = leased_row_of ` {a \<in> set (db_attempts d). pa_status a \<noteq> Pending}"

definition worker_logged :: "(leased_row \<times> psp_result) list \<Rightarrow> worker \<Rightarrow> bool" where
  "worker_logged l x \<longleftrightarrow> (case x of Finalize j r rest \<Rightarrow> (j, r) \<in> set l | _ \<Rightarrow> True)"

definition logged :: "(string \<Rightarrow> psp_result) \<Rightarrow> sys \<Rightarrow> bool" where
  "logged ans s \<longleftrightarrow> (\<forall>j \<in> settled_jobs (s_db s). (j, ans (jb_key j)) \<in> set (s_log s))
     \<and> (\<forall>w. worker_logged (s_log s) (s_workers s w))"

lemma settled_jobs_same: "db_attempts d' = db_attempts d \<Longrightarrow> settled_jobs d' = settled_jobs d"
  by (simp add: settled_jobs_def)

lemma settled_jobs_claim:
  "pay_tx1 E now kid aid b i key tok st amt d = (Claimed a, d') \<Longrightarrow> settled_jobs d' \<subseteq> settled_jobs d"
  by (auto simp: pay_tx1_Claimed settled_jobs_def new_attempt_row_def)

lemma settled_jobs_lease:
  assumes "lease_batch locked now d = (rows, d')"
  shows "settled_jobs d' \<subseteq> settled_jobs d"
proof -
  have same: "leased_row_of (if P then lease_row now a else a) = leased_row_of a"
    "pa_status (if P then lease_row now a else a) = pa_status a" for P a by (simp_all add: lease_row_def leased_row_of_def)
  have "set (db_attempts d') = (\<lambda>a. if pa_id a \<in> pa_id ` set (due_batch locked now d) then lease_row now a else a) ` set (db_attempts d)"
    using assms by (auto simp: lease_batch_def Let_def set_update_where)
  then show ?thesis unfolding settled_jobs_def by (auto simp: same simp del: if_image_distrib)
qed

lemma settled_jobs_finalize:
  assumes "finalizes E ans now eid j r d out d'"
  shows "settled_jobs d' \<subseteq> settled_jobs d \<union> (if definite r then {j} else {})"
proof
  fix x assume "x \<in> settled_jobs d'"
  then obtain a' where a': "a' \<in> set (db_attempts d')" "x = leased_row_of a'" "pa_status a' \<noteq> Pending" by (auto simp: settled_jobs_def)
  then obtain a where a: "a \<in> set (db_attempts d)" "attempt_rel now r (jb_attempt j) a a'"
    using list_all2_back [OF finalizes_rows(2) [OF assms]] by blast
  note att = finalizes_attempt [OF assms a]
  show "x \<in> settled_jobs d \<union> (if definite r then {j} else {})"
  proof (cases "pa_status a = Pending")
    case False
    then show ?thesis using a(1) a'(2) att(1) by (auto simp: settled_jobs_def)
  next
    case True
    then have "pa_id a = jb_attempt j" "definite r" using att(5,6) a'(3) by auto
    moreover from this have "leased_row_of a = j" using finalizes_target [OF assms] a(1) by metis
    ultimately show ?thesis using a'(2) att(1) by simp
  qed
qed

lemma logged_move:
  assumes "logged ans s" and "settled_jobs d' \<subseteq> settled_jobs (s_db s)" and "worker_logged (s_log s) x"
  shows "logged ans (at (s\<lparr>s_db := d'\<rparr>) w x)"
  using assms by (auto simp: logged_def)

lemma logged_worker: "logged ans s \<Longrightarrow> worker_logged (s_log s) x \<Longrightarrow> logged ans (at s w x)"
  by (simp add: logged_def)

lemma logged_db: "logged ans s \<Longrightarrow> db_attempts d' = db_attempts (s_db s) \<Longrightarrow> logged ans (s\<lparr>s_db := d'\<rparr>)"
  by (simp add: logged_def settled_jobs_def)

lemma worker_logged_simps [simp]:
  "worker_logged l Idle" "worker_logged l (PayRead b i key tok)" "worker_logged l (PayClaim b i key tok st amt)"
  "worker_logged l (PayReplay b i key fp)" "worker_logged l (Charge j rest)" "worker_logged l (Transition b i frm to)"
  "worker_logged l (Done out)" "worker_logged l (Finalize j r rest) \<longleftrightarrow> (j, r) \<in> set l"
  by (simp_all add: worker_logged_def)

lemma next_job_logged [simp]: "worker_logged l (next_job out rest)" "worker_logged l (start_batch rows)"
  by (cases rest; simp) (cases rows; simp)

lemma worker_logged_append: "worker_logged l x \<Longrightarrow> worker_logged (l @ l') x"
  by (auto simp: worker_logged_def split: worker.splits)

lemma logged_finalize:
  assumes "finalizes E ans now eid j r (s_db s) out d'" and "logged ans s" and "(j, r) \<in> set (s_log s)"
  shows "logged ans (at (s\<lparr>s_db := d'\<rparr>) w (next_job (Inr out) rest))"
proof -
  have "(x, ans (jb_key x)) \<in> set (s_log s)" if "x \<in> settled_jobs d'" for x
    using settled_jobs_finalize [OF assms(1)] that assms unfolding logged_def finalizes_def by (auto split: if_splits)
  then show ?thesis using assms(2) by (simp add: logged_def)
qed

lemma logged_step: "step E ans s t \<Longrightarrow> sys_ok E ans s \<Longrightarrow> logged ans s \<Longrightarrow> logged ans t"
proof (induction rule: step.induct)
  case (claim_ok s w b i key tok st amt now kid aid a d')
  then show ?case by (intro logged_move settled_jobs_claim) simp_all
next
  case (finalize_ok s w j r rest now eid out d')
  have "worker_logged (s_log s) (s_workers s w)" using finalize_ok(4) by (simp add: logged_def)
  then show ?case using logged_finalize [OF finalize_step(1) [OF finalize_ok(3,1,2)] finalize_ok(4)] finalize_ok(1) by simp
next
  case (lease s w locked now rows d')
  then show ?case by (intro logged_move settled_jobs_lease) simp_all
next
  case (charge s w j rest r)
  then show ?case by (auto simp: logged_def intro: worker_logged_append)
next
  case (admin_apply s w b i frm to now r d')
  obtain iv' where "transition now b i frm to (s_db s) = Inr (Some iv', d')"
    using admin_apply(2) by (auto simp: apply_transition_def result_simps split: option.splits)
  then obtain t where "d' = (s_db s)\<lparr>db_invoices := t\<rparr>" by (rule transition_Inr)
  then have "settled_jobs d' = settled_jobs (s_db s)" by (intro settled_jobs_same) simp
  then show ?case using admin_apply(4) by (intro logged_move) simp_all
next
  case (create now ids b req s r d')
  then show ?case using create_tx_frame [of E now ids b req "s_db s" r d'] by (auto simp: invoice_create_Inr intro!: logged_db)
next
  case (claim_replay s w b i key tok st amt now kid aid d')
  then show ?case by (auto simp: pay_tx1_Replay intro!: logged_worker)
next
  case (claim_rejected s w b i key tok st amt now kid aid e d')
  then show ?case by (auto dest!: pay_tx1_Rejected intro!: logged_worker)
next
  case (elsewhere s d')
  then show ?case by (auto simp: same_core_def intro!: logged_db)
qed (auto intro!: logged_worker)

interpretation audit: machine_stable start "step E ans" "sys_ok E ans" "logged ans" for E ans
  by unfold_locales (blast dest: logged_step)

lemma start_logged: "start s \<Longrightarrow> logged ans s"
  by (simp add: start_def logged_def settled_jobs_def)

section \<open>Facts about reachable states\<close>

lemma reach_run: "reach st sp s \<Longrightarrow> \<exists>s0. st s0 \<and> sp\<^sup>*\<^sup>* s0 s"
  by (induction rule: reach.induct) (blast intro: rtranclp.rtrancl_into_rtrancl)+

lemma reach_logged: "reach start (step E ans) s \<Longrightarrow> logged ans s"
  using reach_run audit.steps_stable payments.inv_start start_logged by metis

lemma reach_core:
  assumes "reach start (step E ans) s"
  shows "attempts_ok ans (s_db s)" and "links_ok (s_db s)" and "keys_ok E ans (s_db s)" and "outbox_has E ans (s_db s)"
  using sys_okD(1) [OF payments.reach_inv [OF assms]] by (simp_all add: core_ok_def)

lemma active_unique:
  assumes "attempts_ok ans d" and "a \<in> set (db_attempts d)" and "x \<in> set (db_attempts d)"
    and "active_attempt a" and "active_attempt x" and "pa_invoice_id a = pa_invoice_id x"
  shows "a = x"
proof -
  have "pa_id a = pa_id x" by (rule attempts_okD(3) [OF assms])
  then show ?thesis using attempts_okD(1) [OF assms(1)] assms(2,3) by (auto simp: distinct_map inj_on_def)
qed

text \<open>An attempt whose key the provider accepts is active, settled or not.\<close>

lemma accepted_active:
  assumes "attempts_ok ans d" and "a \<in> set (db_attempts d)" and "ans (pa_idempotency_key a) = PspSucceeded q"
  shows "active_attempt a"
  using attempts_okD(2) [OF assms(1,2)] assms(3) by (auto simp: attempt_ok_def active_attempt_def split: payment_status.splits)

lemma logged_attempt:
  assumes "reach start (step E ans) s" and "(j, r) \<in> set (s_log s)"
  shows "\<exists>a \<in> set (db_attempts (s_db s)). leased_row_of a = j"
  using sys_okD(3) [OF payments.reach_inv [OF assms(1)]] assms(2) by (auto simp: log_ok_def job_ok_def)

lemma settled_key_replays:
  assumes "keys_ok E ans d" and "a \<in> set (db_attempts d)" and "pa_status a \<noteq> Pending" and "uuid_laws E" and "attempt_ok ans a"
  shows "replay E (pa_business_id a) (pa_idempotency_key a)
           (fingerprint E (pa_invoice_id a) (pa_card_token a) (cents (pa_amount_cents a))) i d = Inr (attempt_outcome E ans a)"
proof -
  obtain k where k: "k \<in> set (db_keys d)" "key_ok E ans a k" using assms(1,2) by (auto simp: keys_ok_def)
  have "fetch_optional (key_matches (pa_business_id a) (pa_idempotency_key a)) (db_keys d) = Some k"
  proof (rule fetch_optional_unique [OF k(1)])
    show "key_matches (pa_business_id a) (pa_idempotency_key a) k" using k(2) by (simp add: key_ok_def key_matches_def)
    have inj: "inj_on (\<lambda>k. (ik_business_id k, ik_idempotency_key k)) (set (db_keys d))"
      using assms(1) by (simp add: keys_ok_def distinct_map)
    show "k' = k" if "k' \<in> set (db_keys d)" "key_matches (pa_business_id a) (pa_idempotency_key a) k'" for k'
      using inj that k by (auto simp: key_ok_def key_matches_def inj_on_def)
  qed
  moreover have "definite (ans (pa_idempotency_key a))" using assms(3,5) by (auto simp: attempt_ok_def split: payment_status.splits)
  ultimately show ?thesis using k(2) assms(3) completed_replay [OF assms(4)] by (simp add: replay_def key_ok_def attempt_outcome_def)
qed

end
