(* ===== verification/Ledger.thy ===== *)
theory Ledger
  imports System_Invariant
begin

text \<open>
  What the payment system promises about invoices, as an abstract machine: a ledger that maps an
  invoice id to a state and a total. A ledger can stay as it is, gain a new draft, or move one
  invoice along one edge of the state machine with its total unchanged; nothing else. The
  concurrent system simulates it, step by step, so every run of the system is a run of the
  ledger.
\<close>

section \<open>The abstract machine\<close>

type_synonym ledger = "uuid \<rightharpoonup> invoice_state \<times> money"

inductive ledger_step :: "ledger \<Rightarrow> ledger \<Rightarrow> bool" where
  stay: "ledger_step L L"
| draft: "L i = None \<Longrightarrow> 0 \<le> sint (cents m) \<Longrightarrow> ledger_step L (L(i \<mapsto> (Draft, m)))"
| move: "L i = Some (st, m) \<Longrightarrow> can_transition_to st st' \<Longrightarrow> ledger_step L (L(i \<mapsto> (st', m)))"

inductive_cases ledger_stepE: "ledger_step L L'"

definition ledger_of :: "invoice list \<Rightarrow> ledger" where
  "ledger_of t = map_of (map (\<lambda>iv. (inv_id iv, inv_state iv, inv_total_cents iv)) t)"

definition ledger :: "sys \<Rightarrow> ledger" where
  "ledger s = ledger_of (db_invoices (s_db s))"

locale simulation = machine_invariant start step inv
  for start :: "'s \<Rightarrow> bool" and step :: "'s \<Rightarrow> 's \<Rightarrow> bool" and inv :: "'s \<Rightarrow> bool" +
  fixes astep :: "'a \<Rightarrow> 'a \<Rightarrow> bool" and view :: "'s \<Rightarrow> 'a"
  assumes simulated: "inv s \<Longrightarrow> step s t \<Longrightarrow> astep (view s) (view t)"
begin

lemma run_simulated:
  assumes "step\<^sup>*\<^sup>* s t" and "inv s"
  shows "astep\<^sup>*\<^sup>* (view s) (view t)"
  using assms
proof (induction rule: rtranclp_induct)
  case (step t u)
  have "inv t" using steps_inv step by blast
  then show ?case using simulated step by (meson rtranclp.rtrancl_into_rtrancl)
qed simp

end

section \<open>Runs of the ledger\<close>

text \<open>A ledger run keeps every entry and its total; states follow the edges, so final ones stay.\<close>

lemma ledger_step_entry:
  "ledger_step L L' \<Longrightarrow> L i = Some (st, m) \<Longrightarrow> \<exists>st'. L' i = Some (st', m) \<and> can_transition_to\<^sup>*\<^sup>* st st'"
  by (erule ledger_stepE) (auto split: if_splits)

lemma ledger_run_entry:
  assumes "ledger_step\<^sup>*\<^sup>* L L'" and "L i = Some (st, m)"
  shows "\<exists>st'. L' i = Some (st', m) \<and> can_transition_to\<^sup>*\<^sup>* st st'"
  using assms
proof (induction rule: rtranclp_induct)
  case (step M N)
  then show ?case by (meson ledger_step_entry rtranclp_trans)
qed auto

lemma terminal_stays: "can_transition_to\<^sup>*\<^sup>* st st' \<Longrightarrow> is_terminal st \<Longrightarrow> st' = st"
  by (erule converse_rtranclpE) (auto dest: terminal_no_edge)

section \<open>The simulation\<close>

lemma ledger_of_Cons [simp]:
  "ledger_of (iv # t) = (ledger_of t)(inv_id iv \<mapsto> (inv_state iv, inv_total_cents iv))"
  by (simp add: ledger_of_def)

lemma ledger_of_None: "ledger_of t i = None \<longleftrightarrow> i \<notin> inv_id ` set t"
  by (auto simp: ledger_of_def map_of_eq_None_iff image_image)

lemma ledger_of_unique:
  assumes "distinct (map inv_id t)" and "iv \<in> set t"
  shows "ledger_of t (inv_id iv) = Some (inv_state iv, inv_total_cents iv)"
  using assms by (induction t) (auto simp: image_iff)

text \<open>An UPDATE that touches at most the invoice \<open>i\<close>, and moves it along an edge.\<close>

definition moves_only :: "uuid \<Rightarrow> invoice \<Rightarrow> invoice \<Rightarrow> bool" where
  "moves_only i iv iv' \<longleftrightarrow> inv_id iv' = inv_id iv \<and> inv_total_cents iv' = inv_total_cents iv
     \<and> (inv_state iv' = inv_state iv \<or> inv_id iv = i \<and> can_transition_to (inv_state iv) (inv_state iv'))"

lemma ledger_of_unmoved:
  "list_all2 (moves_only i) t t' \<Longrightarrow> i \<notin> inv_id ` set t \<Longrightarrow> ledger_of t' = ledger_of t"
  by (induction rule: list_all2_induct) (auto simp: moves_only_def)

lemma ledger_of_moved:
  assumes "list_all2 (moves_only i) t t'" and "distinct (map inv_id t)"
  shows "ledger_of t' = ledger_of t
     \<or> (\<exists>st st' m. ledger_of t i = Some (st, m) \<and> can_transition_to st st' \<and> ledger_of t' = (ledger_of t)(i \<mapsto> (st', m)))"
  using assms
proof (induction rule: list_all2_induct)
  case (Cons iv t iv' t')
  note head = Cons(1) [unfolded moves_only_def]
  show ?case
  proof (cases "inv_id iv = i")
    case True
    then have "ledger_of t' = ledger_of t" using ledger_of_unmoved [OF Cons(2)] Cons.prems by auto
    then have "ledger_of (iv' # t') = (ledger_of (iv # t))(i \<mapsto> (inv_state iv', inv_total_cents iv))"
      "ledger_of (iv # t) i = Some (inv_state iv, inv_total_cents iv)" using head True by simp_all
    then show ?thesis using head True by (metis fun_upd_triv)
  next
    case False
    then have new: "ledger_of (iv' # t') = (ledger_of t')(inv_id iv \<mapsto> (inv_state iv, inv_total_cents iv))" using head by simp
    have dist: "distinct (map inv_id t)" using Cons.prems by simp
    consider "ledger_of t' = ledger_of t" | st st' m where "ledger_of t i = Some (st, m)" "can_transition_to st st'"
      "ledger_of t' = (ledger_of t)(i \<mapsto> (st', m))" using Cons.IH [OF dist] by blast
    then show ?thesis
    proof cases
      case 2
      have "ledger_of (iv' # t') = (ledger_of t)(i \<mapsto> (st', m), inv_id iv \<mapsto> (inv_state iv, inv_total_cents iv))"
        using new 2(3) by simp
      also have "\<dots> = (ledger_of (iv # t))(i \<mapsto> (st', m))" 
        unfolding ledger_of_Cons by (rule fun_upd_twist) (use False in simp)
      finally have "ledger_of (iv' # t') = (ledger_of (iv # t))(i \<mapsto> (st', m))" .
      moreover have "ledger_of (iv # t) i = Some (st, m)" using 2(1) False by simp
      ultimately show ?thesis using 2(2) by blast
    qed (use new in simp)
  qed
qed simp

lemma ledger_step_moved:
  assumes "list_all2 (moves_only i) t t'" and "distinct (map inv_id t)"
  shows "ledger_step (ledger_of t) (ledger_of t')"
  using ledger_of_moved [OF assms] by (auto intro: ledger_step.intros)

lemma ledger_step_created:
  assumes "\<forall>iv \<in> set t. inv_id iv \<noteq> inv_id x" and "inv_state x = Draft" and "0 \<le> sint (cents (inv_total_cents x))"
  shows "ledger_step (ledger_of t) (ledger_of (t @ [x]))"
proof -
  have "ledger_of (t @ [x]) = (ledger_of t)(inv_id x \<mapsto> (Draft, inv_total_cents x))"
    using assms(1,2) by (induction t) (auto simp: ledger_of_def fun_upd_twist)
  moreover have "ledger_of t (inv_id x) = None" unfolding ledger_of_None using assms(1) by (metis imageE)
  ultimately show ?thesis using assms(3) by (simp add: ledger_step.draft)
qed

lemma finalizes_ledger:
  assumes "finalizes E ans now eid j r d out d'"
  shows "ledger_step (ledger_of (db_invoices d)) (ledger_of (db_invoices d'))"
proof (rule ledger_step_moved)
  show "list_all2 (moves_only (jb_invoice j)) (db_invoices d) (db_invoices d')"
    using finalizes_rows(3) [OF assms] by (rule list_all2_mono) (auto simp: moves_only_def dest!: invoice_rel_same)
  show "distinct (map inv_id (db_invoices d))" using assms by (simp add: finalizes_def core_ok_def invoices_ok_def)
qed

lemma transition_ledger:
  assumes "apply_transition now b i frm to d = Inr (r, d')" and "can_transition_to frm to" and "invoices_ok d"
  shows "ledger_step (ledger_of (db_invoices d)) (ledger_of (db_invoices d'))"
proof (rule ledger_step_moved)
  obtain iv' where "transition now b i frm to d = Inr (Some iv', d')"
    using assms(1) by (auto simp: apply_transition_def result_simps split: option.splits)
  then obtain t where d': "d' = d\<lparr>db_invoices := t\<rparr>"
    and rows: "list_all2 (\<lambda>r r'. if inv_id r = i \<and> inv_business_id r = b \<and> inv_state r = frm
        then transition_row now to r = Inr r' else r' = r) (db_invoices d) t" by (rule transition_Inr)
  have "list_all2 (moves_only i) (db_invoices d) t"
    using rows by (rule list_all2_mono)
      (use assms(2) in \<open>auto simp: moves_only_def dest!: transition_row_Inr split: if_splits\<close>)
  then show "list_all2 (moves_only i) (db_invoices d) (db_invoices d')" by (simp add: d')
  show "distinct (map inv_id (db_invoices d))" using assms(3) by (simp add: invoices_ok_def)
qed

lemma create_ledger:
  assumes "invoice_create E now ids b req d = Inr (r, d')"
  shows "ledger_step (ledger_of (db_invoices d)) (ledger_of (db_invoices d'))"
proof -
  have "create_tx E now ids b req d = Inr (r, d')" using assms by (simp add: invoice_create_Inr)
  from create_tx_frame [OF this] obtain m
    where d': "db_invoices d' = db_invoices d @ [created_row now (ids 0) b (ci_customer_id req) m]"
      and new: "\<forall>iv \<in> set (db_invoices d). inv_id iv \<noteq> ids 0" and m: "0 \<le> sint (cents m)" by auto
  show ?thesis unfolding d' by (rule ledger_step_created) (use new m in \<open>simp_all add: created_row_def\<close>)
qed

lemma step_ledger: "step E ans s t \<Longrightarrow> sys_ok E ans s \<Longrightarrow> ledger_step (ledger s) (ledger t)"
proof (induction rule: step.induct)
  case (finalize_ok s w j r rest now eid out d')
  then show ?case using finalizes_ledger [OF finalize_step(1)] by (simp add: ledger_def)
next
  case (admin_apply s w b i frm to now r d')
  have "can_transition_to frm to" using sys_okD(2) [OF admin_apply(3), of w] admin_apply(1) by simp
  then show ?case using transition_ledger [OF admin_apply(2)] sys_okD(1) [OF admin_apply(3)] by (simp add: ledger_def core_ok_def)
next
  case (create now ids b req s r d')
  then show ?case using create_ledger by (simp add: ledger_def)
next
  case (claim_ok s w b i key tok st amt now kid aid a d')
  then show ?case by (simp add: ledger_def pay_tx1_Claimed ledger_step.stay)
next
  case (lease s w locked now rows d')
  then show ?case by (auto simp: ledger_def lease_batch_def Let_def intro: ledger_step.stay)
next
  case (claim_replay s w b i key tok st amt now kid aid d')
  then show ?case by (simp add: ledger_def pay_tx1_Replay ledger_step.stay)
next
  case (claim_rejected s w b i key tok st amt now kid aid e d')
  then show ?case using pay_tx1_Rejected [OF claim_rejected(2)] by (simp add: ledger_def ledger_step.stay)
next
  case (elsewhere s d')
  then show ?case by (simp add: ledger_def same_core_def ledger_step.stay)
qed (simp_all add: ledger_def ledger_step.stay)

interpretation books: simulation start "step E ans" "sys_ok E ans" ledger_step ledger for E ans
  by unfold_locales (rule step_ledger)

end
