(* ===== verification/Runs.thy ===== *)
theory Runs
  imports Ledger
begin

text \<open>
  The sequential definitions as runs of the concurrent system: a request that nobody disturbs
  (\<open>pay\<close>) and a reconciler tick (\<open>tick\<close>) are sequences of steps of one worker, with the same
  database, the same answer and the same provider calls. So what is proved of every run holds
  of them, whatever ran before. At the end, a concrete run from the empty database.
\<close>

section \<open>Requests and ticks\<close>

abbreviation log_calls :: "sys \<Rightarrow> charge_call list" where
  "log_calls s \<equiv> map (\<lambda>(j, r). (jb_token j, jb_amount j, jb_key j)) (s_log s)"

abbreviation steps :: "ext \<Rightarrow> (string \<Rightarrow> psp_result) \<Rightarrow> sys \<Rightarrow> sys \<Rightarrow> bool" where
  "steps E ans \<equiv> (step E ans)\<^sup>*\<^sup>*"

lemma steps_snoc: "steps E ans s t \<Longrightarrow> step E ans t u \<Longrightarrow> steps E ans s u"
  by (rule rtranclp.rtrancl_into_rtrancl)

lemma pay_request_eta: "\<lparr>pr_card_token = pr_card_token req\<rparr> = req"
  by (cases req) simp

lemma run_to_claim:
  assumes "s_workers s w = Idle" and "pay_read b i req (s_db s) = Inr (st, amt)"
  shows "steps E ans s (at s w (PayClaim b i key (pr_card_token req) st amt))"
proof -
  let ?s1 = "at s w (PayRead b i key (pr_card_token req))"
  have "step E ans s ?s1" using assms(1) by (rule step.submit)
  moreover have "step E ans ?s1 (at ?s1 w (PayClaim b i key (pr_card_token req) st amt))"
    by (rule step.read_ok) (use assms(2) in \<open>simp_all add: pay_request_eta\<close>)
  ultimately have "steps E ans s (at ?s1 w (PayClaim b i key (pr_card_token req) st amt))"
    by (rule steps_snoc [OF r_into_rtranclp])
  then show ?thesis by simp
qed

lemma pay_run:
  assumes "s_workers s w = Idle" and "pay E psp dr b i key req (s_db s) = (res, d', calls)"
    and "\<And>amt. psp (pr_card_token req) amt key = ans key \<or> \<not> definite (psp (pr_card_token req) amt key)"
  shows "\<exists>t. steps E ans s t \<and> s_db t = d' \<and> s_workers t = (s_workers s)(w := Done res) \<and> log_calls t = log_calls s @ calls"
proof (cases "pay_read b i req (s_db s)")
  case (Inl e)
  let ?s1 = "at s w (PayRead b i key (pr_card_token req))"
  have "step E ans s ?s1" using assms(1) by (rule step.submit)
  moreover have "step E ans ?s1 (at ?s1 w (Done (Inl e)))"
    by (rule step.read_err [where b = b and i = i and key = key and tok = "pr_card_token req"])
      (use Inl in \<open>simp_all add: pay_request_eta\<close>)
  ultimately have "steps E ans s (at ?s1 w (Done (Inl e)))" by (rule steps_snoc [OF r_into_rtranclp])
  moreover have "res = Inl e" "d' = s_db s" "calls = []" using assms(2) Inl by (auto simp: pay_def)
  ultimately show ?thesis by (intro exI [of _ "at ?s1 w (Done (Inl e))"]) simp
next
  case (Inr x)
  obtain st amt where rd: "pay_read b i req (s_db s) = Inr (st, amt)" using Inr by (cases x) auto
  let ?tok = "pr_card_token req" and ?s2 = "at s w (PayClaim b i key (pr_card_token req) st amt)"
  have to2: "steps E ans s ?s2" by (rule run_to_claim [OF assms(1) rd])
  obtain c d1 where tx: "pay_tx1 E (pd_claim_time dr) (pd_key_id dr) (pd_attempt_id dr) b i key ?tok st amt (s_db s) = (c, d1)"
    by (cases "pay_tx1 E (pd_claim_time dr) (pd_key_id dr) (pd_attempt_id dr) b i key ?tok st amt (s_db s)") auto
  show ?thesis
  proof (cases c)
    case ClaimReplay
    let ?fp = "fingerprint E i ?tok amt"
    have "step E ans ?s2 (at (?s2\<lparr>s_db := d1\<rparr>) w (PayReplay b i key ?fp))"
      by (rule step.claim_replay) (use tx ClaimReplay in simp_all)
    moreover have "step E ans (at (?s2\<lparr>s_db := d1\<rparr>) w (PayReplay b i key ?fp))
        (at (at (?s2\<lparr>s_db := d1\<rparr>) w (PayReplay b i key ?fp)) w (Done (replay E b key ?fp i d1)))"
      using step.replayed [of "at (?s2\<lparr>s_db := d1\<rparr>) w (PayReplay b i key ?fp)" w b i key ?fp E ans] by simp
    ultimately have "steps E ans s (at (at (?s2\<lparr>s_db := d1\<rparr>) w (PayReplay b i key ?fp)) w (Done (replay E b key ?fp i d1)))"
      by (rule steps_snoc [OF steps_snoc [OF to2]])
    moreover have "res = replay E b key ?fp i d1" "d' = d1" "calls = []" using assms(2) rd tx ClaimReplay by (auto simp: pay_def)
    ultimately show ?thesis by (intro exI conjI) (assumption, simp_all)
  next
    case (ClaimRejected e)
    have "step E ans ?s2 (at (?s2\<lparr>s_db := d1\<rparr>) w (Done (Inl e)))"
      by (rule step.claim_rejected) (use tx ClaimRejected in simp_all)
    then have "steps E ans s (at (?s2\<lparr>s_db := d1\<rparr>) w (Done (Inl e)))" by (rule steps_snoc [OF to2])
    moreover have "res = Inl e" "d' = d1" "calls = []" using assms(2) rd tx ClaimRejected by (auto simp: pay_def)
    ultimately show ?thesis by (intro exI conjI) (assumption, simp_all)
  next
    case (Claimed a)
    let ?j = "\<lparr>jb_attempt = a, jb_invoice = i, jb_business = b, jb_key = key, jb_amount = amt, jb_token = ?tok\<rparr>"
    let ?r = "psp ?tok amt key"
    let ?s3 = "at (?s2\<lparr>s_db := d1\<rparr>) w (Charge ?j [])"
    let ?s4 = "at (?s3\<lparr>s_log := s_log ?s3 @ [(?j, ?r)]\<rparr>) w (Finalize ?j ?r [])"
    have "step E ans ?s2 ?s3" by (rule step.claim_ok) (use tx Claimed in simp_all)
    moreover have "step E ans ?s3 ?s4" by (rule step.charge) (use assms(3) [of amt] in simp_all)
    ultimately have to4: "steps E ans s ?s4" by (rule steps_snoc [OF steps_snoc [OF to2]])
    let ?f = "pay_finalize E (pd_finalize_time dr) (pd_event_id dr) b i a key amt ?r d1"
    show ?thesis
    proof (cases ?f)
      case (Inl e)
      have "step E ans ?s4 (at ?s4 w (next_job (Inl e) []))" by (rule step.finalize_err [where now = "pd_finalize_time dr" and eid = "pd_event_id dr" and j = ?j and r = ?r and rest = "[]"]) (use Inl in simp_all)
      from steps_snoc [OF to4 this] have "steps E ans s (at ?s4 w (Done (Inl e)))" by (simp only: next_job.simps)
      moreover have "res = Inl e" "d' = d1" "calls = [(?tok, amt, key)]"
        using assms(2) rd tx Claimed Inl by (auto simp: pay_def Let_def)
      ultimately show ?thesis by (intro exI conjI) (assumption, simp_all)
    next
      case (Inr x)
      obtain out d2 where x: "x = (out, d2)" by (cases x)
      have "step E ans ?s4 (at (?s4\<lparr>s_db := d2\<rparr>) w (next_job (Inr out) []))" by (rule step.finalize_ok [where now = "pd_finalize_time dr" and eid = "pd_event_id dr" and j = ?j and r = ?r and rest = "[]"]) (use Inr x in simp_all)
      from steps_snoc [OF to4 this] have "steps E ans s (at (?s4\<lparr>s_db := d2\<rparr>) w (Done (Inr out)))" by (simp only: next_job.simps)
      moreover have "res = Inr out" "d' = d2" "calls = [(?tok, amt, key)]"
        using assms(2) rd tx Claimed Inr x by (auto simp: pay_def Let_def)
      ultimately show ?thesis by (intro exI conjI) (assumption, simp_all)
    qed
  qed
qed

text \<open>The rows of a tick, one after the other.\<close>

lemma row_run:
  assumes "s_workers s w = Charge j rest" and "psp (jb_token j) (jb_amount j) (jb_key j) = ans (jb_key j)
      \<or> \<not> definite (psp (jb_token j) (jb_amount j) (jb_key j))"
  shows "\<exists>t out. steps E ans s t \<and> s_db t = reconcile_row E psp draw j (s_db s)
     \<and> s_workers t = (s_workers s)(w := next_job out rest) \<and> log_calls t = log_calls s @ [(jb_token j, jb_amount j, jb_key j)]"
proof -
  let ?r = "psp (jb_token j) (jb_amount j) (jb_key j)"
  let ?s1 = "at (s\<lparr>s_log := s_log s @ [(j, ?r)]\<rparr>) w (Finalize j ?r rest)"
  have "step E ans s ?s1" using assms by (rule step.charge)
  then have to1: "steps E ans s ?s1" by (rule r_into_rtranclp)
  let ?f = "pay_finalize E (fst draw) (snd draw) (jb_business j) (jb_invoice j) (jb_attempt j) (jb_key j) (jb_amount j) ?r (s_db s)"
  show ?thesis
  proof (cases ?f)
    case (Inl e)
    have "step E ans ?s1 (at ?s1 w (next_job (Inl e) rest))"
      by (rule step.finalize_err [where now = "fst draw" and eid = "snd draw" and j = j and r = ?r]) (use Inl in simp_all)
    moreover have "reconcile_row E psp draw j (s_db s) = s_db s" using Inl by (simp add: reconcile_row_def finalize_for_reconciler_def)
    ultimately show ?thesis
      by (intro exI [of _ "at ?s1 w (next_job (Inl e) rest)"] exI [of _ "Inl e"] conjI steps_snoc [OF to1]) simp_all
  next
    case (Inr x)
    obtain out d2 where x: "x = (out, d2)" by (cases x)
    have "step E ans ?s1 (at (?s1\<lparr>s_db := d2\<rparr>) w (next_job (Inr out) rest))"
      by (rule step.finalize_ok [where now = "fst draw" and eid = "snd draw" and j = j and r = ?r]) (use Inr x in simp_all)
    moreover have "reconcile_row E psp draw j (s_db s) = d2" using Inr x by (simp add: reconcile_row_def finalize_for_reconciler_def)
    ultimately show ?thesis
      by (intro exI [of _ "at (?s1\<lparr>s_db := d2\<rparr>) w (next_job (Inr out) rest)"] exI [of _ "Inr out"] conjI steps_snoc [OF to1]) simp_all
  qed
qed

lemma rows_run:
  assumes "s_workers s w = Charge j rest" and "reconcile_rows E psp draws (j # rest) (s_db s) = (calls, d')"
    and "length rest < length draws"
    and "\<forall>x \<in> set (j # rest). psp (jb_token x) (jb_amount x) (jb_key x) = ans (jb_key x)
          \<or> \<not> definite (psp (jb_token x) (jb_amount x) (jb_key x))"
  shows "\<exists>t out. steps E ans s t \<and> s_db t = d' \<and> s_workers t = (s_workers s)(w := Done out) \<and> log_calls t = log_calls s @ calls"
  using assms
proof (induction rest arbitrary: s j draws calls)
  case Nil
  then obtain draw draws' where draws: "draws = draw # draws'" by (cases draws) auto
  have "psp (jb_token j) (jb_amount j) (jb_key j) = ans (jb_key j) \<or> \<not> definite (psp (jb_token j) (jb_amount j) (jb_key j))"
    using Nil.prems(4) by simp
  from row_run [where psp = psp and ans = ans and E = E and draw = draw, OF Nil.prems(1) this] obtain t out where "steps E ans s t" "s_db t = reconcile_row E psp draw j (s_db s)"
    "s_workers t = (s_workers s)(w := next_job out [])" "log_calls t = log_calls s @ [(jb_token j, jb_amount j, jb_key j)]" by blast
  then show ?case using Nil.prems(2) draws by (intro exI [of _ t] exI [of _ out]) auto
next
  case (Cons k rest)
  then obtain draw draws' where draws: "draws = draw # draws'" by (cases draws) auto
  have "psp (jb_token j) (jb_amount j) (jb_key j) = ans (jb_key j) \<or> \<not> definite (psp (jb_token j) (jb_amount j) (jb_key j))"
    using Cons.prems(4) by simp
  from row_run [where psp = psp and ans = ans and E = E and draw = draw, OF Cons.prems(1) this] obtain t out where t: "steps E ans s t" "s_db t = reconcile_row E psp draw j (s_db s)"
    "s_workers t = (s_workers s)(w := Charge k rest)" "log_calls t = log_calls s @ [(jb_token j, jb_amount j, jb_key j)]"
    by (metis next_job.simps(2))
  obtain calls' where calls': "reconcile_rows E psp draws' (k # rest) (s_db t) = (calls', d')"
      "calls = (jb_token j, jb_amount j, jb_key j) # calls'"
    using Cons.prems(2) draws t(2) by (auto simp: Let_def split: prod.splits)
  have "s_workers t w = Charge k rest" "length rest < length draws'" using t(3) Cons.prems(3) draws by simp_all
  moreover have "\<forall>x \<in> set (k # rest). psp (jb_token x) (jb_amount x) (jb_key x) = ans (jb_key x)
      \<or> \<not> definite (psp (jb_token x) (jb_amount x) (jb_key x))" using Cons.prems(4) by simp
  ultimately obtain u out' where u: "steps E ans t u" "s_db u = d'" "s_workers u = (s_workers t)(w := Done out')"
    "log_calls u = log_calls t @ calls'" using Cons.IH [OF _ calls'(1)] by blast
  have "s_workers u = (s_workers s)(w := Done out')" unfolding u(3) t(3) by (rule fun_upd_upd)
  moreover have "log_calls u = log_calls s @ calls" unfolding u(4) t(4) calls'(2) by simp
  ultimately show ?case using rtranclp_trans [OF t(1) u(1)] u(2) by blast
qed

lemma tick_run:
  assumes "s_workers s w = Idle" and "tick E psp draws locked now (s_db s) = (calls, d')"
    and "length (due_batch locked now (s_db s)) \<le> length draws"
    and "\<forall>a \<in> set (due_batch locked now (s_db s)).
          psp (pa_card_token a) (cents (pa_amount_cents a)) (pa_idempotency_key a) = ans (pa_idempotency_key a)
          \<or> \<not> definite (psp (pa_card_token a) (cents (pa_amount_cents a)) (pa_idempotency_key a))"
  shows "\<exists>t x. steps E ans s t \<and> s_db t = d' \<and> s_workers t = (s_workers s)(w := x) \<and> (x = Idle \<or> (\<exists>out. x = Done out))
     \<and> log_calls t = log_calls s @ calls"
proof -
  obtain rows d1 where lease: "lease_batch locked now (s_db s) = (rows, d1)" by (cases "lease_batch locked now (s_db s)") auto
  then have rows: "rows = map leased_row_of (due_batch locked now (s_db s))" by (simp add: lease_batch_def Let_def)
  let ?s1 = "at (s\<lparr>s_db := d1\<rparr>) w (start_batch rows)"
  have "step E ans s ?s1" by (rule step.lease [OF assms(1) lease])
  then have to1: "steps E ans s ?s1" by (rule r_into_rtranclp)
  have rec: "reconcile_rows E psp draws rows d1 = (calls, d')" using assms(2) lease by (simp add: tick_def)
  show ?thesis
  proof (cases rows)
    case Nil
    then have "calls = []" "d' = d1" using rec by auto
    then show ?thesis using to1 Nil by (intro exI [of _ ?s1] exI [of _ Idle]) simp
  next
    case (Cons j rest)
    have "s_workers ?s1 w = Charge j rest" using Cons by simp
    moreover have "reconcile_rows E psp draws (j # rest) (s_db ?s1) = (calls, d')" using rec Cons by simp
    moreover have "length rest < length draws" using assms(3) rows Cons by (metis Suc_le_lessD length_Cons length_map)
    moreover have "\<forall>x \<in> set (j # rest). psp (jb_token x) (jb_amount x) (jb_key x) = ans (jb_key x)
        \<or> \<not> definite (psp (jb_token x) (jb_amount x) (jb_key x))"
      using assms(4) unfolding Cons [symmetric] rows by (simp add: leased_row_of_def)
    ultimately obtain t out where "steps E ans ?s1 t" "s_db t = d'" "s_workers t = (s_workers ?s1)(w := Done out)"
      "log_calls t = log_calls ?s1 @ calls" using rows_run by blast
    then show ?thesis using rtranclp_trans [OF to1] by (intro exI [of _ t] exI [of _ "Done out"]) auto
  qed
qed

section \<open>A concrete run\<close>

text \<open>
  From the empty database: a customer is added, an invoice over 7.50 is created and finalized.
  Then a request pays it, with a provider that accepts every charge.
\<close>

definition sample_ids :: "nat \<Rightarrow> uuid" where
  "sample_ids k = (if k = 0 then 10 else if k = 1 then 11 else 12)"

definition sample_draft :: invoice where
  "sample_draft = created_row 100 10 1 5 (from_cents 750)"

definition sample_final :: invoice where
  "sample_final = sample_draft\<lparr>inv_state := Open, inv_version := 1, inv_finalized_at := Some 200, inv_updated_at := 200\<rparr>"

definition sample_yes :: "string \<Rightarrow> psp_result" where
  "sample_yes = (\<lambda>_. PspSucceeded ''ref'')"

definition sample_start :: sys where
  "sample_start = \<lparr>s_db = empty_db, s_workers = (\<lambda>_. Idle), s_log = []\<rparr>"

definition only_final :: "sys \<Rightarrow> bool" where
  "only_final s \<longleftrightarrow> db_invoices (s_db s) = [sample_final] \<and> db_attempts (s_db s) = [] \<and> db_keys (s_db s) = []
     \<and> (\<forall>e \<in> set (db_events (s_db s)). ev_id e = 12) \<and> s_workers s = (\<lambda>_. Idle) \<and> s_log s = []"

lemma sample_create:
  "\<exists>r d. invoice_create sample_ext 100 sample_ids 1 (sample_request 3 250) sample_shop = Inr (r, d)
     \<and> db_invoices d = [sample_draft] \<and> db_attempts d = [] \<and> db_keys d = [] \<and> (\<forall>e \<in> set (db_events d). ev_id e = 12)"
proof -
  let ?req = "sample_request 3 250"
  have items: "\<forall>li \<in> set (ci_line_items ?req). item_ok li" by (rule sample_item_ok) simp_all
  have len: "length (ci_line_items ?req) = 1" "ci_line_items ?req \<noteq> []" "request_total ?req = 750"
    by (simp_all add: sample_request_def request_total_def item_amount_def)
  have "sample_ids = (\<lambda>k. if k = 0 then 10 else if k = 1 then 11 else 12)" by (rule ext) (simp add: sample_ids_def)
  then have fresh: "fresh_ids sample_ids (length (ci_line_items ?req)) sample_shop" using sample_fresh len(1) by simp
  have "request_total ?req \<le> i64_max" by (simp add: len(3) i64_max_def)
  note tx = create_tx_ok [OF items fresh _ this refl refl refl, of sample_ext 100 1]
  have "validate_line_items ?req = Inr ()" using items len(2) by (simp add: validate_line_items_ok)
  moreover have "\<exists>c \<in> set (db_customers sample_shop). cu_id c = ci_customer_id ?req \<and> cu_business_id c = 1"
    by (simp add: sample_shop_def sample_request_def)
  ultimately have "\<exists>r. invoice_create sample_ext 100 sample_ids 1 ?req sample_shop = Inr r
      \<and> create_tx sample_ext 100 sample_ids 1 ?req sample_shop = Inr r" using tx len(1) by (simp add: invoice_create_Inr)
  then show ?thesis using tx len
    by (auto simp: sample_shop_def empty_db_def sample_draft_def sample_ids_def sample_request_def emitted_event_def)
qed

lemma only_invoice_moves:
  assumes "db_invoices d = [iv]" and "inv_id iv = i" and "inv_business_id iv = b" and "can_transition_to (inv_state iv) to"
    and "transition_row now to iv = Inr iv'"
  shows "check_transition b i to d = Inr iv" and "\<exists>r. apply_transition now b i (inv_state iv) to d = Inr (r, d\<lparr>db_invoices := [iv']\<rparr>)"
proof -
  show "check_transition b i to d = Inr iv"
    using assms(4) can_transition_irrefl by (auto simp: check_transition_def invoice_get_def fetch_optional_def assms(1-3))
  have "transition now b i (inv_state iv) to d = Inr (Some iv', d\<lparr>db_invoices := (db_invoices d)[0 := iv']\<rparr>)"
    by (rule transition_at [where iv = iv]) (use assms in simp_all)
  then show "\<exists>r. apply_transition now b i (inv_state iv) to d = Inr (r, d\<lparr>db_invoices := [iv']\<rparr>)"
    by (simp add: apply_transition_def assms(1))
qed

lemma sample_rows:
  "inv_id sample_draft = 10" "inv_business_id sample_draft = 1" "inv_state sample_draft = Draft"
  "transition_row 200 Open sample_draft = Inr sample_final"
  "inv_id sample_final = 10" "inv_business_id sample_final = 1" "inv_state sample_final = Open" "cents (inv_total_cents sample_final) = 750"
  by (simp_all add: sample_final_def sample_draft_def created_row_def transition_row_def pg_int4_def cents_def from_cents_def)

text \<open>An admin call of an idle worker, undisturbed.\<close>

lemma admin_run:
  assumes "s_workers s w = Idle" and "db_invoices (s_db s) = [iv]" and "inv_id iv = i" and "inv_business_id iv = b"
    and "can_transition_to (inv_state iv) to" and "to \<noteq> Paid" and "transition_row now to iv = Inr iv'"
  shows "steps E ans s (s\<lparr>s_db := (s_db s)\<lparr>db_invoices := [iv']\<rparr>\<rparr>)"
proof -
  note moves = only_invoice_moves [OF assms(2-5,7)]
  obtain r where r: "apply_transition now b i (inv_state iv) to (s_db s) = Inr (r, (s_db s)\<lparr>db_invoices := [iv']\<rparr>)"
    using moves(2) by blast
  have "to \<in> {Open, Void, Uncollectible}" using assms(5,6) no_edge_to_draft by (cases to) auto
  then have "step E ans s (at s w (Transition b i (inv_state iv) to))" by (rule step.admin_check [OF assms(1) _ moves(1)])
  moreover have "step E ans (at s w (Transition b i (inv_state iv) to))
      (at ((at s w (Transition b i (inv_state iv) to))\<lparr>s_db := (s_db s)\<lparr>db_invoices := [iv']\<rparr>\<rparr>) w Idle)"
    by (rule step.admin_apply [where now = now and r = r and b = b and i = i and frm = "inv_state iv" and to = to])
      (use r in simp_all)
  ultimately have "steps E ans s (at ((at s w (Transition b i (inv_state iv) to))\<lparr>s_db := (s_db s)\<lparr>db_invoices := [iv']\<rparr>\<rparr>) w Idle)"
    by (rule steps_snoc [OF r_into_rtranclp])
  moreover have "(s_workers s)(w := Idle) = s_workers s" using assms(1) by (simp add: fun_upd_idem)
  ultimately show ?thesis by simp
qed

lemma sample_reach: "\<exists>s. reach start (step sample_ext ans) s \<and> only_final s"
proof -
  let ?step = "step sample_ext ans"
  obtain r d where d: "invoice_create sample_ext 100 sample_ids 1 (sample_request 3 250) sample_shop = Inr (r, d)"
      "db_invoices d = [sample_draft]" "db_attempts d = []" "db_keys d = []" "\<forall>e \<in> set (db_events d). ev_id e = 12"
    using sample_create by blast
  let ?s1 = "sample_start\<lparr>s_db := sample_shop\<rparr>" and ?s2 = "sample_start\<lparr>s_db := d\<rparr>"
  have "reach start ?step sample_start" by (rule reach_start) (simp add: start_def sample_start_def empty_db_def)
  moreover have "?step sample_start ?s1"
    by (rule step.elsewhere) (simp add: same_core_def sample_start_def sample_shop_def)
  moreover have "?step ?s1 ?s2" using step.create [of sample_ext 100 sample_ids 1 "sample_request 3 250" ?s1 r d ans] d(1) by simp
  ultimately have "reach start ?step ?s2" by (blast intro: reach_step)
  moreover have "steps sample_ext ans ?s2 (?s2\<lparr>s_db := (s_db ?s2)\<lparr>db_invoices := [sample_final]\<rparr>\<rparr>)"
    by (rule admin_run [where w = 0 and iv = sample_draft and i = 10 and b = 1 and to = Open and now = 200])
      (use d(2) in \<open>simp_all add: sample_rows sample_start_def\<close>)
  ultimately have "reach start ?step (?s2\<lparr>s_db := (s_db ?s2)\<lparr>db_invoices := [sample_final]\<rparr>\<rparr>)" by (rule reach_steps)
  moreover have "only_final (?s2\<lparr>s_db := (s_db ?s2)\<lparr>db_invoices := [sample_final]\<rparr>\<rparr>)"
    using d(3-5) by (simp add: only_final_def sample_start_def)
  ultimately show ?thesis by blast
qed

lemma sample_final_payable:
  assumes "only_final s"
  shows "payable sample_draws 1 10 ''k'' sample_final (s_db s)"
  using assms by (auto simp: payable_def only_final_def sample_final_def sample_draft_def created_row_def sample_draws_def
      cents_def from_cents_def)

text \<open>The invoice paid by one undisturbed request.\<close>

definition sample_paid :: "sys \<Rightarrow> sys \<Rightarrow> bool" where
  "sample_paid s t \<longleftrightarrow> reach start (step sample_ext sample_yes) s \<and> only_final s \<and> steps sample_ext sample_yes s t
     \<and> s_db t = settled_db sample_ext sample_draws 1 10 ''k'' 750 ''tok_success'' (PspSucceeded ''ref'') 0 (s_db s)
     \<and> log_calls t = [(''tok_success'', 750, ''k'')]"

lemma sample_pays:
  assumes "only_final s"
  shows "pay sample_ext (\<lambda>_ _ _. PspSucceeded ''ref'') sample_draws 1 10 ''k'' sample_pay (s_db s)
      = (Inr (outcome_response sample_ext 10 21 750 (PspSucceeded ''ref'')),
         settled_db sample_ext sample_draws 1 10 ''k'' 750 ''tok_success'' (PspSucceeded ''ref'') 0 (s_db s),
         [(''tok_success'', 750, ''k'')])"
proof -
  have "db_invoices (s_db s) = [sample_final]" using assms by (simp add: only_final_def)
  then have "pay sample_ext (\<lambda>_ _ _. PspSucceeded ''ref'') sample_draws 1 10 ''k'' sample_pay (s_db s)
      = (Inr (outcome_response sample_ext 10 (pd_attempt_id sample_draws) 750 (PspSucceeded ''ref'')),
         settled_db sample_ext sample_draws 1 10 ''k'' 750 (pr_card_token sample_pay) (PspSucceeded ''ref'') 0 (s_db s),
         [(pr_card_token sample_pay, 750, ''k'')])"
    by (intro pay_payable [OF sample_final_payable [OF assms] sample_token]) (simp_all add: sample_rows)
  then show ?thesis by (simp add: sample_pay_def sample_draws_def)
qed

lemma sample_paid_run: "\<exists>s t. sample_paid s t"
proof -
  obtain s where s: "reach start (step sample_ext sample_yes) s" "only_final s" using sample_reach by blast
  have idle: "s_workers s 0 = Idle" and log: "s_log s = []" using s(2) by (simp_all add: only_final_def)
  from pay_run [OF idle sample_pays [OF s(2)], of sample_yes] obtain t where "steps sample_ext sample_yes s t"
      "s_db t = settled_db sample_ext sample_draws 1 10 ''k'' 750 ''tok_success'' (PspSucceeded ''ref'') 0 (s_db s)"
      "log_calls t = log_calls s @ [(''tok_success'', 750, ''k'')]" by (auto simp: sample_yes_def)
  then show ?thesis using s log by (intro exI [of _ s] exI [of _ t]) (simp add: sample_paid_def)
qed

lemma sample_paid_rows:
  assumes "sample_paid s t"
  shows "reach start (step sample_ext sample_yes) t" and "\<exists>iv. db_invoices (s_db t) = [iv] \<and> inv_id iv = 10 \<and> inv_state iv = Paid"
    and "\<exists>a. db_attempts (s_db t) = [a] \<and> pa_id a = 21 \<and> pa_status a = Succeeded \<and> pa_business_id a = 1 \<and> pa_invoice_id a = 10
      \<and> pa_idempotency_key a = ''k'' \<and> pa_card_token a = ''tok_success'' \<and> cents (pa_amount_cents a) = 750"
    and "\<exists>j r. s_log t = [(j, r)] \<and> jb_key j = ''k''"
proof -
  show "reach start (step sample_ext sample_yes) t"
    using reach_steps [of start "step sample_ext sample_yes" s t] assms by (simp add: sample_paid_def)
  show "\<exists>iv. db_invoices (s_db t) = [iv] \<and> inv_id iv = 10 \<and> inv_state iv = Paid"
    "\<exists>a. db_attempts (s_db t) = [a] \<and> pa_id a = 21 \<and> pa_status a = Succeeded \<and> pa_business_id a = 1 \<and> pa_invoice_id a = 10
      \<and> pa_idempotency_key a = ''k'' \<and> pa_card_token a = ''tok_success'' \<and> cents (pa_amount_cents a) = 750"
    using assms by (simp_all add: sample_paid_def only_final_def settled_db_def Let_def sample_rows new_attempt_row_def
        attempt_succeeded_def sample_draws_def cents_def from_cents_def)
  show "\<exists>j r. s_log t = [(j, r)] \<and> jb_key j = ''k''" using assms unfolding sample_paid_def by (cases "s_log t") auto
qed

text \<open>The same request, with the invoice voided while the provider is asked.\<close>

definition sample_voided :: invoice where
  "sample_voided = sample_final\<lparr>inv_state := Void, inv_version := 2, inv_voided_at := Some 300, inv_updated_at := 300\<rparr>"

lemma sample_voided_row: "transition_row 300 Void sample_final = Inr sample_voided"
  by (simp add: transition_row_def pg_int4_def sample_voided_def sample_final_def)

definition sample_job :: leased_row where
  "sample_job = \<lparr>jb_attempt = 21, jb_invoice = 10, jb_business = 1, jb_key = ''k'', jb_amount = 750, jb_token = ''tok_success''\<rparr>"

lemma sample_to_charge:
  assumes "only_final s"
  shows "\<exists>t. steps sample_ext ans s t \<and> s_workers t = (\<lambda>_. Idle)(0 := Charge sample_job []) \<and> s_log t = []
     \<and> s_db t = claimed_db sample_ext sample_draws 1 10 ''k'' 750 ''tok_success'' (s_db s)"
proof -
  have idle: "s_workers s = (\<lambda>_. Idle)" and inv: "db_invoices (s_db s) = [sample_final]" and log: "s_log s = []"
    using assms by (simp_all add: only_final_def)
  note pay = sample_final_payable [OF assms]
  have "invoice_get 1 10 (s_db s) = Some sample_final" by (simp add: invoice_get_def fetch_optional_def inv sample_rows)
  then have "pay_read 1 10 sample_pay (s_db s) = Inr (Open, 750)" using sample_token by (simp add: pay_read_def sample_rows)
  then have to2: "steps sample_ext ans s (at s 0 (PayClaim 1 10 ''k'' ''tok_success'' Open 750))"
    using run_to_claim [of s 0 1 10 sample_pay Open 750 sample_ext ans "''k''"] idle by (simp add: sample_pay_def)
  let ?s2 = "at s 0 (PayClaim 1 10 ''k'' ''tok_success'' Open 750)"
  let ?d = "claimed_db sample_ext sample_draws 1 10 ''k'' 750 ''tok_success'' (s_db s)"
  let ?s3 = "at (?s2\<lparr>s_db := ?d\<rparr>) 0 (Charge sample_job [])"
  have "pay_tx1 sample_ext (pd_claim_time sample_draws) (pd_key_id sample_draws) (pd_attempt_id sample_draws) 1 10 ''k'' ''tok_success''
      Open 750 (s_db s) = (Claimed (pd_attempt_id sample_draws), ?d)" by (rule pay_tx1_payable [OF pay]) (simp add: sample_rows)
  then have "step sample_ext ans ?s2 ?s3"
    using step.claim_ok [of ?s2 0 1 10 "''k''" "''tok_success''" Open 750 sample_ext "pd_claim_time sample_draws" "pd_key_id sample_draws"
        "pd_attempt_id sample_draws" "pd_attempt_id sample_draws" ?d ans]
    by (simp add: sample_job_def sample_draws_def)
  then have "steps sample_ext ans s ?s3" by (rule steps_snoc [OF to2])
  then show ?thesis by (intro exI [of _ ?s3]) (simp add: idle log)
qed

lemma sample_charging:
  assumes "only_final s"
  shows "\<exists>t. steps sample_ext sample_yes s t \<and> s_workers t = (\<lambda>_. Idle)(0 := Finalize sample_job (PspSucceeded ''ref'') [])
     \<and> s_db t = claimed_db sample_ext sample_draws 1 10 ''k'' 750 ''tok_success'' (s_db s)"
proof -
  obtain t where t: "steps sample_ext sample_yes s t" "s_workers t = (\<lambda>_. Idle)(0 := Charge sample_job [])"
      "s_db t = claimed_db sample_ext sample_draws 1 10 ''k'' 750 ''tok_success'' (s_db s)" using sample_to_charge [OF assms] by blast
  let ?u = "at (t\<lparr>s_log := s_log t @ [(sample_job, PspSucceeded ''ref'')]\<rparr>) 0 (Finalize sample_job (PspSucceeded ''ref'') [])"
  have "step sample_ext sample_yes t ?u" by (rule step.charge) (simp_all add: t(2) sample_yes_def)
  then have "steps sample_ext sample_yes s ?u" by (rule steps_snoc [OF t(1)])
  then show ?thesis by (intro exI [of _ ?u]) (simp add: t(2,3))
qed

lemma sample_finalize_voided:
  assumes "only_final s"
  shows "\<exists>d'. pay_finalize sample_ext 101 22 1 10 21 ''k'' 750 (PspSucceeded ''ref'')
       ((claimed_db sample_ext sample_draws 1 10 ''k'' 750 ''tok_success'' (s_db s))\<lparr>db_invoices := [sample_voided]\<rparr>)
     = Inr (outcome_response sample_ext 10 21 750 (PspSucceeded ''ref''), d')
     \<and> db_invoices d' = [sample_voided] \<and> (\<exists>a \<in> set (db_attempts d'). pa_invoice_id a = 10 \<and> pa_status a = Succeeded)
     \<and> (\<exists>e \<in> set (db_events d'). ev_event_type e = INVOICE_PAID \<and> ev_aggregate_id e = 10)"
proof -
  let ?d = "(claimed_db sample_ext sample_draws 1 10 ''k'' 750 ''tok_success'' (s_db s))\<lparr>db_invoices := [sample_voided]\<rparr>"
  have rows: "db_attempts ?d = [new_attempt_row 100 21 1 10 ''k'' 750 ''tok_success'']" "\<forall>e \<in> set (db_events ?d). ev_id e = 12"
    "db_invoices ?d = [sample_voided]" using assms by (simp_all add: claimed_db_def only_final_def sample_draws_def)
  have paid: "list_all2 (paid_rel 101 10) [sample_voided] [sample_voided]" by (simp add: paid_rel_def sample_voided_def)
  have "\<exists>d'. finalize_tx sample_ext 101 22 1 10 21 ''k'' 750 (PspSucceeded ''ref'') ?d
      = Inr (outcome_response sample_ext 10 21 750 (PspSucceeded ''ref''), d') \<and> db_invoices d' = [sample_voided]
     \<and> db_attempts d' = update_where (pending_attempt 21) (attempt_succeeded 101 ''ref'') (db_attempts ?d)
     \<and> db_events d' = db_events ?d @ [paid_event sample_ext 101 22 1 10 21 750 (PspSucceeded ''ref'') ?d]"
    unfolding finalize_tx_Succeeded rows(3) using rows(2) paid by (intro exI conjI) (assumption | rule refl | force)+
  then show ?thesis
    by (fastforce simp: pay_finalize_def rows(1) update_where_def pending_attempt_def new_attempt_row_def attempt_succeeded_def
        paid_event_def emitted_event_def)
qed

end
