(* ===== verification/Service.thy ===== *)
theory Service
  imports Background Runs
begin

text \<open>
  The running service as a run of the payment system. The process of \<open>Background\<close> starts on a
  migrated database and serves requests, wakes its background tasks and is shut down; if the
  provider answers by idempotency key, its database and the charges it sent are those of a
  reachable state of \<open>System\<close>. So every property of the concurrent payment system holds of the
  service.
\<close>

section \<open>Honest providers\<close>

text \<open>\<open>ans\<close> is the outcome the provider has for a key; a call reports it or something indefinite.\<close>

definition answers_by :: "(string \<Rightarrow> psp_result) \<Rightarrow> (string \<Rightarrow> i64 \<Rightarrow> string \<Rightarrow> psp_result) \<Rightarrow> bool" where
  "answers_by ans psp \<longleftrightarrow> (\<forall>token amount key. psp token amount key = ans key \<or> \<not> definite (psp token amount key))"

fun honest :: "(string \<Rightarrow> psp_result) \<Rightarrow> process_event \<Rightarrow> bool" where
  "honest ans (Request psp dr authorization req) \<longleftrightarrow> answers_by ans psp"
| "honest ans (ReconcilerWakes (Elapsed k)) \<longleftrightarrow> answers_by ans (rk_psp k) \<and> BATCH \<le> length (rk_draws k)"
| "honest ans _ \<longleftrightarrow> True"

section \<open>Lemmas: every event is a run\<close>

text \<open>A run between two moments at which no worker is busy, with the charges it sends.\<close>

definition quiet_run :: "ext \<Rightarrow> (string \<Rightarrow> psp_result) \<Rightarrow> db \<Rightarrow> db \<Rightarrow> charge_call list \<Rightarrow> bool" where
  "quiet_run E ans d d' calls \<longleftrightarrow>
     (\<forall>s. s_db s = d \<and> s_workers s = (\<lambda>_. Idle) \<longrightarrow>
        (\<exists>t. steps E ans s t \<and> s_db t = d' \<and> s_workers t = (\<lambda>_. Idle) \<and> log_calls t = log_calls s @ calls))"

lemma quiet_runD:
  assumes "quiet_run E ans (s_db s) d' calls" and "s_workers s = (\<lambda>_. Idle)"
  shows "\<exists>t. steps E ans s t \<and> s_db t = d' \<and> log_calls t = log_calls s @ calls"
  using assms unfolding quiet_run_def by blast

lemma quiet_run_refl [simp]: "quiet_run E ans d d []"
  unfolding quiet_run_def by auto

lemma quiet_run_trans:
  assumes "quiet_run E ans d d' xs" and "quiet_run E ans d' d'' ys"
  shows "quiet_run E ans d d'' (xs @ ys)"
  unfolding quiet_run_def
proof (intro allI impI)
  fix s :: sys assume s: "s_db s = d \<and> s_workers s = (\<lambda>_. Idle)"
  then obtain t where t: "steps E ans s t" "s_db t = d'" "s_workers t = (\<lambda>_. Idle)" "log_calls t = log_calls s @ xs"
    using assms(1) unfolding quiet_run_def by blast
  then obtain u where u: "steps E ans t u" "s_db u = d''" "s_workers u = (\<lambda>_. Idle)" "log_calls u = log_calls t @ ys"
    using assms(2) unfolding quiet_run_def by blast
  have "log_calls u = log_calls s @ xs @ ys" unfolding u(4) t(4) by simp
  with rtranclp_trans [OF t(1) u(1)] u(2,3)
  show "\<exists>t. steps E ans s t \<and> s_db t = d'' \<and> s_workers t = (\<lambda>_. Idle) \<and> log_calls t = log_calls s @ xs @ ys" by blast
qed

text \<open>The worker that did the work goes back to idle.\<close>

lemma quiet_run_worker:
  assumes "\<And>s. s_db s = d \<Longrightarrow> s_workers s = (\<lambda>_. Idle) \<Longrightarrow>
      \<exists>t x. steps E ans s t \<and> s_db t = d' \<and> s_workers t = (s_workers s)(w := x) \<and> log_calls t = log_calls s @ calls"
  shows "quiet_run E ans d d' calls"
  unfolding quiet_run_def
proof (intro allI impI)
  fix s :: sys assume s: "s_db s = d \<and> s_workers s = (\<lambda>_. Idle)"
  then obtain t x where t: "steps E ans s t" "s_db t = d'" "s_workers t = (s_workers s)(w := x)" "log_calls t = log_calls s @ calls"
    using assms by blast
  have "step E ans t (at t w Idle)" by (rule step.stop)
  from steps_snoc [OF t(1) this] t s
  show "\<exists>t. steps E ans s t \<and> s_db t = d' \<and> s_workers t = (\<lambda>_. Idle) \<and> log_calls t = log_calls s @ calls"
    by (intro exI [of _ "at t w Idle"]) auto
qed

lemma core_quiet:
  assumes "same_core d d'"
  shows "quiet_run E ans d d' []"
proof (rule quiet_run_worker [where w = 0])
  fix s :: sys assume "s_db s = d" "s_workers s = (\<lambda>_. Idle)"
  then have "step E ans s (s\<lparr>s_db := d'\<rparr>)" using assms by (intro step.elsewhere) simp
  then show "\<exists>t x. steps E ans s t \<and> s_db t = d' \<and> s_workers t = (s_workers s)(0 := x) \<and> log_calls t = log_calls s @ []"
    by (intro exI [of _ "s\<lparr>s_db := d'\<rparr>"] exI [of _ "s_workers s 0"]) auto
qed

lemma create_quiet:
  assumes "invoice_create E now new_ids b req d = Inr (r, d')"
  shows "quiet_run E ans d d' []"
proof (rule quiet_run_worker [where w = 0])
  fix s :: sys assume "s_db s = d" "s_workers s = (\<lambda>_. Idle)"
  then have "step E ans s (s\<lparr>s_db := d'\<rparr>)" using assms by (intro step.create) simp
  then show "\<exists>t x. steps E ans s t \<and> s_db t = d' \<and> s_workers t = (s_workers s)(0 := x) \<and> log_calls t = log_calls s @ []"
    by (intro exI [of _ "s\<lparr>s_db := d'\<rparr>"] exI [of _ "s_workers s 0"]) auto
qed

lemma transition_quiet:
  assumes "service_transition now b i to d = Inr (r, d')" and "to \<in> {Open, Void, Uncollectible}"
  shows "quiet_run E ans d d' []"
proof (rule quiet_run_worker [where w = 0])
  fix s :: sys assume s: "s_db s = d" "s_workers s = (\<lambda>_. Idle)"
  obtain cur where cur: "check_transition b i to d = Inr cur" "apply_transition now b i (inv_state cur) to d = Inr (r, d')"
    using assms(1) by (auto simp: service_transition_def result_simps)
  let ?s1 = "at s 0 (Transition b i (inv_state cur) to)"
  have "step E ans s ?s1" by (rule step.admin_check) (use s cur(1) assms(2) in simp_all)
  moreover have "step E ans ?s1 (at (?s1\<lparr>s_db := d'\<rparr>) 0 Idle)"
    by (rule step.admin_apply [where now = now and r = r and b = b and i = i and frm = "inv_state cur" and to = to]) (use s cur(2) in simp_all)
  ultimately have "steps E ans s (at (?s1\<lparr>s_db := d'\<rparr>) 0 Idle)" by (rule steps_snoc [OF r_into_rtranclp])
  then show "\<exists>t x. steps E ans s t \<and> s_db t = d' \<and> s_workers t = (s_workers s)(0 := x) \<and> log_calls t = log_calls s @ []"
    by (intro exI [of _ "at (?s1\<lparr>s_db := d'\<rparr>) 0 Idle"] exI [of _ Idle]) simp
qed

lemma pay_quiet:
  assumes "answers_by ans psp" and "pay E psp dr b i key req d = (r, d', calls)"
  shows "quiet_run E ans d d' calls"
proof (rule quiet_run_worker [where w = 0])
  fix s :: sys assume s: "s_db s = d" "s_workers s = (\<lambda>_. Idle)"
  have "\<exists>t. steps E ans s t \<and> s_db t = d' \<and> s_workers t = (s_workers s)(0 := Done r) \<and> log_calls t = log_calls s @ calls"
    by (rule pay_run) (use assms s in \<open>auto simp: answers_by_def\<close>)
  then show "\<exists>t x. steps E ans s t \<and> s_db t = d' \<and> s_workers t = (s_workers s)(0 := x) \<and> log_calls t = log_calls s @ calls" by blast
qed

lemma tick_quiet:
  assumes "answers_by ans psp" and "BATCH \<le> length draws" and "tick E psp draws locked now d = (calls, d')"
  shows "quiet_run E ans d d' calls"
proof (rule quiet_run_worker [where w = 0])
  fix s :: sys assume s: "s_db s = d" "s_workers s = (\<lambda>_. Idle)"
  have "\<exists>t x. steps E ans s t \<and> s_db t = d' \<and> s_workers t = (s_workers s)(0 := x) \<and> (x = Idle \<or> (\<exists>out. x = Done out))
      \<and> log_calls t = log_calls s @ calls"
  proof (rule tick_run)
    show "length (due_batch locked now (s_db s)) \<le> length draws" using length_due_batch assms(2) by (rule order_trans)
    show "\<forall>a \<in> set (due_batch locked now (s_db s)).
          psp (pa_card_token a) (cents (pa_amount_cents a)) (pa_idempotency_key a) = ans (pa_idempotency_key a)
          \<or> \<not> definite (psp (pa_card_token a) (cents (pa_amount_cents a)) (pa_idempotency_key a))"
      using assms(1) by (simp add: answers_by_def)
  qed (use assms(3) s in simp_all)
  then show "\<exists>t x. steps E ans s t \<and> s_db t = d' \<and> s_workers t = (s_workers s)(0 := x) \<and> log_calls t = log_calls s @ calls" by blast
qed

text \<open>What the handlers call, so whole requests.\<close>

interpretation quiet: requests E "answers_by ans" "\<lambda>d calls d'. quiet_run E ans d d' calls" for E ans
  by unfold_locales
    (auto intro: create_quiet transition_quiet pay_quiet core_quiet
      simp: api_key_insert_def api_key_revoke_def customer_insert_Inr register_endpoint_def redeliver_def Let_def same_core_def
      split: if_splits)

section \<open>Lemmas: the process\<close>

lemma step_quiet:
  assumes "honest ans e"
  shows "\<exists>calls. quiet_run E ans (pr_db p) (pr_db (process_step E e p)) calls
     \<and> pr_calls (process_step E e p) = pr_calls p @ calls"
proof (cases e)
  case (Request psp dr authorization req)
  obtain r d' calls where run: "serve_request E psp dr authorization req (pr_db p) = ((r, d'), calls)" by (metis prod.collapse)
  then have "quiet_run E ans (pr_db p) d' calls" using quiet.serve_does [OF _ run] assms Request by simp
  with run Request show ?thesis by (intro exI [of _ calls]) simp
next
  case (DispatcherWakes arm)
  have "same_core d (dispatcher_tick E dp k d)" for dp k d
    using dispatcher_tick_frame [of E dp k d] by (auto simp: same_core_def)
  then show ?thesis
    using core_quiet DispatcherWakes
    by (intro exI [of _ "[]"]) (auto simp: dispatcher_iteration_def split: option.splits arm.splits)
next
  case (ReconcilerWakes arm)
  show ?thesis
  proof (cases "pr_reconciler p = None \<or> arm = Cancelled")
    case True
    then show ?thesis using ReconcilerWakes by (intro exI [of _ "[]"]) (auto simp: reconciler_iteration_def split: option.splits)
  next
    case False
    then obtain st k where st: "pr_reconciler p = Some st" "arm = Elapsed k" by (cases arm) auto
    obtain calls d' where run: "tick E (rk_psp k) (rk_draws k) (rk_locked k) (rk_at k) (pr_db p) = (calls, d')" by fastforce
    then have "quiet_run E ans (pr_db p) d' calls" using tick_quiet [OF _ _ run] assms ReconcilerWakes st(2) by simp
    with run st ReconcilerWakes show ?thesis by (intro exI [of _ calls]) (simp add: reconciler_iteration_def)
  qed
next
  case (TouchKey now pre)
  have "same_core (pr_db p) (touch_last_used now pre (pr_db p))" by (simp add: touch_last_used_def same_core_def)
  then show ?thesis using core_quiet TouchKey by (intro exI [of _ "[]"]) simp
qed (simp add: shutdown_signal_def exI [of _ "[]"])

lemma process_quiet:
  "\<forall>e \<in> set es. honest ans e \<Longrightarrow> \<exists>calls. quiet_run E ans (pr_db p) (pr_db (process_run E es p)) calls
     \<and> pr_calls (process_run E es p) = pr_calls p @ calls"
proof (induction es arbitrary: p)
  case (Cons e es)
  let ?p = "process_step E e p"
  obtain xs where xs: "quiet_run E ans (pr_db p) (pr_db ?p) xs" "pr_calls ?p = pr_calls p @ xs"
    using step_quiet [of ans e E p] Cons.prems by auto
  obtain ys where ys: "quiet_run E ans (pr_db ?p) (pr_db (process_run E es ?p)) ys"
      "pr_calls (process_run E es ?p) = pr_calls ?p @ ys"
    using Cons.IH [of ?p] Cons.prems by auto
  from quiet_run_trans [OF xs(1) ys(1)] xs(2) ys(2) show ?case
    by (intro exI [of _ "xs @ ys"]) (simp add: process_run_def)
qed (auto simp: process_run_def)

section \<open>Properties\<close>



end
