(* ===== verification/Schema.thy ===== *)
theory Schema
  imports Background "HOL-Library.Sublist"
begin

text \<open>
  The database the migrations create and what it promises. \<^verbatim>\<open>migrations\<close> declares primary keys, unique
  indexes, foreign keys and CHECK constraints and seeds one business with one API key. The
  statements of the model raise unique and CHECK violations, but no foreign-key violation: this
  theory shows that none can happen, whatever transactions run in whatever order, and that the
  tables stay consistent beyond what the schema declares.
\<close>

section \<open>Seed data\<close>

text \<open>\<^verbatim>\<open>0002_businesses.sql\<close> and \<^verbatim>\<open>0003_api_keys.sql\<close>. No statement of the service writes a business, so businesses are a set of ids.\<close>

definition seed_business :: uuid where
  "seed_business = 0x018f0000000070008000000000000001"

definition seed_key_hash :: "u8 list" where
  "seed_key_hash =
     [0x91, 0x21, 0x44, 0x1a, 0x46, 0x78, 0x4f, 0x87, 0x9f, 0x47, 0x38, 0x9c, 0x73, 0xbd, 0x47, 0xbc,
      0x5a, 0x48, 0x8c, 0x32, 0x3b, 0x9f, 0x36, 0x54, 0x60, 0xb3, 0x41, 0x05, 0x43, 0x4d, 0xce, 0x91]"

definition seed_api_key :: "timestamp \<Rightarrow> api_key_row" where
  "seed_api_key now =
     \<lparr>ak_id = 0x018f0000000070008000000000000002, ak_business_id = seed_business, ak_name = Some ''seed-key'',
      ak_prefix = ''dpk_test_seedkey0'', ak_key_hash = seed_key_hash, ak_last_four = ''0000'', ak_created_at = now,
      ak_last_used_at = None, ak_revoked_at = None, ak_expires_at = None\<rparr>"

definition migrated_db :: "timestamp \<Rightarrow> db" where
  "migrated_db now = empty_db\<lparr>db_api_keys := [seed_api_key now]\<rparr>"

text \<open>
  \<^verbatim>\<open>db.rs\<close>: \<open>pg\<close> connects to a URL and finds the store there, none when it has never been migrated.
  The migrator applies each migration once, so a store that has been migrated is left as it is.
\<close>

definition migrate :: "timestamp \<Rightarrow> db option \<Rightarrow> db" where
  "migrate now store = (case store of None \<Rightarrow> migrated_db now | Some d \<Rightarrow> d)"

definition connect_and_migrate :: "(string \<Rightarrow> (string, db option) result) \<Rightarrow> timestamp \<Rightarrow> string \<Rightarrow> (string, db) result" where
  "connect_and_migrate pg now url = res_bind (pg url) (\<lambda>store. Inr (migrate now store))"

section \<open>Declared constraints\<close>

definition primary_keys :: "db \<Rightarrow> bool" where
  "primary_keys d \<longleftrightarrow> distinct (map ak_id (db_api_keys d)) \<and> distinct (map cu_id (db_customers d))
     \<and> distinct (map inv_id (db_invoices d)) \<and> distinct (map li_id (db_line_items d))
     \<and> distinct (map pa_id (db_attempts d)) \<and> distinct (map ik_id (db_keys d))
     \<and> distinct (map ep_id (db_endpoints d)) \<and> distinct (map ev_id (db_events d)) \<and> distinct (map wd_id (db_deliveries d))"

text \<open>The unique indexes; those on \<^verbatim>\<open>customers\<close> and \<^verbatim>\<open>payment_attempts\<close> are partial.\<close>

definition uq_api_keys_prefix :: "db \<Rightarrow> bool" where
  "uq_api_keys_prefix d \<longleftrightarrow> distinct (map ak_prefix (db_api_keys d))"

definition uq_customers_business_email :: "ext \<Rightarrow> db \<Rightarrow> bool" where
  "uq_customers_business_email E d \<longleftrightarrow>
     distinct (map (\<lambda>c. (cu_business_id c, map_option (citext_lower E) (cu_email c)))
       (filter (\<lambda>c. cu_email c \<noteq> None) (db_customers d)))"

definition uq_active_attempt_per_invoice :: "db \<Rightarrow> bool" where
  "uq_active_attempt_per_invoice d \<longleftrightarrow>
     distinct (map pa_invoice_id (filter (\<lambda>a. pa_status a \<in> {Pending, Succeeded}) (db_attempts d)))"

definition uq_idempotency_business_key :: "db \<Rightarrow> bool" where
  "uq_idempotency_business_key d \<longleftrightarrow> distinct (map (\<lambda>k. (ik_business_id k, ik_idempotency_key k)) (db_keys d))"

definition uq_delivery_event_endpoint :: "db \<Rightarrow> bool" where
  "uq_delivery_event_endpoint d \<longleftrightarrow> distinct (map (\<lambda>w. (wd_event_id w, wd_endpoint_id w)) (db_deliveries d))"

text \<open>The \<^verbatim>\<open>REFERENCES\<close> clauses, \<open>B\<close> being the ids of \<^verbatim>\<open>businesses\<close>.\<close>

definition business_keys :: "uuid set \<Rightarrow> db \<Rightarrow> bool" where
  "business_keys B d \<longleftrightarrow> ak_business_id ` set (db_api_keys d) \<subseteq> B \<and> cu_business_id ` set (db_customers d) \<subseteq> B
     \<and> inv_business_id ` set (db_invoices d) \<subseteq> B \<and> pa_business_id ` set (db_attempts d) \<subseteq> B
     \<and> ik_business_id ` set (db_keys d) \<subseteq> B \<and> ep_business_id ` set (db_endpoints d) \<subseteq> B
     \<and> ev_business_id ` set (db_events d) \<subseteq> B \<and> wd_business_id ` set (db_deliveries d) \<subseteq> B"

definition foreign_keys :: "uuid set \<Rightarrow> db \<Rightarrow> bool" where
  "foreign_keys B d \<longleftrightarrow> business_keys B d
     \<and> inv_customer_id ` set (db_invoices d) \<subseteq> cu_id ` set (db_customers d)
     \<and> li_invoice_id ` set (db_line_items d) \<subseteq> inv_id ` set (db_invoices d)
     \<and> pa_invoice_id ` set (db_attempts d) \<subseteq> inv_id ` set (db_invoices d)
     \<and> (\<forall>k \<in> set (db_keys d). case ik_attempt_id k of None \<Rightarrow> True | Some a \<Rightarrow> a \<in> pa_id ` set (db_attempts d))
     \<and> wd_event_id ` set (db_deliveries d) \<subseteq> ev_id ` set (db_events d)
     \<and> wd_endpoint_id ` set (db_deliveries d) \<subseteq> ep_id ` set (db_endpoints d)"

text \<open>The CHECK constraints and the generated column.\<close>

definition invoice_checks :: "invoice \<Rightarrow> bool" where
  "invoice_checks iv \<longleftrightarrow> inv_currency iv = ''USD'' \<and> 0 \<le> sint (cents (inv_total_cents iv))"

definition line_item_checks :: "line_item \<Rightarrow> bool" where
  "line_item_checks li \<longleftrightarrow> 0 < sint (li_quantity li) \<and> 0 \<le> sint (cents (li_unit_amount_cents li))
     \<and> sint (cents (li_amount_cents li)) = sint (li_quantity li) * sint (cents (li_unit_amount_cents li))"

definition attempt_checks :: "payment_attempt \<Rightarrow> bool" where
  "attempt_checks a \<longleftrightarrow> 0 \<le> sint (cents (pa_amount_cents a)) \<and> pa_currency a = ''USD''"

definition row_checks :: "db \<Rightarrow> bool" where
  "row_checks d \<longleftrightarrow> (\<forall>iv \<in> set (db_invoices d). invoice_checks iv) \<and> (\<forall>li \<in> set (db_line_items d). line_item_checks li)
     \<and> (\<forall>a \<in> set (db_attempts d). attempt_checks a)
     \<and> (\<forall>ep \<in> set (db_endpoints d). ep_status ep \<in> {''active'', ''disabled''})"

definition status_checks :: "db \<Rightarrow> bool" where
  "status_checks d \<longleftrightarrow> (\<forall>k \<in> set (db_keys d). ik_status k \<in> {''in_progress'', ''completed''})
     \<and> (\<forall>w \<in> set (db_deliveries d). wd_status w \<in> {''pending'', ''in_flight'', ''succeeded'', ''failed'', ''dead''})"

definition schema_ok :: "ext \<Rightarrow> uuid set \<Rightarrow> db \<Rightarrow> bool" where
  "schema_ok E B d \<longleftrightarrow> primary_keys d \<and> uq_api_keys_prefix d \<and> uq_customers_business_email E d
     \<and> uq_active_attempt_per_invoice d \<and> uq_idempotency_business_key d \<and> uq_delivery_event_endpoint d
     \<and> foreign_keys B d \<and> row_checks d \<and> status_checks d"

section \<open>What the schema does not declare\<close>

text \<open>
  Parent and child belong to one business; an invoice total is the sum of its line items and an
  attempt is for that total; a key names the attempt made under it; every event is about an
  invoice of its business, every delivery joins an event to an endpoint that wants it.
\<close>

definition books_ok :: "db \<Rightarrow> bool" where
  "books_ok d \<longleftrightarrow>
     (\<forall>iv \<in> set (db_invoices d). \<exists>c \<in> set (db_customers d). cu_id c = inv_customer_id iv \<and> cu_business_id c = inv_business_id iv)
     \<and> (\<forall>iv \<in> set (db_invoices d). sint (cents (inv_total_cents iv)) = line_sum (inv_id iv) d)
     \<and> (\<forall>a \<in> set (db_attempts d). \<exists>iv \<in> set (db_invoices d). inv_id iv = pa_invoice_id a
          \<and> inv_business_id iv = pa_business_id a \<and> inv_total_cents iv = pa_amount_cents a)
     \<and> (\<forall>k \<in> set (db_keys d). \<exists>a \<in> set (db_attempts d). ik_attempt_id k = Some (pa_id a)
          \<and> ik_business_id k = pa_business_id a \<and> ik_idempotency_key k = pa_idempotency_key a)
     \<and> (\<forall>e \<in> set (db_events d). \<exists>iv \<in> set (db_invoices d). inv_id iv = ev_aggregate_id e \<and> inv_business_id iv = ev_business_id e)
     \<and> (\<forall>w \<in> set (db_deliveries d). \<exists>e \<in> set (db_events d). \<exists>ep \<in> set (db_endpoints d). delivery_for w e ep)
     \<and> outbox_ok d"

section \<open>The frozen columns\<close>

text \<open>
  What no UPDATE of the service touches. \<open>frozen\<close> resets every other column, so two databases with
  the same frozen tables agree on ids, references, amounts, secrets, payloads and hashes.
\<close>

definition freeze_api_key :: "api_key_row \<Rightarrow> api_key_row" where
  "freeze_api_key k = k\<lparr>ak_last_used_at := None, ak_revoked_at := None\<rparr>"

definition freeze_invoice :: "invoice \<Rightarrow> invoice" where
  "freeze_invoice iv = iv\<lparr>inv_state := Draft, inv_finalized_at := None, inv_paid_at := None, inv_voided_at := None,
     inv_version := 0, inv_updated_at := 0\<rparr>"

definition freeze_attempt :: "payment_attempt \<Rightarrow> payment_attempt" where
  "freeze_attempt a = a\<lparr>pa_status := Pending, pa_psp_ref := None, pa_failure_code := None, pa_last_error := None,
     pa_attempt_count := 0, pa_next_poll_at := None, pa_updated_at := 0\<rparr>"

definition freeze_key :: "idempotency_key_row \<Rightarrow> idempotency_key_row" where
  "freeze_key k = k\<lparr>ik_status := '''', ik_response_status := None, ik_response_body := None\<rparr>"

definition freeze_delivery :: "webhook_delivery \<Rightarrow> webhook_delivery" where
  "freeze_delivery w = w\<lparr>wd_status := '''', wd_attempts := 0, wd_next_attempt_at := 0, wd_locked_until := None,
     wd_last_status_code := None, wd_last_error := None, wd_last_attempt_at := None, wd_updated_at := 0\<rparr>"

definition frozen :: "db \<Rightarrow> db" where
  "frozen d = d\<lparr>db_api_keys := map freeze_api_key (db_api_keys d), db_invoices := map freeze_invoice (db_invoices d),
     db_attempts := map freeze_attempt (db_attempts d), db_keys := map freeze_key (db_keys d),
     db_deliveries := map freeze_delivery (db_deliveries d)\<rparr>"

text \<open>Tables grow at the end and keep the frozen columns of what they had.\<close>

definition appended :: "db \<Rightarrow> db \<Rightarrow> bool" where
  "appended d d' \<longleftrightarrow>
     prefix (db_api_keys (frozen d)) (db_api_keys (frozen d')) \<and> prefix (db_customers d) (db_customers d')
     \<and> prefix (db_invoices (frozen d)) (db_invoices (frozen d')) \<and> prefix (db_line_items d) (db_line_items d')
     \<and> prefix (db_attempts (frozen d)) (db_attempts (frozen d')) \<and> prefix (db_keys (frozen d)) (db_keys (frozen d'))
     \<and> prefix (db_endpoints d) (db_endpoints d') \<and> prefix (db_events d) (db_events d')
     \<and> prefix (db_deliveries (frozen d)) (db_deliveries (frozen d'))"

section \<open>Lemmas: the frozen columns\<close>

lemma freeze_fields [simp]:
  "ak_id (freeze_api_key k) = ak_id k" "ak_business_id (freeze_api_key k) = ak_business_id k" "ak_prefix (freeze_api_key k) = ak_prefix k"
  "inv_id (freeze_invoice iv) = inv_id iv" "inv_business_id (freeze_invoice iv) = inv_business_id iv"
  "inv_customer_id (freeze_invoice iv) = inv_customer_id iv" "inv_total_cents (freeze_invoice iv) = inv_total_cents iv"
  "inv_currency (freeze_invoice iv) = inv_currency iv"
  "pa_id (freeze_attempt a) = pa_id a" "pa_invoice_id (freeze_attempt a) = pa_invoice_id a"
  "pa_business_id (freeze_attempt a) = pa_business_id a" "pa_idempotency_key (freeze_attempt a) = pa_idempotency_key a"
  "pa_amount_cents (freeze_attempt a) = pa_amount_cents a" "pa_currency (freeze_attempt a) = pa_currency a"
  "ik_id (freeze_key r) = ik_id r" "ik_business_id (freeze_key r) = ik_business_id r"
  "ik_idempotency_key (freeze_key r) = ik_idempotency_key r" "ik_attempt_id (freeze_key r) = ik_attempt_id r"
  "wd_id (freeze_delivery w) = wd_id w" "wd_event_id (freeze_delivery w) = wd_event_id w"
  "wd_endpoint_id (freeze_delivery w) = wd_endpoint_id w" "wd_business_id (freeze_delivery w) = wd_business_id w"
  by (simp_all add: freeze_api_key_def freeze_invoice_def freeze_attempt_def freeze_key_def freeze_delivery_def)

lemma frozen_tables [simp]:
  "db_api_keys (frozen d) = map freeze_api_key (db_api_keys d)" "db_customers (frozen d) = db_customers d"
  "db_invoices (frozen d) = map freeze_invoice (db_invoices d)" "db_line_items (frozen d) = db_line_items d"
  "db_attempts (frozen d) = map freeze_attempt (db_attempts d)" "db_keys (frozen d) = map freeze_key (db_keys d)"
  "db_endpoints (frozen d) = db_endpoints d" "db_events (frozen d) = db_events d" "db_event_seq (frozen d) = db_event_seq d"
  "db_deliveries (frozen d) = map freeze_delivery (db_deliveries d)"
  by (simp_all add: frozen_def)

text \<open>The columns an UPDATE may set are exactly those \<open>frozen\<close> resets.\<close>

interpretation touch_frozen: column_frame freeze_api_key "\<lambda>k. k\<lparr>ak_last_used_at := Some now\<rparr>"
  by unfold_locales (simp add: freeze_api_key_def)

interpretation revoke_frozen: column_frame freeze_api_key "\<lambda>k. k\<lparr>ak_revoked_at := Some now\<rparr>"
  by unfold_locales (simp add: freeze_api_key_def)

interpretation lease_frozen: column_frame freeze_attempt "lease_row now"
  by unfold_locales (simp add: freeze_attempt_def lease_row_def)

interpretation claim_frozen: column_frame freeze_delivery "claim_row now"
  by unfold_locales (simp add: freeze_delivery_def claim_row_def)

interpretation outcome_frozen: column_frame freeze_delivery "outcome_row post E m draw wk"
  by unfold_locales (simp add: freeze_delivery_def outcome_row_def Let_def split_beta)

interpretation requeue_frozen: column_frame freeze_delivery "\<lambda>w. w\<lparr>wd_status := ''pending'', wd_attempts := 0,
    wd_next_attempt_at := now, wd_locked_until := None, wd_last_error := None, wd_updated_at := now\<rparr>"
  by unfold_locales (simp add: freeze_delivery_def)

lemma frozen_invoice_moves:
  "transition_row now to iv = Inr iv' \<Longrightarrow> freeze_invoice iv' = freeze_invoice iv"
  "invoice_rel now res i iv iv' \<Longrightarrow> freeze_invoice iv' = freeze_invoice iv"
  by (auto simp: transition_row_def result_simps freeze_invoice_def)
    (cases res; auto simp: paid_rel_def pay_invoice_row_def result_simps split: if_splits)

lemma frozen_attempt_moves: "attempt_rel now res aid a a' \<Longrightarrow> freeze_attempt a' = freeze_attempt a"
  by (cases res) (auto simp: attempt_succeeded_def attempt_failed_def unknown_rel_def attempt_unknown_def freeze_attempt_def
      result_simps split: if_splits)

lemma frozen_key_moves: "key_rel E res out b key k k' \<Longrightarrow> freeze_key k' = freeze_key k"
  by (simp add: key_rel_def completed_row_def freeze_key_def)

section \<open>Lemmas: transactions on the frozen columns\<close>

text \<open>Most transactions leave them alone.\<close>

lemma frozen_updates:
  "frozen (touch_last_used now pre d) = frozen d" "frozen (snd (api_key_revoke now b i d)) = frozen d"
  "frozen (snd (lease_batch locked now d)) = frozen d" "redeliver now b i d = Inr d' \<Longrightarrow> frozen d' = frozen d"
  "claim_batch locked now d = Inr (ids, d') \<Longrightarrow> frozen d' = frozen d" "frozen (send_one E post m ts now jitter wk d) = frozen d"
  by (auto simp: frozen_def touch_last_used_def api_key_revoke_def lease_batch_def redeliver_def send_one_row Let_def
      touch_frozen.map_update_where revoke_frozen.map_update_where lease_frozen.map_update_where requeue_frozen.map_update_where
      outcome_frozen.map_update_where claim_frozen.map_update_where split: if_splits dest!: claim_batch_Inr)

lemma frozen_transition: "transition now b i frm to d = Inr (iv', d') \<Longrightarrow> frozen d' = frozen d"
proof (cases iv')
  case (Some x)
  assume tr: "transition now b i frm to d = Inr (iv', d')"
  from transition_Inr [OF tr [unfolded Some]] obtain t where d': "d' = d\<lparr>db_invoices := t\<rparr>"
    and rows: "list_all2 (\<lambda>r r'. if inv_id r = i \<and> inv_business_id r = b \<and> inv_state r = frm
        then transition_row now to r = Inr r' else r' = r) (db_invoices d) t" by blast
  have "map freeze_invoice t = map freeze_invoice (db_invoices d)"
    by (rule list_all2_map_eq [OF rows]) (auto dest: frozen_invoice_moves split: if_splits)
  then show ?thesis by (simp add: d' frozen_def)
qed (simp add: transition_None)

lemma frozen_finalize:
  assumes "finalize_tx E now eid b i aid key amt res d = Inr (out, d')"
  shows "frozen d' = (if definite res then (frozen d)\<lparr>db_events := db_events d @ [paid_event E now eid b i aid amt res d],
    db_event_seq := db_event_seq d + 1\<rparr> else frozen d)"
proof -
  note rows = finalize_tx_rows [OF assms]
  have "map freeze_attempt (db_attempts d') = map freeze_attempt (db_attempts d)"
    by (rule list_all2_map_eq [OF rows(2)]) (rule frozen_attempt_moves)
  moreover have "map freeze_invoice (db_invoices d') = map freeze_invoice (db_invoices d)"
    by (rule list_all2_map_eq [OF rows(3)]) (rule frozen_invoice_moves)
  moreover have "map freeze_key (db_keys d') = map freeze_key (db_keys d)"
    by (rule list_all2_map_eq [OF rows(4)]) (rule frozen_key_moves)
  ultimately show ?thesis using rows(5,7,8) finalize_tx_other_tables [OF assms] by (simp add: frozen_def)
qed

section \<open>Lemmas: the invariant\<close>

text \<open>The part of the constraints that is about frozen columns only.\<close>

definition static_ok :: "ext \<Rightarrow> uuid set \<Rightarrow> db \<Rightarrow> bool" where
  "static_ok E B d \<longleftrightarrow> primary_keys d \<and> uq_api_keys_prefix d \<and> uq_customers_business_email E d
     \<and> uq_idempotency_business_key d \<and> uq_delivery_event_endpoint d \<and> business_keys B d
     \<and> li_invoice_id ` set (db_line_items d) \<subseteq> inv_id ` set (db_invoices d) \<and> row_checks d \<and> books_ok d"

definition data_ok :: "ext \<Rightarrow> uuid set \<Rightarrow> db \<Rightarrow> bool" where
  "data_ok E B d \<longleftrightarrow> static_ok E B d \<and> uq_active_attempt_per_invoice d \<and> status_checks d"

lemmas static_defs = primary_keys_def uq_api_keys_prefix_def uq_customers_business_email_def uq_idempotency_business_key_def
  uq_delivery_event_endpoint_def business_keys_def row_checks_def books_ok_def

lemma static_frozen: "static_ok E B (frozen d) \<longleftrightarrow> static_ok E B d"
proof -
  have ls: "line_sum i (frozen d) = line_sum i d" for i by (simp add: line_sum_def)
  have ob: "outbox_ok (frozen d) = outbox_ok d" by (simp add: outbox_ok_def)
  have df: "delivery_for (freeze_delivery w) e ep = delivery_for w e ep" for w e ep by (simp add: delivery_for_def)
  have ck: "invoice_checks (freeze_invoice iv) = invoice_checks iv" "attempt_checks (freeze_attempt a) = attempt_checks a" for iv a
    by (simp_all add: invoice_checks_def attempt_checks_def)
  show ?thesis by (simp add: static_ok_def static_defs ls ob df ck comp_def image_image)
qed

lemma static_eq: "frozen d' = frozen d \<Longrightarrow> static_ok E B d \<Longrightarrow> static_ok E B d'"
  using static_frozen by metis

lemma references: "\<forall>x \<in> A. \<exists>y \<in> C. g y = f x \<Longrightarrow> f ` A \<subseteq> g ` C"
  by (metis image_iff image_subsetI)

lemma books_references:
  assumes "books_ok d"
  shows "inv_customer_id ` set (db_invoices d) \<subseteq> cu_id ` set (db_customers d)"
    and "pa_invoice_id ` set (db_attempts d) \<subseteq> inv_id ` set (db_invoices d)"
    and "\<forall>k \<in> set (db_keys d). \<exists>a \<in> set (db_attempts d). ik_attempt_id k = Some (pa_id a)"
    and "wd_event_id ` set (db_deliveries d) \<subseteq> ev_id ` set (db_events d)"
    and "wd_endpoint_id ` set (db_deliveries d) \<subseteq> ep_id ` set (db_endpoints d)"
proof -
  note books = assms [unfolded books_ok_def]
  from books show "inv_customer_id ` set (db_invoices d) \<subseteq> cu_id ` set (db_customers d)" by (intro references) blast
  from books show "pa_invoice_id ` set (db_attempts d) \<subseteq> inv_id ` set (db_invoices d)" by (intro references) blast
  from books show "\<forall>k \<in> set (db_keys d). \<exists>a \<in> set (db_attempts d). ik_attempt_id k = Some (pa_id a)" by blast
  have "\<forall>w \<in> set (db_deliveries d). \<exists>e \<in> set (db_events d). \<exists>ep \<in> set (db_endpoints d). delivery_for w e ep" using books by blast
  then show "wd_event_id ` set (db_deliveries d) \<subseteq> ev_id ` set (db_events d)"
    "wd_endpoint_id ` set (db_deliveries d) \<subseteq> ep_id ` set (db_endpoints d)"
    unfolding delivery_for_def by (intro references; force)+
qed

lemma data_ok_schema:
  assumes "data_ok E B d"
  shows "schema_ok E B d"
proof -
  have st: "static_ok E B d" using assms by (simp add: data_ok_def)
  then have "books_ok d" by (simp add: static_ok_def)
  from books_references [OF this] st have "foreign_keys B d"
    by (fastforce simp: foreign_keys_def static_ok_def)
  then show ?thesis using assms by (simp add: schema_ok_def data_ok_def static_ok_def)
qed

section \<open>Lemmas: inserts keep the invariant\<close>

lemma line_sum_frame [simp]:
  "line_sum i (d\<lparr>db_api_keys := a\<rparr>) = line_sum i d" "line_sum i (d\<lparr>db_customers := c\<rparr>) = line_sum i d"
  "line_sum i (d\<lparr>db_attempts := p\<rparr>) = line_sum i d" "line_sum i (d\<lparr>db_keys := k\<rparr>) = line_sum i d"
  "line_sum i (d\<lparr>db_endpoints := q\<rparr>) = line_sum i d" "line_sum i (d\<lparr>db_events := e\<rparr>) = line_sum i d"
  "line_sum i (d\<lparr>db_event_seq := n\<rparr>) = line_sum i d" "line_sum i (d\<lparr>db_deliveries := w\<rparr>) = line_sum i d"
  "line_sum i (d\<lparr>db_invoices := v\<rparr>) = line_sum i d"
  by (simp_all add: line_sum_def)

lemma outbox_frame [simp]:
  "outbox_ok (d\<lparr>db_api_keys := a\<rparr>) = outbox_ok d" "outbox_ok (d\<lparr>db_customers := c\<rparr>) = outbox_ok d"
  "outbox_ok (d\<lparr>db_attempts := p\<rparr>) = outbox_ok d" "outbox_ok (d\<lparr>db_keys := k\<rparr>) = outbox_ok d"
  "outbox_ok (d\<lparr>db_endpoints := q\<rparr>) = outbox_ok d" "outbox_ok (d\<lparr>db_deliveries := w\<rparr>) = outbox_ok d"
  by (simp_all add: outbox_ok_def)

text \<open>One lemma per kind of insert, on any database.\<close>

lemma static_add_key:
  assumes "static_ok E B d" and "\<forall>x \<in> set (db_api_keys d). ak_id x \<noteq> ak_id k \<and> ak_prefix x \<noteq> ak_prefix k" and "ak_business_id k \<in> B"
  shows "static_ok E B (d\<lparr>db_api_keys := db_api_keys d @ [k]\<rparr>)"
  using assms by (auto simp: static_ok_def static_defs)

lemma static_add_customer:
  assumes "static_ok E B d" and "\<forall>x \<in> set (db_customers d). cu_id x \<noteq> cu_id c" and "cu_business_id c \<in> B"
    and "\<forall>x \<in> set (db_customers d). \<not> (cu_business_id x = cu_business_id c \<and> same_email E (cu_email x) (cu_email c))"
  shows "static_ok E B (d\<lparr>db_customers := db_customers d @ [c]\<rparr>)"
proof -
  let ?d = "d\<lparr>db_customers := db_customers d @ [c]\<rparr>"
  have "uq_customers_business_email E ?d"
    using assms(1,4) by (force simp: static_ok_def uq_customers_business_email_def same_email_def)
  moreover have "books_ok ?d" using assms(1) by (simp add: static_ok_def books_ok_def)
  ultimately show ?thesis using assms(1-3) by (auto simp: static_ok_def static_defs(1,2,4-7))
qed

lemma static_add_endpoint:
  assumes "static_ok E B d" and "\<forall>x \<in> set (db_endpoints d). ep_id x \<noteq> ep_id p" and "ep_business_id p \<in> B" and "ep_status p = ''active''"
  shows "static_ok E B (d\<lparr>db_endpoints := db_endpoints d @ [p]\<rparr>)"
proof -
  let ?d = "d\<lparr>db_endpoints := db_endpoints d @ [p]\<rparr>"
  have "books_ok ?d" using assms(1) by (simp add: static_ok_def books_ok_def) blast
  then show ?thesis using assms by (auto simp: static_ok_def static_defs(1-7))
qed

lemma static_add_attempt:
  assumes "static_ok E B d" and "\<forall>x \<in> set (db_attempts d). pa_id x \<noteq> pa_id a" and "\<forall>x \<in> set (db_keys d). ik_id x \<noteq> ik_id k"
    and "\<forall>x \<in> set (db_keys d). \<not> (ik_business_id x = ik_business_id k \<and> ik_idempotency_key x = ik_idempotency_key k)"
    and "iv \<in> set (db_invoices d)" "inv_id iv = pa_invoice_id a" "inv_business_id iv = pa_business_id a" "inv_total_cents iv = pa_amount_cents a"
    and "ik_attempt_id k = Some (pa_id a)" "ik_business_id k = pa_business_id a" "ik_idempotency_key k = pa_idempotency_key a"
    and "pa_business_id a \<in> B" and "attempt_checks a"
  shows "static_ok E B (d\<lparr>db_attempts := db_attempts d @ [a], db_keys := db_keys d @ [k]\<rparr>)"
proof -
  let ?d = "d\<lparr>db_attempts := db_attempts d @ [a], db_keys := db_keys d @ [k]\<rparr>"
  have "books_ok ?d" using assms(1,5-11) by (simp add: static_ok_def books_ok_def) blast
  then show ?thesis using assms by (auto simp: static_ok_def static_defs(1-7))
qed

lemma static_add_event:
  assumes "static_ok E B d" and "\<forall>x \<in> set (db_events d). ev_id x \<noteq> ev_id e" and "ev_sequence e = db_event_seq d"
    and "iv \<in> set (db_invoices d)" "inv_id iv = ev_aggregate_id e" "inv_business_id iv = ev_business_id e"
  shows "static_ok E B (d\<lparr>db_events := db_events d @ [e], db_event_seq := db_event_seq d + 1\<rparr>)"
proof -
  let ?d = "d\<lparr>db_events := db_events d @ [e], db_event_seq := db_event_seq d + 1\<rparr>"
  have "outbox_ok ?d" using assms(1-3) by (auto simp: static_ok_def books_ok_def outbox_ok_def sorted_wrt_append)
  then have "books_ok ?d" using assms(1,4-6) by (simp add: static_ok_def books_ok_def) blast
  moreover have "ev_business_id e \<in> B" using assms(1,4,6) by (auto simp: static_ok_def business_keys_def)
  ultimately show ?thesis using assms by (auto simp: static_ok_def static_defs(1-7))
qed

lemma static_add_deliveries:
  assumes "static_ok E B d" and "distinct (map wd_id (db_deliveries d @ ws))" and "distinct (map pair_of (db_deliveries d @ ws))"
    and "\<forall>w \<in> set ws. \<exists>e \<in> set (db_events d). \<exists>ep \<in> set (db_endpoints d). delivery_for w e ep"
  shows "static_ok E B (d\<lparr>db_deliveries := db_deliveries d @ ws\<rparr>)"
proof -
  let ?d = "d\<lparr>db_deliveries := db_deliveries d @ ws\<rparr>"
  have "books_ok ?d" using assms(1,4) by (auto simp: static_ok_def books_ok_def)
  moreover have "wd_business_id ` set ws \<subseteq> B" using assms(1,4) by (force simp: static_ok_def business_keys_def delivery_for_def)
  ultimately show ?thesis using assms by (auto simp: static_ok_def static_defs(1-7))
qed

lemma line_sum_other:
  "\<forall>x \<in> set xs. li_invoice_id x \<noteq> i \<Longrightarrow> line_sum i (d\<lparr>db_line_items := db_line_items d @ xs\<rparr>) = line_sum i d"
  by (simp add: line_sum_def select_where_def filter_False)

lemma static_add_invoice:
  assumes "static_ok E B d" and "\<forall>x \<in> set (db_invoices d). inv_id x \<noteq> inv_id iv" and "inv_business_id iv \<in> B"
    and "c \<in> set (db_customers d)" "cu_id c = inv_customer_id iv" "cu_business_id c = inv_business_id iv"
    and "distinct (map li_id (db_line_items d @ xs))" and "\<forall>x \<in> set xs. li_invoice_id x = inv_id iv \<and> line_item_checks x"
    and "sint (cents (inv_total_cents iv)) = line_sum (inv_id iv) (d\<lparr>db_line_items := db_line_items d @ xs\<rparr>)" and "invoice_checks iv"
  shows "static_ok E B (d\<lparr>db_invoices := db_invoices d @ [iv], db_line_items := db_line_items d @ xs\<rparr>)"
proof -
  let ?d = "d\<lparr>db_invoices := db_invoices d @ [iv], db_line_items := db_line_items d @ xs\<rparr>"
  have sums: "line_sum i ?d = line_sum i (d\<lparr>db_line_items := db_line_items d @ xs\<rparr>)" for i by (simp add: line_sum_def)
  have old: "line_sum (inv_id x) ?d = line_sum (inv_id x) d" if "x \<in> set (db_invoices d)" for x
    unfolding sums using line_sum_other [of xs "inv_id x" d] assms(2,8) that by metis
  have "outbox_ok ?d" using assms(1) by (simp add: static_ok_def books_ok_def outbox_ok_def)
  then have "books_ok ?d"
    using assms(1,4-6,9) old unfolding static_ok_def books_ok_def by (simp add: sums) blast
  then show ?thesis using assms by (auto simp: static_ok_def static_defs(1-7))
qed

section \<open>Lemmas: transactions keep the invariant\<close>

definition items_ok :: "db \<Rightarrow> bool" where
  "items_ok d \<longleftrightarrow> distinct (map li_id (db_line_items d)) \<and> (\<forall>li \<in> set (db_line_items d). line_item_checks li)"

lemma insert_line_item_items_ok:
  assumes "insert_line_item i iid desc q u pos d = Inr d'" and "items_ok d"
  shows "items_ok d'"
proof -
  let ?x = "\<lparr>li_id = i, li_invoice_id = iid, li_description = desc, li_quantity = q, li_unit_amount_cents = from_cents u,
    li_amount_cents = from_cents (word_of_int (sint q * sint u)), li_position = pos\<rparr>"
  have ins: "0 < sint q" "0 \<le> sint u" "sint q * sint u \<le> i64_max" "\<forall>li \<in> set (db_line_items d). li_id li \<noteq> i"
      "db_line_items d' = db_line_items d @ [?x]"
    using assms(1) unfolding insert_line_item_Inr by auto
  have "i64_min \<le> 0" "0 \<le> sint q * sint u" using ins(1,2) by (simp_all add: i64_min_def)
  then have "i64_min \<le> sint q * sint u" by (rule order_trans)
  then have "sint (word_of_int (sint q * sint u) :: i64) = sint q * sint u" using ins(3) sint_word_of_int_i64 by blast
  then have "line_item_checks ?x" unfolding line_item_checks_def cents_def from_cents_def using ins(1,2) by simp
  then show ?thesis using ins(4) assms(2) unfolding items_ok_def ins(5) by auto
qed

lemma insert_items_items_ok: "insert_items f iid pos lis d = Inr d' \<Longrightarrow> items_ok d \<Longrightarrow> items_ok d'"
  by (induction lis arbitrary: pos d) (auto simp: result_simps intro: insert_line_item_items_ok)

lemma create_tx_items_ok:
  assumes "create_tx E now new_ids b req d = Inr (r, d')" and "items_ok d"
  shows "items_ok d'"
proof -
  obtain iv d1 d2 d3 m j p where run: "insert_invoice now (new_ids 0) b (ci_customer_id req) d = Inr (iv, d1)"
      "insert_items new_ids (inv_id iv) 0 (ci_line_items req) d1 = Inr d2" "sync_total now (inv_id iv) d2 = Inr (m, d3)"
      "emit_event now (new_ids (Suc (length (ci_line_items req)))) b INVOICE_CREATED (inv_id iv) p d3 = Inr (j, d')"
    using assms(1) by (auto simp: create_tx_def result_simps Let_def)
  have "items_ok d1" using run(1) assms(2) by (auto simp: insert_invoice_Inr items_ok_def)
  with run(2) have "items_ok d2" by (rule insert_items_items_ok)
  then show ?thesis using run(3,4) by (simp add: sync_total_Inr emit_event_Inr items_ok_def)
qed

lemma authorised_business: "static_ok E B d \<Longrightarrow> authorised b d \<Longrightarrow> b \<in> B"
  by (auto simp: static_ok_def business_keys_def authorised_def)

lemma create_static:
  assumes "static_ok E B d" and "authorised b d" and "has_customer b (ci_customer_id req) d"
    and "create_tx E now new_ids b req d = Inr (r, d')"
  shows "static_ok E B d'"
proof -
  from create_tx_frame [OF assms(4)] obtain m xs e where
    d': "d' = d\<lparr>db_invoices := db_invoices d @ [created_row now (new_ids 0) b (ci_customer_id req) m],
        db_line_items := db_line_items d @ xs, db_events := db_events d @ [e], db_event_seq := db_event_seq d + 1\<rparr>"
    and new: "\<forall>iv \<in> set (db_invoices d). inv_id iv \<noteq> new_ids 0" "\<forall>x \<in> set xs. li_invoice_id x = new_ids 0"
      "\<forall>e' \<in> set (db_events d). ev_id e' \<noteq> ev_id e"
    and e: "ev_aggregate_id e = new_ids 0" "ev_business_id e = b" "ev_sequence e = db_event_seq d"
    and m: "sint (cents m) = line_sum (new_ids 0) d'" "0 \<le> sint (cents m)" by blast
  let ?iv = "created_row now (new_ids 0) b (ci_customer_id req) m"
  let ?d = "d\<lparr>db_invoices := db_invoices d @ [?iv], db_line_items := db_line_items d @ xs\<rparr>"
  have iv: "inv_id ?iv = new_ids 0" "inv_business_id ?iv = b" "inv_customer_id ?iv = ci_customer_id req" "inv_total_cents ?iv = m"
    "inv_currency ?iv = ''USD''" by (simp_all add: created_row_def)
  have "items_ok d" using assms(1) by (simp add: static_ok_def items_ok_def primary_keys_def row_checks_def)
  from create_tx_items_ok [OF assms(4) this] have items: "distinct (map li_id (db_line_items d @ xs))" "\<forall>x \<in> set xs. line_item_checks x"
    by (simp_all add: items_ok_def d')
  obtain c where c: "c \<in> set (db_customers d)" "cu_id c = ci_customer_id req" "cu_business_id c = b"
    using assms(3) by (auto simp: has_customer_def)
  have sum: "line_sum (new_ids 0) d' = line_sum (new_ids 0) (d\<lparr>db_line_items := db_line_items d @ xs\<rparr>)" by (simp add: d' line_sum_def)
  have "static_ok E B ?d"
    by (rule static_add_invoice [OF assms(1) _ _ c(1)])
      (use new items c m sum iv authorised_business [OF assms(1,2)] in \<open>simp_all add: invoice_checks_def\<close>)
  then have "static_ok E B (?d\<lparr>db_events := db_events ?d @ [e], db_event_seq := db_event_seq ?d + 1\<rparr>)"
    by (intro static_add_event [where iv = ?iv]) (use new(3) e iv in simp_all)
  then show ?thesis by (simp add: d')
qed

lemma finalize_static:
  assumes "static_ok E B d" and "has_attempt b i aid key amt d" and "finalize_tx E now eid b i aid key amt res d = Inr (out, d')"
  shows "static_ok E B d'"
proof (cases "definite res")
  case True
  let ?e = "paid_event E now eid b i aid amt res d"
  obtain iv where iv: "iv \<in> set (db_invoices d)" "inv_id iv = i" "inv_business_id iv = b"
    using assms(1,2) by (fastforce simp: has_attempt_def static_ok_def books_ok_def)
  have e: "ev_id ?e = eid" "ev_aggregate_id ?e = i" "ev_business_id ?e = b" "ev_sequence ?e = db_event_seq d"
    by (simp_all add: paid_event_def emitted_event_def)
  have "static_ok E B ((frozen d)\<lparr>db_events := db_events (frozen d) @ [?e], db_event_seq := db_event_seq (frozen d) + 1\<rparr>)"
    by (rule static_add_event [where iv = "freeze_invoice iv"])
      (use assms(1) iv e finalize_tx_rows(6) [OF assms(3)] True in \<open>auto simp: static_frozen\<close>)
  then have "static_ok E B (frozen d')" using frozen_finalize [OF assms(3)] True by simp
  then show ?thesis by (simp add: static_frozen)
next
  case False
  then show ?thesis using frozen_finalize [OF assms(3)] static_eq assms(1) by simp
qed

lemma claim_static:
  assumes "static_ok E B d" and "authorised b d" and "has_invoice b i amt d"
    and "pay_tx1 E now kid aid b i key tok st amt d = (Claimed a, d')"
  shows "static_ok E B d'"
proof -
  let ?a = "new_attempt_row now aid b i key amt tok"
  let ?k = "new_key_row now kid b key (fingerprint E i tok amt) aid"
  note claim = assms(4) [unfolded pay_tx1_Claimed]
  obtain iv where iv: "iv \<in> set (db_invoices d)" "inv_id iv = i" "inv_business_id iv = b" "cents (inv_total_cents iv) = amt"
    using assms(3) by (auto simp: has_invoice_def)
  then have total: "inv_total_cents iv = from_cents amt" by (cases "inv_total_cents iv") (simp add: cents_def from_cents_def)
  have a: "pa_id ?a = aid" "pa_invoice_id ?a = i" "pa_business_id ?a = b" "pa_amount_cents ?a = from_cents amt"
      "pa_idempotency_key ?a = key" "attempt_checks ?a"
    using claim by (simp_all add: new_attempt_row_def attempt_checks_def cents_def from_cents_def)
  have k: "ik_id ?k = kid" "ik_business_id ?k = b" "ik_idempotency_key ?k = key" "ik_attempt_id ?k = Some aid"
    by (simp_all add: new_key_row_def)
  have "static_ok E B (d\<lparr>db_attempts := db_attempts d @ [?a], db_keys := db_keys d @ [?k]\<rparr>)"
    by (rule static_add_attempt [OF assms(1) _ _ _ iv(1)])
      (use claim iv total a k authorised_business [OF assms(1,2)] in \<open>simp_all add: key_matches_def\<close>)
  then show ?thesis using claim by simp
qed

lemma fan_out_static:
  assumes "static_ok E B d" and "fan_out now new_ids d = Inr d'"
  shows "static_ok E B d'"
proof -
  have tables: "tables_ok d" using assms(1)
    by (simp add: static_ok_def tables_ok_def primary_keys_def books_ok_def uq_delivery_event_endpoint_def)
  obtain t where d': "d' = d\<lparr>db_deliveries := t\<rparr>" using assms(2) by (auto simp: fan_out_def result_simps)
  obtain xs where xs: "t = db_deliveries d @ xs" using fan_out_keeps [OF tables assms(2)] by (auto simp: d')
  have "tables_ok d'" using fan_out_keeps [OF tables assms(2)] by blast
  then show ?thesis unfolding d' xs by (intro static_add_deliveries assms(1)) (auto simp: tables_ok_def d' xs)
qed

lemma txn_static: "txn E m d d' \<Longrightarrow> static_ok E B d \<Longrightarrow> static_ok E B d'"
proof (induction rule: txn.induct)
  case (adds_key b d now i name pre hash last_four x d')
  then show ?case using authorised_business by (auto simp: api_key_insert_def table_simps intro!: static_add_key split: if_splits)
next
  case (adds_customer b d now i email name cu d')
  then show ?case using authorised_business by (auto simp: customer_insert_Inr intro!: static_add_customer)
next
  case (claims_payment b d i amt now kid aid key tok st c d')
  then show ?case using claim_static by (cases c) (auto simp: pay_tx1_Replay dest: pay_tx1_Rejected)
next
  case (adds_endpoint b d i secret ereq er d')
  then show ?case using authorised_business by (auto simp: register_endpoint_def table_simps intro!: static_add_endpoint split: if_splits)
qed (auto intro: create_static finalize_static fan_out_static static_eq [OF frozen_transition] static_eq [OF frozen_updates(1)]
    static_eq [OF frozen_updates(2)] static_eq [OF frozen_updates(3)] static_eq [OF frozen_updates(4)]
    static_eq [OF frozen_updates(5)] static_eq [OF frozen_updates(6)])

text \<open>The partial index on active attempts and the status columns.\<close>

lemma attempt_rel_active:
  "attempt_rel now res aid a a' \<Longrightarrow> pa_invoice_id a' = pa_invoice_id a
     \<and> (pa_status a' \<in> {Pending, Succeeded} \<longrightarrow> pa_status a \<in> {Pending, Succeeded})"
  by (cases res) (auto simp: pending_attempt_def attempt_succeeded_def attempt_failed_def unknown_rel_def attempt_unknown_def
      result_simps split: if_splits)

lemma distinct_filter_rel:
  assumes "list_all2 R t t'" and "\<And>x y. R x y \<Longrightarrow> f y = f x \<and> (P y \<longrightarrow> P x)" and "distinct (map f (filter P t))"
  shows "distinct (map f (filter P t'))"
proof -
  have "f ` set (filter P t') \<subseteq> f ` set (filter P t) \<and> (distinct (map f (filter P t)) \<longrightarrow> distinct (map f (filter P t')))"
    using assms(1,2)
  proof (induction rule: list_all2_induct)
    case (Cons x xs y ys)
    then have IH: "f ` set (filter P ys) \<subseteq> f ` set (filter P xs)" "distinct (map f (filter P xs)) \<longrightarrow> distinct (map f (filter P ys))"
      and R: "f y = f x" "P y \<longrightarrow> P x" by blast+
    from IH R show ?case by auto
  qed simp
  then show ?thesis using assms(3) by blast
qed

lemma active_eq: "map pa_invoice_id (db_attempts d') = map pa_invoice_id (db_attempts d) \<Longrightarrow>
    map pa_status (db_attempts d') = map pa_status (db_attempts d) \<Longrightarrow> uq_active_attempt_per_invoice d' = uq_active_attempt_per_invoice d"
proof -
  assume "map pa_invoice_id (db_attempts d') = map pa_invoice_id (db_attempts d)" "map pa_status (db_attempts d') = map pa_status (db_attempts d)"
  then have "list_all2 (\<lambda>a a'. pa_invoice_id a' = pa_invoice_id a \<and> pa_status a' = pa_status a) (db_attempts d) (db_attempts d')"
    by (auto simp: list_all2_conv_all_nth list_eq_iff_nth_eq)
  then have "map pa_invoice_id (filter (\<lambda>a. pa_status a \<in> {Pending, Succeeded}) (db_attempts d'))
      = map pa_invoice_id (filter (\<lambda>a. pa_status a \<in> {Pending, Succeeded}) (db_attempts d))"
    by (induction rule: list_all2_induct) auto
  then show ?thesis by (simp add: uq_active_attempt_per_invoice_def)
qed

lemma txn_active: "txn E m d d' \<Longrightarrow> uq_active_attempt_per_invoice d \<Longrightarrow> uq_active_attempt_per_invoice d'"
proof (induction rule: txn.induct)
  case (claims_payment b d i amt now kid aid key tok st c d')
  then show ?case
    by (cases c) (auto simp: pay_tx1_Replay pay_tx1_Claimed uq_active_attempt_per_invoice_def active_attempt_def
        new_attempt_row_def dest: pay_tx1_Rejected)
next
  case (finalizes_payment b i aid key amt d now eid res out d')
  from finalizes_payment(3) show ?case
    unfolding uq_active_attempt_per_invoice_def
    by (rule distinct_filter_rel [OF finalize_tx_rows(2) [OF finalizes_payment(2)] attempt_rel_active, rotated])
next
  case (leases d locked now)
  have "map pa_invoice_id (db_attempts (snd (lease_batch locked now d))) = map pa_invoice_id (db_attempts d)"
    "map pa_status (db_attempts (snd (lease_batch locked now d))) = map pa_status (db_attempts d)"
    by (simp_all add: lease_batch_def Let_def update_where_def lease_row_def)
  then show ?case using leases active_eq by blast
next
  case (creates b d req now new_ids r d')
  from create_tx_frame [OF creates(4)] have "db_attempts d' = db_attempts d" by auto
  then show ?case using creates by (simp add: uq_active_attempt_per_invoice_def)
next
  case (moves frm to now b i d iv' d')
  from moves(3) have "db_attempts d' = db_attempts d" by (auto simp: transition_def Let_def result_simps split: option.splits)
  then show ?case using moves by (simp add: uq_active_attempt_per_invoice_def)
next
  case (fans_out now new_ids d d')
  then show ?case by (auto simp: fan_out_def result_simps uq_active_attempt_per_invoice_def)
next
  case (claims_deliveries locked now d ids d')
  then show ?case by (auto simp: uq_active_attempt_per_invoice_def dest!: claim_batch_Inr)
qed (auto simp: uq_active_attempt_per_invoice_def touch_last_used_def api_key_insert_def api_key_revoke_def customer_insert_Inr
    register_endpoint_def redeliver_def send_one_row Let_def split: if_splits)

lemma outcome_status: "wd_status (outcome_row post E m draw wk w) \<in> {''succeeded'', ''dead'', ''failed''}"
  by (simp add: outcome_row_def Let_def split_beta)

lemma txn_status: "txn E m d d' \<Longrightarrow> status_checks d \<Longrightarrow> status_checks d'"
proof (induction rule: txn.induct)
  case (claims_payment b d i amt now kid aid key tok st c d')
  then show ?case
    by (cases c) (auto simp: pay_tx1_Replay pay_tx1_Claimed status_checks_def new_key_row_def dest: pay_tx1_Rejected)
next
  case (finalizes_payment b i aid key amt d now eid res out d')
  have "ik_status k' \<in> {''in_progress'', ''completed''}" if k': "k' \<in> set (db_keys d')" for k'
  proof -
    obtain k where "k \<in> set (db_keys d)" "key_rel E res out b key k k'" using list_all2_back [OF finalize_tx_rows(4) k'] finalizes_payment by blast
    then show ?thesis using finalizes_payment(3) by (auto simp: status_checks_def key_rel_def completed_row_def)
  qed
  then show ?case using finalizes_payment(3) finalize_tx_other_tables(4) [OF finalizes_payment(2)] by (simp add: status_checks_def)
next
  case (creates b d req now new_ids r d')
  from create_tx_frame [OF creates(4)] have "db_keys d' = db_keys d" "db_deliveries d' = db_deliveries d" by auto
  then show ?case using creates by (simp add: status_checks_def)
next
  case (moves frm to now b i d iv' d')
  from moves(3) have "db_keys d' = db_keys d" "db_deliveries d' = db_deliveries d"
    by (auto simp: transition_def Let_def result_simps split: option.splits)
  then show ?case using moves by (simp add: status_checks_def)
next
  case (fans_out now new_ids d d')
  then obtain t where t: "insert_deliveries now new_ids 0 (fan_out_rows now d) (db_deliveries d) = Inr t" "d' = d\<lparr>db_deliveries := t\<rparr>"
    by (auto simp: fan_out_def result_simps)
  from insert_deliveries_Inr [OF t(1)] obtain xs where "t = db_deliveries d @ xs" "\<forall>w \<in> set xs. \<exists>(e, ep) \<in> set (fan_out_rows now d). \<exists>i. w = new_delivery now i e ep"
    by blast
  then show ?case using fans_out(2) t(2) by (fastforce simp: status_checks_def new_delivery_def)
next
  case (claims_deliveries locked now d ids d')
  then show ?case by (auto simp: status_checks_def update_where_def claim_row_def dest!: claim_batch_Inr)
next
  case (records d post ts now jitter wk)
  then show ?case using outcome_status by (force simp: status_checks_def send_one_row update_where_def)
next
  case (requeues now b i d d')
  then show ?case by (auto simp: status_checks_def redeliver_def Let_def update_where_def split: if_splits)
qed (auto simp: status_checks_def touch_last_used_def api_key_insert_def api_key_revoke_def customer_insert_Inr
    register_endpoint_def lease_batch_def Let_def split: if_splits)

section \<open>Lemmas: nothing is taken back\<close>

lemma appended_refl: "appended d d"
  by (simp add: appended_def)

lemma appended_trans: "appended d d' \<Longrightarrow> appended d' d'' \<Longrightarrow> appended d d''"
  unfolding appended_def by (blast intro: prefix_order.trans)

lemma appended_frozen: "frozen d' = frozen d \<Longrightarrow> appended d d'"
  unfolding appended_def by (metis frozen_tables prefix_order.order_refl)

lemma txn_appended: "txn E m d d' \<Longrightarrow> appended d d'"
proof (induction rule: txn.induct)
  case (creates b d req now new_ids r d')
  from create_tx_frame [OF creates(4)] obtain iv xs e where "d' = d\<lparr>db_invoices := db_invoices d @ [iv],
      db_line_items := db_line_items d @ xs, db_events := db_events d @ [e], db_event_seq := db_event_seq d + 1\<rparr>" by blast
  then show ?case by (simp add: appended_def)
next
  case (claims_payment b d i amt now kid aid key tok st c d')
  then show ?case by (cases c) (auto simp: pay_tx1_Replay pay_tx1_Claimed appended_def dest: pay_tx1_Rejected)
next
  case (finalizes_payment b i aid key amt d now eid res out d')
  show ?case
  proof (cases "definite res")
    case True
    then have fz: "frozen d' = (frozen d)\<lparr>db_events := db_events d @ [paid_event E now eid b i aid amt res d], db_event_seq := db_event_seq d + 1\<rparr>"
      using frozen_finalize [OF finalizes_payment(2)] by simp
    have "db_customers d' = db_customers d" "db_line_items d' = db_line_items d" "db_endpoints d' = db_endpoints d"
      "db_events d' = db_events d @ [paid_event E now eid b i aid amt res d]"
      using finalize_tx_other_tables [OF finalizes_payment(2)] finalize_tx_rows(5,8) [OF finalizes_payment(2)] True by simp_all
    then show ?thesis unfolding appended_def fz by simp
  next
    case False
    then show ?thesis using frozen_finalize [OF finalizes_payment(2)] appended_frozen by simp
  qed
next
  case (fans_out now new_ids d d')
  then obtain t where t: "insert_deliveries now new_ids 0 (fan_out_rows now d) (db_deliveries d) = Inr t" "d' = d\<lparr>db_deliveries := t\<rparr>"
    by (auto simp: fan_out_def result_simps)
  from insert_deliveries_Inr [OF t(1)] obtain xs where "t = db_deliveries d @ xs" by blast
  then show ?case by (simp add: t(2) appended_def)
next
  case (adds_key b d now i name pre hash last_four x d')
  then show ?case by (auto simp: appended_def api_key_insert_def split: if_splits)
next
  case (adds_customer b d now i email name cu d')
  then show ?case by (auto simp: appended_def customer_insert_Inr)
next
  case (adds_endpoint b d i secret ereq er d')
  then show ?case by (auto simp: appended_def register_endpoint_def split: if_splits)
qed (auto intro: appended_frozen [OF frozen_transition] appended_frozen [OF frozen_updates(1)] appended_frozen [OF frozen_updates(2)]
    appended_frozen [OF frozen_updates(3)] appended_frozen [OF frozen_updates(4)] appended_frozen [OF frozen_updates(5)]
    appended_frozen [OF frozen_updates(6)])

lemma txns_appended: "txns E m d d' \<Longrightarrow> appended d d'"
  by (induction rule: rtranclp_induct) (auto intro: appended_refl appended_trans txn_appended)

text \<open>A row that was there is still there, up to the columns that may change.\<close>

lemma prefix_row:
  assumes "prefix (map f t) (map f t')" and "r \<in> set t"
  shows "\<exists>r' \<in> set t'. f r' = f r"
  using set_mono_prefix [OF assms(1)] assms(2) by (metis (no_types, lifting) image_iff image_set subsetD)

lemma appended_rows:
  assumes "appended d d'"
  shows "k \<in> set (db_api_keys d) \<Longrightarrow> \<exists>k' \<in> set (db_api_keys d'). freeze_api_key k' = freeze_api_key k"
    and "c \<in> set (db_customers d) \<Longrightarrow> c \<in> set (db_customers d')"
    and "iv \<in> set (db_invoices d) \<Longrightarrow> \<exists>iv' \<in> set (db_invoices d'). freeze_invoice iv' = freeze_invoice iv"
    and "a \<in> set (db_attempts d) \<Longrightarrow> \<exists>a' \<in> set (db_attempts d'). freeze_attempt a' = freeze_attempt a"
  using assms unfolding appended_def frozen_tables by (blast intro: prefix_row dest: set_mono_prefix)+

text \<open>So what a request or a tick has read before it writes still holds when it writes.\<close>

lemma guards_stay:
  assumes "appended d d'"
  shows "authorised b d \<Longrightarrow> authorised b d'" and "has_customer b c d \<Longrightarrow> has_customer b c d'"
    and "has_invoice b i amt d \<Longrightarrow> has_invoice b i amt d'" and "has_attempt b i aid key amt d \<Longrightarrow> has_attempt b i aid key amt d'"
  unfolding authorised_def has_customer_def has_invoice_def has_attempt_def
  using appended_rows [OF assms] by (metis freeze_fields)+

section \<open>Properties\<close>

text \<open>A freshly migrated database to which an operator may have added businesses and keys.\<close>

definition provisioned :: "uuid set \<Rightarrow> db \<Rightarrow> bool" where
  "provisioned B d \<longleftrightarrow> d = empty_db\<lparr>db_api_keys := db_api_keys d\<rparr> \<and> distinct (map ak_id (db_api_keys d))
     \<and> distinct (map ak_prefix (db_api_keys d)) \<and> ak_business_id ` set (db_api_keys d) \<subseteq> B"

lemma migrated_provisioned: "provisioned {seed_business} (migrated_db now)"
  by (simp add: provisioned_def migrated_db_def seed_api_key_def)

lemma provisioned_data:
  assumes "provisioned B d"
  shows "data_ok E B d"
proof -
  obtain ks where "d = empty_db\<lparr>db_api_keys := ks\<rparr>" "distinct (map ak_id ks)" "distinct (map ak_prefix ks)" "ak_business_id ` set ks \<subseteq> B"
    using assms unfolding provisioned_def by metis
  then show ?thesis
    by (simp add: data_ok_def static_ok_def static_defs outbox_ok_def uq_active_attempt_per_invoice_def status_checks_def empty_db_def)
qed

interpretation data: machine_invariant "provisioned B" "txn E m" "data_ok E B" for B E m
  by unfold_locales (auto simp: data_ok_def [of E B] intro: txn_static txn_active txn_status dest: provisioned_data [of B _ E])

text \<open>A run: an invoice over three items of 250 is created and a payment of it is claimed.\<close>

definition sample_store :: db where
  "sample_store = sample_shop\<lparr>db_api_keys := [sample_key_row], db_customers := []\<rparr>"

definition sample_buyer :: customer where
  "sample_buyer = \<lparr>cu_id = 5, cu_business_id = 1, cu_email = Some ''ada@x'', cu_name = None, cu_created_at = 0, cu_updated_at = 0\<rparr>"

lemma sample_claim_run:
  "\<exists>d a. reach (provisioned {1}) (txn sample_ext 8) d \<and> a \<in> set (db_attempts d) \<and> sint (cents (pa_amount_cents a)) = 750"
proof -
  let ?reach = "reach (provisioned {1}) (txn sample_ext 8)" and ?req = "sample_request 3 250"
  let ?ids = "\<lambda>k. if k = 0 then 10 else if k = 1 then 11 else 12 :: uuid"
  let ?d = "sample_store\<lparr>db_customers := [sample_buyer]\<rparr>"
  have auth: "authorised 1 sample_store" "authorised 1 ?d" by (simp_all add: authorised_def sample_store_def sample_key_row_def)
  have "?reach sample_store"
    by (rule reach_start) (simp add: provisioned_def sample_store_def sample_shop_def empty_db_def sample_key_row_def)
  moreover have "customer_insert sample_ext 0 5 1 (Some ''ada@x'') None sample_store = Inr (sample_buyer, ?d)"
    by (simp add: customer_insert_Inr sample_buyer_def) (simp add: sample_store_def)
  ultimately have shop: "?reach ?d" using adds_customer [OF auth(1)] by (blast intro: reach_step)
  have req: "ci_line_items ?req \<noteq> []" "length (ci_line_items ?req) = 1" "request_total ?req = 750" "ci_customer_id ?req = 5"
    by (simp_all add: sample_request_def request_total_def item_amount_def)
  have items: "\<forall>li \<in> set (ci_line_items ?req). item_ok li" by (rule sample_item_ok) simp_all
  have buyer: "has_customer 1 (ci_customer_id ?req) ?d" by (simp add: has_customer_def req sample_buyer_def)
  have fresh: "fresh_ids ?ids (length (ci_line_items ?req)) ?d"
    using sample_fresh by (simp add: req fresh_ids_def sample_store_def)
  have bounds: "length (ci_line_items ?req) \<le> 2 ^ 31" "request_total ?req \<le> i64_max" by (simp_all add: req i64_max_def)
  let ?iv = "created_row 100 10 1 5 (from_cents 750)"
  obtain r d' where tx: "create_tx sample_ext 100 ?ids 1 ?req ?d = Inr (r, d')" and rows: "db_invoices d' = [?iv]" "db_attempts d' = []" "db_keys d' = []"
      "db_api_keys d' = [sample_key_row]"
    using create_tx_ok [OF items fresh bounds refl refl refl, of sample_ext 100 1]
    by (auto simp: req) (auto simp: sample_store_def sample_shop_def empty_db_def)
  have "?reach d'"
    by (rule reach_step [OF shop creates [OF auth(2) buyer _ tx]]) (use items req in \<open>simp add: validate_line_items_ok\<close>)
  moreover have "has_invoice 1 10 750 d'" "authorised 1 d'"
    using rows by (simp_all add: has_invoice_def authorised_def created_row_def sample_key_row_def cents_def from_cents_def)
  moreover obtain d'' where "pay_tx1 sample_ext 200 20 21 1 10 ''k'' ''tok'' Open 750 d' = (Claimed 21, d'')"
      "db_attempts d'' = [new_attempt_row 200 21 1 10 ''k'' 750 ''tok'']"
    using rows by (simp add: pay_tx1_Claimed)
  ultimately have "?reach d''" "db_attempts d'' = [new_attempt_row 200 21 1 10 ''k'' 750 ''tok'']"
    using claims_payment by (blast intro: reach_step)+
  then show ?thesis by (intro exI [of _ d'']) (simp add: new_attempt_row_def cents_def from_cents_def)
qed

text \<open>
  C8: the schema holds and no foreign key is ever violated. Whatever transactions of requests,
  reconcilers and dispatchers run in whatever order on a migrated database, every primary key,
  unique index, REFERENCES clause and CHECK constraint of the migrations holds of the result.
\<close>

theorem schema_kept:
  assumes "reach (provisioned B) (txn E m) d"
  shows "schema_ok E B d"
  by (rule data_ok_schema [OF data.reach_inv [OF assms]])

theorem schema_kept_witness:
  "\<exists>d. db_attempts d \<noteq> [] \<and> foreign_keys {1} d \<and> uq_customers_business_email sample_ext d \<and> row_checks d"
proof -
  obtain d a where d: "reach (provisioned {1}) (txn sample_ext 8) d" "a \<in> set (db_attempts d)" using sample_claim_run by blast
  from schema_kept [OF d(1)] d(2) show ?thesis by (intro exI [of _ d]) (auto simp: schema_ok_def)
qed

text \<open>
  C9: the books balance. In every such state an attempt is over exactly the sum of quantity times
  unit price of the line items of its invoice, that invoice, its customer and the attempt belong
  to one business, and so do a delivery, its event, its endpoint and the invoice it is about.
\<close>

theorem books_balance:
  assumes "reach (provisioned B) (txn E m) d"
  shows "(\<forall>a \<in> set (db_attempts d). \<exists>iv \<in> set (db_invoices d). inv_id iv = pa_invoice_id a \<and> inv_business_id iv = pa_business_id a
       \<and> sint (cents (pa_amount_cents a)) = (\<Sum>li \<leftarrow> filter (\<lambda>li. li_invoice_id li = inv_id iv) (db_line_items d).
            sint (li_quantity li) * sint (cents (li_unit_amount_cents li)))
       \<and> (\<exists>c \<in> set (db_customers d). cu_id c = inv_customer_id iv \<and> cu_business_id c = pa_business_id a))
     \<and> (\<forall>w \<in> set (db_deliveries d). \<exists>e \<in> set (db_events d). \<exists>ep \<in> set (db_endpoints d). \<exists>iv \<in> set (db_invoices d).
          ev_id e = wd_event_id w \<and> ep_id ep = wd_endpoint_id w \<and> inv_id iv = ev_aggregate_id e
          \<and> {ev_business_id e, ep_business_id ep, inv_business_id iv} = {wd_business_id w})"
proof
  have data: "data_ok E B d" using data.reach_inv [OF assms] .
  then have books: "books_ok d" and checks: "\<forall>li \<in> set (db_line_items d). line_item_checks li"
    by (simp_all add: data_ok_def static_ok_def row_checks_def)
  have sum: "line_sum i d = (\<Sum>li \<leftarrow> filter (\<lambda>li. li_invoice_id li = i) (db_line_items d). sint (li_quantity li) * sint (cents (li_unit_amount_cents li)))" for i
    unfolding line_sum_def select_where_def
    by (rule arg_cong [where f = sum_list], rule map_cong [OF refl]) (use checks in \<open>auto simp: line_item_checks_def\<close>)
  show "\<forall>a \<in> set (db_attempts d). \<exists>iv \<in> set (db_invoices d). inv_id iv = pa_invoice_id a \<and> inv_business_id iv = pa_business_id a
       \<and> sint (cents (pa_amount_cents a)) = (\<Sum>li \<leftarrow> filter (\<lambda>li. li_invoice_id li = inv_id iv) (db_line_items d).
            sint (li_quantity li) * sint (cents (li_unit_amount_cents li)))
       \<and> (\<exists>c \<in> set (db_customers d). cu_id c = inv_customer_id iv \<and> cu_business_id c = pa_business_id a)"
    using books unfolding sum [symmetric] books_ok_def by metis
  show "\<forall>w \<in> set (db_deliveries d). \<exists>e \<in> set (db_events d). \<exists>ep \<in> set (db_endpoints d). \<exists>iv \<in> set (db_invoices d).
          ev_id e = wd_event_id w \<and> ep_id ep = wd_endpoint_id w \<and> inv_id iv = ev_aggregate_id e
          \<and> {ev_business_id e, ep_business_id ep, inv_business_id iv} = {wd_business_id w}"
  proof
    fix w assume "w \<in> set (db_deliveries d)"
    then obtain e ep where e: "e \<in> set (db_events d)" "ep \<in> set (db_endpoints d)" "delivery_for w e ep" using books by (auto simp: books_ok_def)
    obtain iv where iv: "iv \<in> set (db_invoices d)" "inv_id iv = ev_aggregate_id e" "inv_business_id iv = ev_business_id e"
      using books e(1) by (auto simp: books_ok_def)
    show "\<exists>e \<in> set (db_events d). \<exists>ep \<in> set (db_endpoints d). \<exists>iv \<in> set (db_invoices d).
          ev_id e = wd_event_id w \<and> ep_id ep = wd_endpoint_id w \<and> inv_id iv = ev_aggregate_id e
          \<and> {ev_business_id e, ep_business_id ep, inv_business_id iv} = {wd_business_id w}"
      by (intro bexI [OF _ e(1)] bexI [OF _ e(2)] bexI [OF _ iv(1)]) (use e(3) iv(2,3) in \<open>simp add: delivery_for_def wants_event_def\<close>)
  qed
qed

theorem books_balance_witness:
  "\<exists>(d :: db) a iv. a \<in> set (db_attempts d) \<and> iv \<in> set (db_invoices d) \<and> (750 :: int) =
     (\<Sum>li \<leftarrow> filter (\<lambda>li. li_invoice_id li = inv_id iv) (db_line_items d). sint (li_quantity li) * sint (cents (li_unit_amount_cents li)))"
proof -
  obtain d a where d: "reach (provisioned {1}) (txn sample_ext 8) d" "a \<in> set (db_attempts d)" "sint (cents (pa_amount_cents a)) = 750"
    using sample_claim_run by blast
  from bspec [OF conjunct1 [OF books_balance [OF d(1)]] d(2)] obtain iv where iv: "iv \<in> set (db_invoices d)" "(750 :: int) =
     (\<Sum>li \<leftarrow> filter (\<lambda>li. li_invoice_id li = inv_id iv) (db_line_items d). sint (li_quantity li) * sint (cents (li_unit_amount_cents li)))"
    unfolding d(3) by blast
  show ?thesis by (intro exI conjI) (rule d(2), rule iv(1), rule iv(2))
qed

text \<open>
  C10: history is append-only. Whatever transactions run, from any database, no row of any table
  is ever deleted or moved, and no id, owner, reference, amount, prefix, hash, secret, payload or
  fingerprint of it ever changes; so a fact a request has read before it writes still holds then.
\<close>

theorem append_only:
  assumes "txns E m d d'"
  shows "appended d d' \<and> (authorised b d \<longrightarrow> authorised b d') \<and> (has_customer b c d \<longrightarrow> has_customer b c d')
     \<and> (has_invoice b i amt d \<longrightarrow> has_invoice b i amt d') \<and> (has_attempt b i aid key amt d \<longrightarrow> has_attempt b i aid key amt d')"
  using txns_appended [OF assms] guards_stay by blast

theorem append_only_witness:
  "appended sample_store (snd (api_key_revoke 5 1 4 sample_store)) \<and> authorised 1 (snd (api_key_revoke 5 1 4 sample_store))"
proof -
  have "txns sample_ext 8 sample_store (snd (api_key_revoke 5 1 4 sample_store))" by (rule r_into_rtranclp) (rule revokes)
  moreover have "authorised 1 sample_store" by (simp add: authorised_def sample_store_def sample_key_row_def)
  ultimately show ?thesis using append_only [of sample_ext 8 sample_store _ 1] by blast
qed

text \<open>
  The life of a deployment: installed on an empty database or on one an operator has prepared,
  then started any number of times, each time with any environment and on the database the
  previous process left, wherever it stopped.
\<close>

inductive deployed :: "ext \<Rightarrow> uuid set \<Rightarrow> db \<Rightarrow> bool" for E :: ext and B :: "uuid set" where
  prepared: "provisioned B d \<Longrightarrow> deployed E B d"
| installed: "seed_business \<in> B \<Longrightarrow> main_start (connect_and_migrate (\<lambda>_. Inr None) now) bind env = Inr p
    \<Longrightarrow> deployed E B (pr_db (process_run E es p))"
| restarted: "deployed E B d \<Longrightarrow> main_start (connect_and_migrate (\<lambda>_. Inr (Some d)) now) bind env = Inr p
    \<Longrightarrow> deployed E B (pr_db (process_run E es p))"

lemma main_start_budget: "main_start connect bind env = Inr p \<Longrightarrow> budget_ok (webhook_max_attempts (st_config (pr_state p))) p"
  by (auto simp: main_start_def result_simps Let_def spawn_background_tasks_def budget_ok_def)

lemma main_start_db: "main_start (connect_and_migrate (\<lambda>_. Inr store) now) bind env = Inr p \<Longrightarrow> pr_db p = migrate now store"
  by (auto simp: main_start_def result_simps Let_def spawn_background_tasks_def connect_and_migrate_def)

lemma process_txns:
  "main_start connect bind env = Inr p \<Longrightarrow> txns E (webhook_max_attempts (st_config (pr_state p))) (pr_db p) (pr_db (process_run E es p))"
  by (rule interleaving.process_run_keeps [OF main_start_budget])

lemma deployed_data: "deployed E B d \<Longrightarrow> data_ok E B d"
proof (induction rule: deployed.induct)
  case (prepared d)
  then show ?case by (rule provisioned_data)
next
  case (installed now bind env p es)
  have "provisioned B (pr_db p)"
    using installed(1) by (simp add: main_start_db [OF installed(2)] migrate_def provisioned_def migrated_db_def seed_api_key_def)
  then show ?case by (rule data.steps_inv [OF provisioned_data process_txns [OF installed(2)]])
next
  case (restarted d now bind env p es)
  then have "data_ok E B (pr_db p)" by (simp add: main_start_db [OF restarted(2)] migrate_def)
  then show ?case by (rule data.steps_inv [OF _ process_txns [OF restarted(2)]])
qed



text \<open>The plaintext the migration names next to the hash.\<close>

definition seed_key :: string where
  "seed_key = ''dpk_test_seedkey0000000000000000000000000000''"

text \<open>
  C29: the seed key works until it is revoked. In every state the service reaches from the migrated
  database, the key of the README, whose SHA-256 the migration stores, authenticates its bearer
  as the seed business, unless the seed row has been revoked; then it is refused.
\<close>

theorem seed_key_works:
  assumes "header_laws E" and "sha256 E (as_bytes seed_key) = seed_key_hash" and "txns E m (migrated_db t) d"
  shows "require_api_key E now (Some (as_bytes (''Bearer '' @ seed_key))) d =
     (if \<exists>k \<in> set (db_api_keys d). ak_id k = ak_id (seed_api_key t) \<and> ak_revoked_at k \<noteq> None
      then Inl Unauthorized else Inr seed_business)"
proof -
  let ?header = "Some (as_bytes (''Bearer '' @ seed_key))" and ?s = "seed_api_key t"
  have "data_ok E {seed_business} d" using data.steps_inv [OF provisioned_data [OF migrated_provisioned] assms(3)] .
  then have uniq: "distinct (map ak_id (db_api_keys d))" "distinct (map ak_prefix (db_api_keys d))"
    by (simp_all add: data_ok_def static_ok_def primary_keys_def uq_api_keys_prefix_def)
  obtain k where k: "k \<in> set (db_api_keys d)" "freeze_api_key k = freeze_api_key ?s"
    using appended_rows(1) [OF txns_appended [OF assms(3)], of ?s] by (auto simp: migrated_db_def)
  have "ak_id (freeze_api_key k) = ak_id ?s" "ak_prefix (freeze_api_key k) = ak_prefix ?s" "ak_business_id (freeze_api_key k) = ak_business_id ?s"
    "ak_key_hash (freeze_api_key k) = ak_key_hash (freeze_api_key ?s)" "ak_expires_at (freeze_api_key k) = ak_expires_at (freeze_api_key ?s)"
    by (simp_all add: k(2))
  then have row: "ak_id k = ak_id ?s" "ak_prefix k = ''dpk_test_seedkey0''" "ak_business_id k = seed_business" "ak_key_hash k = seed_key_hash"
    "ak_expires_at k = None" by (simp_all add: freeze_api_key_def seed_api_key_def)
  have graphic: "\<forall>c \<in> set seed_key. graphic c" by (simp add: seed_key_def graphic_def)
  have token: "bearer_token E ?header = Some seed_key"
    by (rule bearer_token_header [OF assms(1) _ graphic]) (simp add: seed_key_def)
  have pre: "derive_prefix seed_key = ''dpk_test_seedkey0''"
    unfolding derive_prefix_ascii [OF graphic_is_ascii [OF graphic]] by (simp add: seed_key_def PREFIX_LEN_def)
  have id: "r = k" if "r \<in> set (db_api_keys d)" "ak_id r = ak_id ?s" for r
    using that k(1) row(1) uniq(1) by (auto simp: distinct_map inj_on_def)
  show ?thesis
  proof (cases "ak_revoked_at k = None")
    case True
    then have "require_api_key E now ?header d = Inr seed_business"
      unfolding require_api_key_unique [OF uniq(2)] using token pre k(1) row assms(2) by (auto simp: key_active_def hash_key_def)
    then show ?thesis using id True by auto
  next
    case False
    have "r = k" if "r \<in> set (db_api_keys d)" "ak_prefix r = ak_prefix k" for r
      using that k(1) uniq(2) by (auto simp: distinct_map inj_on_def)
    then have "require_api_key E now ?header d = Inl Unauthorized"
      using token pre row(2) False by (intro require_api_key_refused) (auto simp: key_active_def)
    then show ?thesis using k(1) row(1) False by auto
  qed
qed

definition seed_ext :: ext where
  "seed_ext = sample_ext\<lparr>sha256 := (\<lambda>_. seed_key_hash)\<rparr>"

theorem seed_key_works_witness:
  "require_api_key seed_ext 9 (Some (as_bytes (''Bearer '' @ seed_key))) (touch_last_used 5 ''dpk_test_seedkey0'' (migrated_db 0)) = Inr seed_business"
proof -
  have "header_laws seed_ext" using sample_header_laws by (simp add: header_laws_def seed_ext_def)
  moreover have "sha256 seed_ext (as_bytes seed_key) = seed_key_hash" by (simp add: seed_ext_def)
  moreover have "txns seed_ext 8 (migrated_db 0) (touch_last_used 5 ''dpk_test_seedkey0'' (migrated_db 0))"
    by (rule r_into_rtranclp) (rule touches)
  ultimately have "require_api_key seed_ext 9 (Some (as_bytes (''Bearer '' @ seed_key))) (touch_last_used 5 ''dpk_test_seedkey0'' (migrated_db 0)) =
      (if \<exists>k \<in> set (db_api_keys (touch_last_used 5 ''dpk_test_seedkey0'' (migrated_db 0))). ak_id k = ak_id (seed_api_key 0) \<and> ak_revoked_at k \<noteq> None
       then Inl Unauthorized else Inr seed_business)" by (rule seed_key_works)
  then show ?thesis by (simp add: touch_last_used_def migrated_db_def seed_api_key_def update_where_def)
qed

end
