(* ===== verification/Stampede.thy ===== *)
theory Stampede
  imports Runs
begin

text \<open>
  Many requests pay one invoice at once, each under its own idempotency key, as in the concurrency
  test of \<^verbatim>\<open>tests/payment_flows.rs\<close>. The machine is the payment system with nothing but these requests:
  they may be interleaved in any way, ids are fresh, and the provider answers. At every moment one
  of three stages holds, and the database is known exactly in each of them.
\<close>

section \<open>The scenario\<close>

record crowd =
  cr_business :: uuid
  cr_invoice :: invoice
  cr_token :: string
  cr_keys :: "nat \<Rightarrow> string"
  cr_size :: nat
  cr_db :: db

abbreviation cr_invoice_id :: "crowd \<Rightarrow> uuid" where
  "cr_invoice_id c \<equiv> inv_id (cr_invoice c)"

abbreviation cr_amount :: "crowd \<Rightarrow> i64" where
  "cr_amount c \<equiv> cents (inv_total_cents (cr_invoice c))"

fun claimed_worker :: "ext \<Rightarrow> uuid \<Rightarrow> uuid \<Rightarrow> string \<Rightarrow> string \<Rightarrow> i64 \<Rightarrow> claim \<Rightarrow> worker" where
  "claimed_worker E b i key tok amt (Claimed a) =
     Charge \<lparr>jb_attempt = a, jb_invoice = i, jb_business = b, jb_key = key, jb_amount = amt, jb_token = tok\<rparr> []"
| "claimed_worker E b i key tok amt ClaimReplay = PayReplay b i key (fingerprint E i tok amt)"
| "claimed_worker E b i key tok amt (ClaimRejected e) = Done (Inl e)"

text \<open>\<open>rush E ans w\<close> is a step of worker \<open>w\<close>.\<close>

inductive rush :: "ext \<Rightarrow> (string \<Rightarrow> psp_result) \<Rightarrow> nat \<Rightarrow> sys \<Rightarrow> sys \<Rightarrow> bool"
  for E :: ext and ans :: "string \<Rightarrow> psp_result" and w :: nat where
  reads: "s_workers s w = PayRead b i key tok \<Longrightarrow> pay_read b i \<lparr>pr_card_token = tok\<rparr> (s_db s) = Inr (st, amt) \<Longrightarrow>
     rush E ans w s (at s w (PayClaim b i key tok st amt))"
| refused: "s_workers s w = PayRead b i key tok \<Longrightarrow> pay_read b i \<lparr>pr_card_token = tok\<rparr> (s_db s) = Inl e \<Longrightarrow>
     rush E ans w s (at s w (Done (Inl e)))"
| claims: "s_workers s w = PayClaim b i key tok st amt \<Longrightarrow> \<forall>r \<in> set (db_keys (s_db s)). ik_id r \<noteq> kid \<Longrightarrow>
     \<forall>a \<in> set (db_attempts (s_db s)). pa_id a \<noteq> aid \<Longrightarrow> pay_tx1 E now kid aid b i key tok st amt (s_db s) = (c, d') \<Longrightarrow>
     rush E ans w s (at (s\<lparr>s_db := d'\<rparr>) w (claimed_worker E b i key tok amt c))"
| replays: "s_workers s w = PayReplay b i key fp \<Longrightarrow> rush E ans w s (at s w (Done (replay E b key fp i (s_db s))))"
| charges: "s_workers s w = Charge j rest \<Longrightarrow>
     rush E ans w s (at (s\<lparr>s_log := s_log s @ [(j, ans (jb_key j))]\<rparr>) w (Finalize j (ans (jb_key j)) rest))"
| finalizes: "s_workers s w = Finalize j r rest \<Longrightarrow> \<forall>e \<in> set (db_events (s_db s)). ev_id e \<noteq> eid \<Longrightarrow>
     pay_finalize E now eid (jb_business j) (jb_invoice j) (jb_attempt j) (jb_key j) (jb_amount j) r (s_db s) = Inr (out, d') \<Longrightarrow>
     rush E ans w s (at (s\<lparr>s_db := d'\<rparr>) w (next_job (Inr out) rest))"

lemma rush_step: "rush E ans w s t \<Longrightarrow> step E ans s t"
proof (induction rule: rush.induct)
  case (claims s b i key tok st amt kid aid now c d')
  then show ?case
    by (cases c) (auto intro: step.claim_ok [simplified] step.claim_replay [simplified] step.claim_rejected [simplified])
next
  case (finalizes s j r rest eid now out d')
  from step.finalize_ok [OF finalizes(1,3)] show ?case .
qed (auto intro: step.read_ok step.read_err step.replayed step.charge [simplified])

text \<open>The provider accepts every key; the invoice is open and unpaid, the keys are new and different, ids are left.\<close>

definition crowd_ok :: "(string \<Rightarrow> psp_result) \<Rightarrow> crowd \<Rightarrow> bool" where
  "crowd_ok ans c \<longleftrightarrow>
     distinct (map inv_id (db_invoices (cr_db c))) \<and> cr_invoice c \<in> set (db_invoices (cr_db c))
     \<and> inv_business_id (cr_invoice c) = cr_business c \<and> inv_state (cr_invoice c) = Open
     \<and> 0 \<le> inv_version (cr_invoice c) \<and> inv_version (cr_invoice c) < 2 ^ 31 - 1 \<and> 0 \<le> sint (cr_amount c)
     \<and> (\<forall>a \<in> set (db_attempts (cr_db c)). \<not> (pa_invoice_id a = cr_invoice_id c \<and> active_attempt a))
     \<and> (\<forall>w < cr_size c. \<forall>r \<in> set (db_keys (cr_db c)). \<not> key_matches (cr_business c) (cr_keys c w) r)
     \<and> inj_on (cr_keys c) {..<cr_size c} \<and> trim (cr_token c) \<noteq> []
     \<and> (\<forall>w < cr_size c. \<exists>q. ans (cr_keys c w) = PspSucceeded q)
     \<and> Suc (length (db_keys (cr_db c))) < 2 ^ 128 \<and> Suc (length (db_attempts (cr_db c))) < 2 ^ 128
     \<and> Suc (length (db_events (cr_db c))) < 2 ^ 128"

definition crowd_start :: "crowd \<Rightarrow> sys \<Rightarrow> bool" where
  "crowd_start c s \<longleftrightarrow> s_db s = cr_db c \<and> s_log s = []
     \<and> s_workers s = (\<lambda>w. if w < cr_size c then PayRead (cr_business c) (cr_invoice_id c) (cr_keys c w) (cr_token c) else Idle)"

section \<open>The stages\<close>

abbreviation waits :: "crowd \<Rightarrow> invoice_state set \<Rightarrow> nat \<Rightarrow> worker \<Rightarrow> bool" where
  "waits c S w x \<equiv> x = PayRead (cr_business c) (cr_invoice_id c) (cr_keys c w) (cr_token c)
     \<or> (\<exists>st \<in> S. x = PayClaim (cr_business c) (cr_invoice_id c) (cr_keys c w) (cr_token c) st (cr_amount c))"

abbreviation loses :: "worker \<Rightarrow> bool" where
  "loses x \<equiv> x = Done (Inl payment_in_progress) \<or> x = Done (Inl (not_payable Paid))"

definition winner_job :: "crowd \<Rightarrow> nat \<Rightarrow> uuid \<Rightarrow> leased_row" where
  "winner_job c v a = \<lparr>jb_attempt = a, jb_invoice = cr_invoice_id c, jb_business = cr_business c, jb_key = cr_keys c v,
     jb_amount = cr_amount c, jb_token = cr_token c\<rparr>"

definition nobody_claimed :: "crowd \<Rightarrow> sys \<Rightarrow> bool" where
  "nobody_claimed c s \<longleftrightarrow> s_db s = cr_db c \<and> s_log s = [] \<and> (\<forall>w < cr_size c. waits c {Open} w (s_workers s w))"

definition fresh_draws :: "crowd \<Rightarrow> pay_draws \<Rightarrow> bool" where
  "fresh_draws c dr \<longleftrightarrow> (\<forall>r \<in> set (db_keys (cr_db c)). ik_id r \<noteq> pd_key_id dr)
     \<and> (\<forall>a \<in> set (db_attempts (cr_db c)). pa_id a \<noteq> pd_attempt_id dr)"

definition one_charging :: "ext \<Rightarrow> (string \<Rightarrow> psp_result) \<Rightarrow> crowd \<Rightarrow> nat \<Rightarrow> pay_draws \<Rightarrow> sys \<Rightarrow> bool" where
  "one_charging E ans c v dr s \<longleftrightarrow> v < cr_size c \<and> fresh_draws c dr
     \<and> s_db s = claimed_db E dr (cr_business c) (cr_invoice_id c) (cr_keys c v) (cr_amount c) (cr_token c) (cr_db c)
     \<and> (let j = winner_job c v (pd_attempt_id dr) in
          s_workers s v = Charge j [] \<and> s_log s = []
          \<or> s_workers s v = Finalize j (ans (cr_keys c v)) [] \<and> s_log s = [(j, ans (cr_keys c v))])
     \<and> (\<forall>w < cr_size c. w \<noteq> v \<longrightarrow> waits c {Open} w (s_workers s w) \<or> loses (s_workers s w))"

definition one_paid :: "ext \<Rightarrow> (string \<Rightarrow> psp_result) \<Rightarrow> crowd \<Rightarrow> nat \<Rightarrow> pay_draws \<Rightarrow> nat \<Rightarrow> sys \<Rightarrow> bool" where
  "one_paid E ans c v dr k s \<longleftrightarrow> v < cr_size c \<and> k < length (db_invoices (cr_db c)) \<and> db_invoices (cr_db c) ! k = cr_invoice c
     \<and> s_db s = settled_db E dr (cr_business c) (cr_invoice_id c) (cr_keys c v) (cr_amount c) (cr_token c) (ans (cr_keys c v)) k (cr_db c)
     \<and> s_workers s v = Done (Inr (outcome_response E (cr_invoice_id c) (pd_attempt_id dr) (cr_amount c) (ans (cr_keys c v))))
     \<and> s_log s = [(winner_job c v (pd_attempt_id dr), ans (cr_keys c v))]
     \<and> (\<forall>w < cr_size c. w \<noteq> v \<longrightarrow> waits c {Open, Paid} w (s_workers s w) \<or> loses (s_workers s w))"

definition crowd_inv :: "ext \<Rightarrow> (string \<Rightarrow> psp_result) \<Rightarrow> crowd \<Rightarrow> sys \<Rightarrow> bool" where
  "crowd_inv E ans c s \<longleftrightarrow> crowd_ok ans c \<and> (\<forall>w \<ge> cr_size c. s_workers s w = Idle)
     \<and> (nobody_claimed c s \<or> (\<exists>v dr. one_charging E ans c v dr s) \<or> (\<exists>v dr k. one_paid E ans c v dr k s))"

section \<open>Lemmas: a claimed invoice turns everyone else away\<close>

text \<open>What the others meet: no key of theirs, an active attempt, and the invoice in a state of \<open>S\<close>.\<close>

definition busy :: "crowd \<Rightarrow> nat \<Rightarrow> invoice_state set \<Rightarrow> db \<Rightarrow> bool" where
  "busy c v S d \<longleftrightarrow> (\<forall>w < cr_size c. w \<noteq> v \<longrightarrow> (\<forall>r \<in> set (db_keys d). \<not> key_matches (cr_business c) (cr_keys c w) r))
     \<and> (\<exists>a \<in> set (db_attempts d). pa_invoice_id a = cr_invoice_id c \<and> active_attempt a)
     \<and> (\<exists>iv. invoice_get (cr_business c) (cr_invoice_id c) d = Some iv \<and> inv_state iv \<in> S
          \<and> inv_total_cents iv = inv_total_cents (cr_invoice c))"

lemma pay_tx1_busy:
  assumes "\<forall>r \<in> set (db_keys d). \<not> key_matches b key r \<and> ik_id r \<noteq> kid" and "0 \<le> sint amt"
    and "\<exists>a \<in> set (db_attempts d). pa_invoice_id a = i \<and> active_attempt a"
  shows "pay_tx1 E now kid aid b i key tok st amt d = (ClaimRejected (if st = Open then payment_in_progress else not_payable st), d)"
  using assms by (auto simp: pay_tx1_def insert_key_def insert_attempt_def table_simps)

text \<open>So a step of a request that has not won keeps database and log and moves it towards its 409.\<close>

lemma loser_moves:
  assumes "rush E ans w s t" and "busy c v S (s_db s)" and "S \<subseteq> {Open, Paid}" and "w < cr_size c" "w \<noteq> v"
    and "waits c S w (s_workers s w) \<or> loses (s_workers s w)" and "0 \<le> sint (cr_amount c)" and "trim (cr_token c) \<noteq> []"
  shows "s_db t = s_db s \<and> s_log t = s_log s \<and> (\<exists>x. s_workers t = (s_workers s)(w := x) \<and> (waits c S w x \<or> loses x))"
proof -
  obtain iv where iv: "invoice_get (cr_business c) (cr_invoice_id c) (s_db s) = Some iv" "inv_state iv \<in> S" "inv_total_cents iv = inv_total_cents (cr_invoice c)"
    using assms(2) by (auto simp: busy_def)
  then have read: "pay_read (cr_business c) (cr_invoice_id c) \<lparr>pr_card_token = cr_token c\<rparr> (s_db s) = Inr (inv_state iv, cr_amount c)"
    using assms(8) by (simp add: pay_read_def)
  show ?thesis
    using assms(1)
  proof cases
    case (reads b i key tok st amt)
    then have "b = cr_business c" "i = cr_invoice_id c" "key = cr_keys c w" "tok = cr_token c" using assms(6) by auto
    then show ?thesis using reads read iv(2) by (intro conjI exI [of _ "PayClaim b i key tok st amt"]) auto
  next
    case (refused b i key tok e)
    then have "b = cr_business c" "i = cr_invoice_id c" "tok = cr_token c" using assms(6) by auto
    then show ?thesis using refused(3) read by simp
  next
    case (claims b i key tok st amt kid aid now cl d')
    then have c: "b = cr_business c" "i = cr_invoice_id c" "key = cr_keys c w" "tok = cr_token c" "amt = cr_amount c" "st \<in> S" using assms(6) by auto
    have keys: "\<forall>r \<in> set (db_keys (s_db s)). \<not> key_matches b key r \<and> ik_id r \<noteq> kid"
      using assms(2,4,5) claims(3) by (simp add: busy_def c)
    have act: "\<exists>a \<in> set (db_attempts (s_db s)). pa_invoice_id a = i \<and> active_attempt a" using assms(2) by (simp add: busy_def c)
    have "0 \<le> sint amt" using assms(7) c(5) by simp
    from pay_tx1_busy [OF keys this act] claims(5)
    have "cl = ClaimRejected (if st = Open then payment_in_progress else not_payable st)" "d' = s_db s" by auto
    then show ?thesis
      using claims(1) c(6) assms(3) by (intro conjI exI [of _ "Done (Inl (if st = Open then payment_in_progress else not_payable st))"]) auto
  qed (use assms(6) in auto)
qed

lemma crowd_okD:
  assumes "crowd_ok ans c"
  shows "distinct (map inv_id (db_invoices (cr_db c)))" "cr_invoice c \<in> set (db_invoices (cr_db c))"
    "inv_business_id (cr_invoice c) = cr_business c" "inv_state (cr_invoice c) = Open" "0 \<le> sint (cr_amount c)" "trim (cr_token c) \<noteq> []"
    "\<forall>w < cr_size c. \<forall>r \<in> set (db_keys (cr_db c)). \<not> key_matches (cr_business c) (cr_keys c w) r"
    "inj_on (cr_keys c) {..<cr_size c}" "v < cr_size c \<Longrightarrow> \<exists>q. ans (cr_keys c v) = PspSucceeded q"
  using assms by (simp_all add: crowd_ok_def)

lemma crowd_invoice_get: "crowd_ok ans c \<Longrightarrow> invoice_get (cr_business c) (cr_invoice_id c) (cr_db c) = Some (cr_invoice c)"
  using crowd_okD(1-3) by (intro invoice_get_unique) auto

lemma other_keys:
  assumes "crowd_ok ans c" and "v < cr_size c" and "ik_business_id k = cr_business c" "ik_idempotency_key k = cr_keys c v"
    and "w < cr_size c" "w \<noteq> v" and "r \<in> set (db_keys (cr_db c) @ [k])"
  shows "\<not> key_matches (cr_business c) (cr_keys c w) r"
proof (cases "r = k")
  case True
  have "cr_keys c w \<noteq> cr_keys c v" using crowd_okD(8) [OF assms(1)] assms(2,5,6) by (auto dest: inj_onD)
  then show ?thesis using assms(4) True by (simp add: key_matches_def)
next
  case False
  then show ?thesis using crowd_okD(7) [OF assms(1)] assms(5,7) by simp
qed

lemma claimed_busy:
  assumes "crowd_ok ans c" and "v < cr_size c"
    and "d = claimed_db E dr (cr_business c) (cr_invoice_id c) (cr_keys c v) (cr_amount c) (cr_token c) (cr_db c)"
  shows "busy c v {Open} d"
  unfolding busy_def
proof (intro conjI allI impI ballI)
  show "\<exists>a \<in> set (db_attempts d). pa_invoice_id a = cr_invoice_id c \<and> active_attempt a"
    by (simp add: assms(3) claimed_db_def new_attempt_row_def active_attempt_def)
  have "invoice_get (cr_business c) (cr_invoice_id c) d = Some (cr_invoice c)"
    using crowd_invoice_get [OF assms(1)] by (simp add: assms(3) claimed_db_def invoice_get_def)
  then show "\<exists>iv. invoice_get (cr_business c) (cr_invoice_id c) d = Some iv \<and> inv_state iv \<in> {Open} \<and> inv_total_cents iv = inv_total_cents (cr_invoice c)"
    using crowd_okD(4) [OF assms(1)] by simp
  show "\<not> key_matches (cr_business c) (cr_keys c w) r" if "w < cr_size c" "w \<noteq> v" "r \<in> set (db_keys d)" for w r
    by (rule other_keys [OF assms(1,2) _ _ that(1,2)]) (use that(3) in \<open>auto simp: assms(3) claimed_db_def new_key_row_def\<close>)
qed

lemma settled_busy:
  assumes "crowd_ok ans c" and "v < cr_size c" and "k < length (db_invoices (cr_db c))" "db_invoices (cr_db c) ! k = cr_invoice c"
    and "d = settled_db E dr (cr_business c) (cr_invoice_id c) (cr_keys c v) (cr_amount c) (cr_token c) (ans (cr_keys c v)) k (cr_db c)"
  shows "busy c v {Open, Paid} d"
    and "\<exists>iv. invoice_get (cr_business c) (cr_invoice_id c) d = Some iv \<and> inv_state iv = Paid \<and> inv_total_cents iv = inv_total_cents (cr_invoice c)"
proof -
  obtain q where q: "ans (cr_keys c v) = PspSucceeded q" using crowd_okD(9) [OF assms(1,2)] by blast
  let ?iv = "settled_invoice (pd_finalize_time dr) (PspSucceeded q) (cr_invoice c)"
  have rows: "db_invoices d = (db_invoices (cr_db c))[k := ?iv]" by (simp add: assms(5) settled_db_def Let_def q assms(4))
  have "map inv_id (db_invoices d) = map inv_id (db_invoices (cr_db c))"
    using assms(4) by (simp add: rows map_update) (metis list_update_id map_update)
  then have "distinct (map inv_id (db_invoices d))" using crowd_okD(1) [OF assms(1)] by simp
  moreover have "?iv \<in> set (db_invoices d)" using assms(3) by (simp add: rows set_update_memI)
  ultimately have get: "invoice_get (cr_business c) (cr_invoice_id c) d = Some ?iv"
    by (rule invoice_get_unique) (use crowd_okD(3) [OF assms(1)] in simp_all)
  then show "\<exists>iv. invoice_get (cr_business c) (cr_invoice_id c) d = Some iv \<and> inv_state iv = Paid \<and> inv_total_cents iv = inv_total_cents (cr_invoice c)"
    by simp
  show "busy c v {Open, Paid} d"
    unfolding busy_def
  proof (intro conjI allI impI ballI)
    show "\<exists>a \<in> set (db_attempts d). pa_invoice_id a = cr_invoice_id c \<and> active_attempt a"
      by (simp add: assms(5) settled_db_def Let_def q attempt_succeeded_def new_attempt_row_def active_attempt_def)
    show "\<exists>iv. invoice_get (cr_business c) (cr_invoice_id c) d = Some iv \<and> inv_state iv \<in> {Open, Paid} \<and> inv_total_cents iv = inv_total_cents (cr_invoice c)"
      using get by simp
    show "\<not> key_matches (cr_business c) (cr_keys c w) r" if "w < cr_size c" "w \<noteq> v" "r \<in> set (db_keys d)" for w r
      by (rule other_keys [OF assms(1,2) _ _ that(1,2)])
        (use that(3) in \<open>auto simp: assms(5) settled_db_def Let_def q new_key_row_def completed_row_def\<close>)
  qed
qed

section \<open>Lemmas: the three stages\<close>

lemma stage_one:
  assumes "crowd_ok ans c" and "nobody_claimed c s" and "rush E ans w s t" and "w < cr_size c"
  shows "nobody_claimed c t \<or> (\<exists>dr. one_charging E ans c w dr t)"
proof -
  have db: "s_db s = cr_db c" "s_log s = []" and wait: "\<forall>w < cr_size c. waits c {Open} w (s_workers s w)"
    using assms(2) by (simp_all add: nobody_claimed_def)
  note mine = wait [rule_format, OF assms(4)]
  have read: "pay_read (cr_business c) (cr_invoice_id c) \<lparr>pr_card_token = cr_token c\<rparr> (cr_db c) = Inr (Open, cr_amount c)"
    using crowd_invoice_get [OF assms(1)] crowd_okD(4,6) [OF assms(1)] by (simp add: pay_read_def)
  show ?thesis
    using assms(3)
  proof cases
    case (reads b i key tok st amt)
    then have "b = cr_business c" "i = cr_invoice_id c" "key = cr_keys c w" "tok = cr_token c" using mine by auto
    then have "nobody_claimed c t" using reads read db wait by (auto simp: nobody_claimed_def)
    then show ?thesis ..
  next
    case (refused b i key tok e)
    then have "b = cr_business c" "i = cr_invoice_id c" "tok = cr_token c" using mine by auto
    then show ?thesis using refused(3) read db(1) by simp
  next
    case (claims b i key tok st amt kid aid now cl d')
    then have c: "b = cr_business c" "i = cr_invoice_id c" "key = cr_keys c w" "tok = cr_token c" "amt = cr_amount c" "st = Open" using mine by auto
    let ?dr = "\<lparr>pd_key_id = kid, pd_attempt_id = aid, pd_event_id = 0, pd_claim_time = now, pd_finalize_time = 0\<rparr>"
    let ?d = "claimed_db E ?dr b i key amt tok (cr_db c)"
    have fresh: "fresh_draws c ?dr" using claims(3,4) db(1) by (simp add: fresh_draws_def)
    have "pay_tx1 E now kid aid b i key tok st amt (cr_db c) = (Claimed aid, ?d)"
      unfolding pay_tx1_Claimed claimed_db_def
      using fresh assms(1,4) by (auto simp: fresh_draws_def crowd_ok_def c)
    then have "cl = Claimed aid" "d' = ?d" using claims(5) db(1) by auto
    then have "one_charging E ans c w ?dr t"
      using claims(1) c fresh assms(4) db wait by (simp add: one_charging_def winner_job_def Let_def)
    then show ?thesis by blast
  qed (use mine in auto)
qed

text \<open>A loser's step leaves the stage as it is.\<close>

lemma loser_upd:
  assumes "\<forall>w < cr_size c. w \<noteq> v \<longrightarrow> P w (s_workers s w)" and "s_workers t = (s_workers s)(w := x)" and "P w x"
  shows "\<forall>w < cr_size c. w \<noteq> v \<longrightarrow> P w (s_workers t w)"
  using assms by simp

lemma stage_two_other:
  assumes "crowd_ok ans c" and "one_charging E ans c v dr s" and "rush E ans w s t" and "w < cr_size c" "w \<noteq> v"
  shows "one_charging E ans c v dr t"
proof -
  note charging = assms(2) [unfolded one_charging_def Let_def]
  have "busy c v {Open} (s_db s)" using charging claimed_busy [OF assms(1)] by simp
  from loser_moves [OF assms(3) this _ assms(4,5) _ crowd_okD(5,6) [OF assms(1)]] charging assms(4,5)
  obtain x where t: "s_db t = s_db s" "s_log t = s_log s" "s_workers t = (s_workers s)(w := x)" "waits c {Open} w x \<or> loses x" by auto
  have others: "\<forall>w < cr_size c. w \<noteq> v \<longrightarrow> waits c {Open} w (s_workers s w) \<or> loses (s_workers s w)" using charging by blast
  from loser_upd [OF others t(3,4)] charging t(1-3) assms(5) show ?thesis unfolding one_charging_def Let_def by simp
qed

lemma stage_three_other:
  assumes "crowd_ok ans c" and "one_paid E ans c v dr k s" and "rush E ans w s t" and "w < cr_size c" "w \<noteq> v"
  shows "one_paid E ans c v dr k t"
proof -
  note paid = assms(2) [unfolded one_paid_def]
  have "busy c v {Open, Paid} (s_db s)" using paid settled_busy(1) [OF assms(1)] by simp
  from loser_moves [OF assms(3) this _ assms(4,5) _ crowd_okD(5,6) [OF assms(1)]] paid assms(4,5)
  obtain x where t: "s_db t = s_db s" "s_log t = s_log s" "s_workers t = (s_workers s)(w := x)" "waits c {Open, Paid} w x \<or> loses x" by auto
  have others: "\<forall>w < cr_size c. w \<noteq> v \<longrightarrow> waits c {Open, Paid} w (s_workers s w) \<or> loses (s_workers s w)" using paid by blast
  from loser_upd [OF others t(3,4)] paid t(1-3) assms(5) show ?thesis unfolding one_paid_def by simp
qed

text \<open>The winner's transaction 2 goes through with any fresh event id.\<close>

lemma winner_finalize:
  assumes "crowd_ok ans c" and "one_charging E ans c v dr s" and "\<forall>e \<in> set (db_events (s_db s)). ev_id e \<noteq> eid"
    and "j = winner_job c v (pd_attempt_id dr)" and "dr' = dr\<lparr>pd_event_id := eid, pd_finalize_time := now\<rparr>"
  obtains k where "k < length (db_invoices (cr_db c))" "db_invoices (cr_db c) ! k = cr_invoice c"
    "pay_finalize E now eid (jb_business j) (jb_invoice j) (jb_attempt j) (jb_key j) (jb_amount j) (ans (cr_keys c v)) (s_db s)
      = Inr (outcome_response E (cr_invoice_id c) (pd_attempt_id dr') (cr_amount c) (ans (cr_keys c v)),
             settled_db E dr' (cr_business c) (cr_invoice_id c) (cr_keys c v) (cr_amount c) (cr_token c) (ans (cr_keys c v)) k (cr_db c))"
proof -
  note charging = assms(2) [unfolded one_charging_def]
  obtain k where k: "k < length (db_invoices (cr_db c))" "db_invoices (cr_db c) ! k = cr_invoice c"
    using crowd_okD(2) [OF assms(1)] by (auto simp: in_set_conv_nth)
  have db: "s_db s = claimed_db E dr' (cr_business c) (cr_invoice_id c) (cr_keys c v) (cr_amount c) (cr_token c) (cr_db c)"
    using charging by (simp add: assms(5) claimed_db_def)
  then have "\<forall>e \<in> set (db_events (cr_db c)). ev_id e \<noteq> eid" using assms(3) by (simp add: claimed_db_def)
  then have "payable dr' (cr_business c) (cr_invoice_id c) (cr_keys c v) (cr_invoice c) (cr_db c)"
    using assms(1) charging by (simp add: payable_def crowd_ok_def fresh_draws_def assms(5))
  note fin = finalize_claimed [OF this k, of E "cr_amount c" "ans (cr_keys c v)" "cr_token c", folded db]
  have "pd_finalize_time dr' = now" "pd_event_id dr' = eid" "pd_attempt_id dr' = pd_attempt_id dr" by (simp_all add: assms(5))
  with fin show thesis by (intro that [OF k]) (simp add: pay_finalize_def assms(4) winner_job_def)
qed

lemma stage_two_winner:
  assumes "crowd_ok ans c" and "one_charging E ans c v dr s" and "rush E ans v s t"
  shows "one_charging E ans c v dr t \<or> (\<exists>dr k. one_paid E ans c v dr k t)"
proof -
  note charging = assms(2) [unfolded one_charging_def Let_def]
  show ?thesis
    using assms(3)
  proof cases
    case (charges j rest)
    then have "j = winner_job c v (pd_attempt_id dr)" "rest = []" "s_log s = []" using charging by auto
    then have "one_charging E ans c v dr t" using charging charges(1) by (simp add: one_charging_def winner_job_def)
    then show ?thesis ..
  next
    case (finalizes j r rest eid now out d')
    then have j: "j = winner_job c v (pd_attempt_id dr)" "r = ans (cr_keys c v)" "rest = []" "s_log s = [(j, r)]" using charging by auto
    let ?dr = "dr\<lparr>pd_event_id := eid, pd_finalize_time := now\<rparr>"
    obtain k where k: "k < length (db_invoices (cr_db c))" "db_invoices (cr_db c) ! k = cr_invoice c"
        "pay_finalize E now eid (jb_business j) (jb_invoice j) (jb_attempt j) (jb_key j) (jb_amount j) (ans (cr_keys c v)) (s_db s)
          = Inr (outcome_response E (cr_invoice_id c) (pd_attempt_id ?dr) (cr_amount c) (ans (cr_keys c v)),
             settled_db E ?dr (cr_business c) (cr_invoice_id c) (cr_keys c v) (cr_amount c) (cr_token c) (ans (cr_keys c v)) k (cr_db c))"
      by (rule winner_finalize [OF assms(1,2) finalizes(3) j(1) refl])
    have out: "out = outcome_response E (cr_invoice_id c) (pd_attempt_id ?dr) (cr_amount c) (ans (cr_keys c v))"
      "d' = settled_db E ?dr (cr_business c) (cr_invoice_id c) (cr_keys c v) (cr_amount c) (cr_token c) (ans (cr_keys c v)) k (cr_db c)"
      using finalizes(4) k(3) unfolding j(2) by simp_all
    have "waits c {Open, Paid} w x" if "waits c {Open} w x" for w x using that by blast
    then have "one_paid E ans c v ?dr k t"
      using charging k(1,2) out j finalizes(1) by (auto simp: one_paid_def)
    then show ?thesis by blast
  qed (use charging in auto)
qed

lemma crowd_step:
  assumes "crowd_inv E ans c s" and "rush E ans w s t"
  shows "crowd_inv E ans c t"
proof -
  have ok: "crowd_ok ans c" and idle: "\<forall>w \<ge> cr_size c. s_workers s w = Idle" using assms(1) by (simp_all add: crowd_inv_def)
  have w: "w < cr_size c" using assms(2) idle by (cases rule: rush.cases) (auto simp: not_less [symmetric])
  have "\<forall>w \<ge> cr_size c. s_workers t w = Idle" using assms(2) idle w by (cases rule: rush.cases) auto
  moreover consider "nobody_claimed c s" | v dr where "one_charging E ans c v dr s" | v dr k where "one_paid E ans c v dr k s"
    using assms(1) by (auto simp: crowd_inv_def)
  then have "nobody_claimed c t \<or> (\<exists>v dr. one_charging E ans c v dr t) \<or> (\<exists>v dr k. one_paid E ans c v dr k t)"
  proof cases
    case 1
    then show ?thesis using stage_one [OF ok _ assms(2) w] by blast
  next
    case 2
    then show ?thesis using stage_two_other [OF ok _ assms(2) w] stage_two_winner [OF ok] assms(2) by (cases "w = v") blast+
  next
    case 3
    show ?thesis
    proof (cases "w = v")
      case True
      from assms(2) show ?thesis by (cases rule: rush.cases) (use 3 True in \<open>auto simp: one_paid_def\<close>)
    next
      case False
      then show ?thesis using stage_three_other [OF ok 3 assms(2) w] by blast
    qed
  qed
  ultimately show ?thesis using ok by (simp add: crowd_inv_def)
qed

lemma crowd_begin: "crowd_ok ans c \<and> crowd_start c s \<Longrightarrow> crowd_inv E ans c s"
  by (simp add: crowd_inv_def crowd_start_def nobody_claimed_def)

interpretation crowd: machine_invariant "\<lambda>s. crowd_ok ans c \<and> crowd_start c s" "\<lambda>s t. \<exists>w. rush E ans w s t" "crowd_inv E ans c" for E ans c
  by unfold_locales (rule crowd_begin, assumption, elim exE, rule crowd_step)

section \<open>Lemmas: the run ends\<close>

text \<open>The steps a request has left; every step of the run takes at least one off.\<close>

fun steps_left :: "worker \<Rightarrow> nat" where
  "steps_left (PayRead _ _ _ _) = 4"
| "steps_left (PayClaim _ _ _ _ _ _) = 3"
| "steps_left (Charge _ _) = 2"
| "steps_left (Finalize _ _ _) = 1"
| "steps_left (PayReplay _ _ _ _) = 1"
| "steps_left _ = 0"

definition work_left :: "crowd \<Rightarrow> sys \<Rightarrow> nat" where
  "work_left c s = (\<Sum>w < cr_size c. steps_left (s_workers s w))"

fun single_job :: "worker \<Rightarrow> bool" where
  "single_job (Charge _ rest) = (rest = [])"
| "single_job (Finalize _ _ rest) = (rest = [])"
| "single_job _ = True"

lemma waits_single: "waits c S w x \<or> loses x \<Longrightarrow> single_job x"
  by auto

lemma crowd_single:
  assumes "crowd_inv E ans c s"
  shows "single_job (s_workers s w)"
proof (cases "w < cr_size c")
  case True
  consider "nobody_claimed c s" | v dr where "one_charging E ans c v dr s" | v dr k where "one_paid E ans c v dr k s"
    using assms by (auto simp: crowd_inv_def)
  then show ?thesis
  proof cases
    case 1
    then have "waits c {Open} w (s_workers s w)" using True by (simp add: nobody_claimed_def)
    then show ?thesis by (rule waits_single [OF disjI1])
  next
    case (2 v dr)
    show ?thesis
    proof (cases "w = v")
      case False
      then have "waits c {Open} w (s_workers s w) \<or> loses (s_workers s w)" using 2 True by (simp add: one_charging_def)
      then show ?thesis by (rule waits_single)
    qed (use 2 in \<open>auto simp: one_charging_def Let_def\<close>)
  next
    case (3 v dr k)
    show ?thesis
    proof (cases "w = v")
      case False
      then have "waits c {Open, Paid} w (s_workers s w) \<or> loses (s_workers s w)" using 3 True by (simp add: one_paid_def)
      then show ?thesis by (rule waits_single)
    qed (use 3 in \<open>simp add: one_paid_def\<close>)
  qed
next
  case False
  then show ?thesis using assms by (simp add: crowd_inv_def)
qed

lemma rush_work:
  assumes "crowd_inv E ans c s" and "rush E ans w s t"
  shows "Suc (work_left c t) \<le> work_left c s"
proof -
  from assms(2) have w: "w < cr_size c" by (cases rule: rush.cases) (use assms(1) in \<open>auto simp: crowd_inv_def not_less [symmetric]\<close>)
  obtain x where t: "s_workers t = (s_workers s)(w := x)" and less: "steps_left x < steps_left (s_workers s w)"
    using assms(2)
  proof cases
    case (claims b i key tok st amt kid aid now cl d')
    then show ?thesis by (intro that [of "claimed_worker E b i key tok amt cl"]) (cases cl; simp)+
  next
    case (finalizes j r rest eid now out d')
    then have "rest = []" using crowd_single [OF assms(1), of w] by simp
    then show ?thesis using finalizes by (intro that [of "Done (Inr out)"]) simp_all
  qed (auto intro: that)
  have "work_left c t = steps_left x + (\<Sum>u \<in> {..<cr_size c} - {w}. steps_left (s_workers s u))"
    unfolding work_left_def using w by (subst sum.remove [of _ w]) (auto simp: t intro!: sum.cong)
  moreover have "work_left c s = steps_left (s_workers s w) + (\<Sum>u \<in> {..<cr_size c} - {w}. steps_left (s_workers s u))"
    unfolding work_left_def using w by (subst sum.remove [of _ w]) auto
  ultimately show ?thesis using less by simp
qed

lemma run_work:
  "((\<lambda>s t. \<exists>w. rush E ans w s t) ^^ k) s t \<Longrightarrow> crowd_inv E ans c s \<Longrightarrow> crowd_inv E ans c t \<and> k + work_left c t \<le> work_left c s"
proof (induction k arbitrary: t)
  case (Suc k)
  then obtain u w where u: "((\<lambda>s t. \<exists>w. rush E ans w s t) ^^ k) s u" "rush E ans w u t" by auto
  from Suc.IH [OF u(1) Suc.prems(2)] have "crowd_inv E ans c u" "k + work_left c u \<le> work_left c s" by auto
  with rush_work [OF _ u(2)] crowd_step [OF _ u(2)] show ?case by fastforce
qed simp

text \<open>Ids do not run out, and a request that is not done can go on.\<close>

lemma fresh_uuid: "length xs < 2 ^ 128 \<Longrightarrow> \<exists>i :: uuid. \<forall>x \<in> set xs. f x \<noteq> i"
proof -
  assume "length xs < 2 ^ 128"
  moreover have "card (f ` set xs) \<le> length xs" by (metis card_length length_map list.set_map)
  ultimately have "card (f ` set xs) < card (UNIV :: uuid set)" by (simp add: card_word)
  then have "f ` set xs \<noteq> UNIV" by (metis less_irrefl)
  then obtain i where "i \<notin> f ` set xs" by blast
  then show ?thesis by (intro exI [of _ i]) auto
qed

lemma crowd_ids:
  assumes "crowd_inv E ans c s"
  shows "\<exists>kid. \<forall>r \<in> set (db_keys (s_db s)). ik_id r \<noteq> kid" "\<exists>aid. \<forall>a \<in> set (db_attempts (s_db s)). pa_id a \<noteq> aid"
    "\<exists>eid. \<forall>e \<in> set (db_events (s_db s)). ev_id e \<noteq> eid"
proof -
  have ok: "Suc (length (db_keys (cr_db c))) < 2 ^ 128" "Suc (length (db_attempts (cr_db c))) < 2 ^ 128" "Suc (length (db_events (cr_db c))) < 2 ^ 128"
    using assms by (simp_all only: crowd_inv_def crowd_ok_def)
  have "length (db_keys (s_db s)) \<le> Suc (length (db_keys (cr_db c)))" "length (db_attempts (s_db s)) \<le> Suc (length (db_attempts (cr_db c)))"
    "length (db_events (s_db s)) \<le> Suc (length (db_events (cr_db c)))"
    using assms by (auto simp: crowd_inv_def nobody_claimed_def one_charging_def one_paid_def claimed_db_def settled_db_def Let_def)
  with ok show "\<exists>kid. \<forall>r \<in> set (db_keys (s_db s)). ik_id r \<noteq> kid" "\<exists>aid. \<forall>a \<in> set (db_attempts (s_db s)). pa_id a \<noteq> aid"
    "\<exists>eid. \<forall>e \<in> set (db_events (s_db s)). ev_id e \<noteq> eid"
    by (intro fresh_uuid; linarith)+
qed

lemma crowd_stuck:
  assumes "crowd_inv E ans c s" and "w < cr_size c" and "\<And>t. \<not> rush E ans w s t"
  shows "\<exists>r. s_workers s w = Done r"
proof -
  obtain kid aid eid where ids: "\<forall>r \<in> set (db_keys (s_db s)). ik_id r \<noteq> kid" "\<forall>a \<in> set (db_attempts (s_db s)). pa_id a \<noteq> aid"
    "\<forall>e \<in> set (db_events (s_db s)). ev_id e \<noteq> eid" using crowd_ids [OF assms(1)] by blast
  have go: "\<exists>t. rush E ans w s t" if x: "waits c S w (s_workers s w)" for S
  proof -
    consider b i key tok where "s_workers s w = PayRead b i key tok" | b i key tok st amt where "s_workers s w = PayClaim b i key tok st amt"
      using x by blast
    then show ?thesis
    proof cases
      case (1 b i key tok)
      then show ?thesis using rush.reads [OF 1] rush.refused [OF 1] by (cases "pay_read b i \<lparr>pr_card_token = tok\<rparr> (s_db s)") fastforce+
    next
      case (2 b i key tok st amt)
      obtain cl d' where "pay_tx1 E 0 kid aid b i key tok st amt (s_db s) = (cl, d')" by fastforce
      from rush.claims [OF 2 ids(1,2) this] show ?thesis by blast
    qed
  qed
  have ok: "crowd_ok ans c" using assms(1) by (simp add: crowd_inv_def)
  consider "nobody_claimed c s" | v dr where "one_charging E ans c v dr s" | v dr k where "one_paid E ans c v dr k s"
    using assms(1) by (auto simp: crowd_inv_def)
  then show ?thesis
  proof cases
    case 1
    then show ?thesis using go [of "{Open}"] assms(2,3) by (auto simp: nobody_claimed_def)
  next
    case (2 v dr)
    show ?thesis
    proof (cases "w = v")
      case True
      let ?j = "winner_job c v (pd_attempt_id dr)"
      have "s_workers s w \<noteq> Charge ?j []" using rush.charges assms(3) by blast
      then have fin: "s_workers s w = Finalize ?j (ans (cr_keys c v)) []" using 2 True by (auto simp: one_charging_def Let_def)
      obtain k where "pay_finalize E 0 eid (jb_business ?j) (jb_invoice ?j) (jb_attempt ?j) (jb_key ?j) (jb_amount ?j) (ans (cr_keys c v)) (s_db s)
          = Inr (outcome_response E (cr_invoice_id c) (pd_attempt_id (dr\<lparr>pd_event_id := eid, pd_finalize_time := 0\<rparr>)) (cr_amount c) (ans (cr_keys c v)),
             settled_db E (dr\<lparr>pd_event_id := eid, pd_finalize_time := 0\<rparr>) (cr_business c) (cr_invoice_id c) (cr_keys c v) (cr_amount c)
               (cr_token c) (ans (cr_keys c v)) k (cr_db c))"
        by (rule winner_finalize [OF ok 2 ids(3) refl refl])
      from rush.finalizes [OF fin ids(3) this] assms(3) show ?thesis by blast
    next
      case False
      then show ?thesis using go [of "{Open}"] 2 assms(2,3) by (auto simp: one_charging_def)
    qed
  next
    case (3 v dr k)
    then show ?thesis using go [of "{Open, Paid}"] assms(2,3) by (cases "w = v") (auto simp: one_paid_def)
  qed
qed

lemma crowd_ends: "crowd_inv E ans c s \<Longrightarrow> \<exists>k t. ((\<lambda>s t. \<exists>w. rush E ans w s t) ^^ k) s t \<and> (\<forall>w u. \<not> rush E ans w t u)"
proof (induction "work_left c s" arbitrary: s rule: less_induct)
  case less
  show ?case
  proof (cases "\<forall>w u. \<not> rush E ans w s u")
    case True
    then show ?thesis by (intro exI [of _ 0] exI [of _ s]) simp
  next
    case False
    then obtain w u where u: "rush E ans w s u" by blast
    from less.hyps [OF _ crowd_step [OF less.prems u]] rush_work [OF less.prems u]
    obtain k t where t: "((\<lambda>s t. \<exists>w. rush E ans w s t) ^^ k) u t" "\<forall>w u. \<not> rush E ans w t u" by auto
    have "((\<lambda>s t. \<exists>w. rush E ans w s t) ^^ Suc k) s t" by (rule relpowp_Suc_I2 [OF _ t(1)]) (use u in blast)
    with t(2) show ?thesis by blast
  qed
qed

section \<open>Properties\<close>


definition sample_crowd :: crowd where
  "sample_crowd = \<lparr>cr_business = 1, cr_invoice = sample_open, cr_token = ''tok_success'',
     cr_keys = (\<lambda>w. replicate (Suc w) CHR ''k''), cr_size = 2, cr_db = sample_open_db\<rparr>"

definition sample_crowd_start :: sys where
  "sample_crowd_start = \<lparr>s_db = sample_open_db,
     s_workers = (\<lambda>w. if w < 2 then PayRead 1 3 (replicate (Suc w) CHR ''k'') ''tok_success'' else Idle), s_log = []\<rparr>"


end
