(* ===== verification/Unit_Tests.thy ===== *)
theory Unit_Tests
  imports Auth Pagination Signing
begin

text \<open>
  The unit tests that stand inside the source files, one definition per test with the assertions as
  its value, and the proof that each passes: \<^verbatim>\<open>unwrap\<close> of an error fails the test. What a test reads
  from the clock or from a generator is an argument, so the test is shown to pass for every draw.
  Tests that rest on a third-party function say what they need of it.
\<close>

section \<open>\<^verbatim>\<open>money.rs\<close>\<close>

definition multiplies_and_sums_without_floats :: bool where
  "multiplies_and_sums_without_floats =
     (let unit = from_cents 1999 in
      case checked_mul_qty unit 3 of
        Inl e \<Rightarrow> False
      | Inr line \<Rightarrow> cents line = 5997 \<and>
          (case money_try_sum money_zero [line, from_cents 1] of
             Inl e \<Rightarrow> False
           | Inr tot \<Rightarrow> cents tot = 5998))"

definition overflow_is_an_error_not_a_wrap :: bool where
  "overflow_is_an_error_not_a_wrap \<longleftrightarrow>
     isl (checked_mul_qty (from_cents (word_of_int i64_max)) 2)
     \<and> isl (checked_add (from_cents (word_of_int i64_max)) (from_cents 1))"

definition display_uses_integer_math :: bool where
  "display_uses_integer_math \<longleftrightarrow>
     money_fmt (from_cents 4999) = ''$49.99'' \<and> money_fmt (from_cents 5) = ''$0.05'' \<and> money_fmt (from_cents (- 150)) = ''-$1.50''"

lemma money_tests_pass: "multiplies_and_sums_without_floats" "overflow_is_an_error_not_a_wrap" "display_uses_integer_math"
  by code_simp+

section \<open>\<^verbatim>\<open>pagination.rs\<close>\<close>

text \<open>A timestamp of the model counts microseconds.\<close>

definition cursor_round_trips :: "ext \<Rightarrow> timestamp \<Rightarrow> uuid \<Rightarrow> bool" where
  "cursor_round_trips E now u =
     (let c = encode_cursor E now u in
      case decode_cursor E c of
        None \<Rightarrow> False
      | Some (ts, got) \<Rightarrow> got = u \<and> ts = now)"

definition bad_cursor_is_none :: "ext \<Rightarrow> bool" where
  "bad_cursor_is_none E \<longleftrightarrow>
     decode_cursor E ''not-hex-zzz'' = None \<and> decode_cursor E (hex_encode E (as_bytes ''garbage-no-pipe'')) = None"

lemma cursor_tests_pass:
  assumes "hex_laws E" "uuid_laws E" "rfc3339_laws E" and "hex_decode E ''not-hex-zzz'' = None"
  shows "cursor_round_trips E now u" and "bad_cursor_is_none E"
proof -
  show "cursor_round_trips E now u" using decode_encode_cursor [OF assms(1-3)] by (simp add: cursor_round_trips_def)
  have "is_ascii ''garbage-no-pipe''" by code_simp
  then show "bad_cursor_is_none E"
    using assms(1,4) by (simp add: bad_cursor_is_none_def decode_cursor_def hex_laws_def from_utf8_ascii)
qed

section \<open>\<^verbatim>\<open>domain/invoice.rs\<close>\<close>

definition legal_transitions_only :: bool where
  "legal_transitions_only \<longleftrightarrow>
     can_transition_to Draft Open \<and> can_transition_to Open Paid \<and> can_transition_to Open Void \<and> can_transition_to Open Uncollectible
     \<and> \<not> can_transition_to Draft Paid \<and> \<not> can_transition_to Paid Open \<and> \<not> can_transition_to Void Paid \<and> \<not> can_transition_to Open Draft"

definition terminals :: bool where
  "terminals \<longleftrightarrow> is_terminal Paid \<and> is_terminal Void \<and> is_terminal Uncollectible \<and> \<not> is_terminal Draft \<and> \<not> is_terminal Open"

lemma invoice_tests_pass: "legal_transitions_only" "terminals"
  by code_simp+

section \<open>\<^verbatim>\<open>auth/api_key.rs\<close>\<close>

definition generated_key_is_self_consistent :: "ext \<Rightarrow> string \<Rightarrow> bool" where
  "generated_key_is_self_consistent E random =
     (let k = generate_key E ''test'' random in
      starts_with (gk_full k) ''dpk_test_'' \<and> length (gk_prefix k) = PREFIX_LEN \<and> derive_prefix (gk_full k) = gk_prefix k
      \<and> hash_key E (gk_full k) = gk_key_hash k \<and> suffix (gk_last_four k) (gk_full k))"

definition constant_time_eq_works :: "ext \<Rightarrow> bool" where
  "constant_time_eq_works E =
     (let h = hash_key E ''dpk_test_abc'' in
      constant_time_eq h (hash_key E ''dpk_test_abc'') \<and> \<not> constant_time_eq h (hash_key E ''dpk_test_abd'')
      \<and> \<not> constant_time_eq h (as_bytes ''short''))"

lemma key_tests_pass:
  assumes "is_ascii random" "length random = RANDOM_LEN"
    and "sha256 E (as_bytes ''dpk_test_abc'') \<noteq> sha256 E (as_bytes ''dpk_test_abd'')"
    and "length (sha256 E (as_bytes ''dpk_test_abc'')) = 32"
  shows "generated_key_is_self_consistent E random" and "constant_time_eq_works E"
proof -
  let ?full = "''dpk_test_'' @ random"
  have key: "generate_key E ''test'' random = \<lparr>gk_full = ?full, gk_prefix = derive_prefix ?full, gk_last_four = drop (length ?full - 4) ?full,
      gk_key_hash = hash_key E ?full\<rparr>" by (simp add: generate_key_def Let_def)
  have "is_ascii ?full" using assms(1) by (simp add: is_ascii_def)
  then have "length (derive_prefix ?full) = PREFIX_LEN" using assms(2) by (simp add: derive_prefix_ascii PREFIX_LEN_def RANDOM_LEN_def)
  then show "generated_key_is_self_consistent E random"
    unfolding generated_key_is_self_consistent_def Let_def key generated_key.simps
    by (intro conjI suffix_drop refl) (simp_all only: starts_with_def prefixI)
  show "constant_time_eq_works E"
    using assms(3,4) by (auto simp: constant_time_eq_works_def Let_def constant_time_eq_iff hash_key_def)
qed

section \<open>\<^verbatim>\<open>webhooks/signing.rs\<close>\<close>

definition evt_1 :: string where "evt_1 = ''{\"id\":\"evt_1\"}''"
definition evt_2 :: string where "evt_2 = ''{\"id\":\"evt_2\"}''"

definition signature_is_stable_and_verifiable :: "ext \<Rightarrow> bool" where
  "signature_is_stable_and_verifiable E =
     (let secret = as_bytes ''whsec_test''; body = as_bytes evt_1; sig = sign E secret 1700000000 body in
      sig = sign E secret 1700000000 body
      \<and> sig \<noteq> sign E secret 1700000000 (as_bytes evt_2)
      \<and> sig \<noteq> sign E secret 1700000001 body
      \<and> starts_with (signature_header E secret 1700000000 body) ''t=1700000000,v1='')"

text \<open>The three messages the test signs must have different HMACs.\<close>

lemma signing_test_passes:
  assumes "hex_laws E"
    and "inj_on (hmac_sha256 E (as_bytes ''whsec_test'')) {signed_message 1700000000 (as_bytes evt_1),
      signed_message 1700000000 (as_bytes evt_2), signed_message 1700000001 (as_bytes evt_1)}"
  shows "signature_is_stable_and_verifiable E"
proof -
  let ?secret = "as_bytes ''whsec_test''"
  have hex: "hex_encode E a = hex_encode E b \<longleftrightarrow> a = b" for a b using assms(1) by (metis hex_laws_def option.inject)
  have "evt_1 \<noteq> evt_2" by (simp add: evt_1_def evt_2_def)
  then have bodies: "as_bytes evt_1 \<noteq> as_bytes evt_2" by (simp add: as_bytes_inject)
  have sig: "sign E s t b = sign E s t' b' \<longleftrightarrow> hmac_sha256 E s (signed_message t b) = hmac_sha256 E s (signed_message t' b')" for s t b t' b'
    by (simp add: sign_def hex)
  have "sign E ?secret 1700000000 (as_bytes evt_1) \<noteq> sign E ?secret 1700000000 (as_bytes evt_2)"
    "sign E ?secret 1700000000 (as_bytes evt_1) \<noteq> sign E ?secret 1700000001 (as_bytes evt_1)"
    unfolding sig inj_on_eq_iff [OF assms(2) insertI1 insertI2 [OF insertI1]]
      inj_on_eq_iff [OF assms(2) insertI1 insertI2 [OF insertI2 [OF singletonI]]] signed_message_inject
    using bodies by simp_all
  moreover have "show_int (sint (1700000000 :: i64)) = ''1700000000''" by (simp add: show_int_def show_nat.simps) code_simp
  then have "starts_with (signature_header E ?secret 1700000000 (as_bytes evt_1)) ''t=1700000000,v1=''"
    by (simp add: signature_header_def starts_with_def)
  ultimately show ?thesis unfolding signature_is_stable_and_verifiable_def Let_def by blast
qed

end
