(* ===== verification/Mock_Psp.thy ===== *)
theory Mock_Psp
  imports Psp
begin

text \<open>
  \<^verbatim>\<open>crates/mock-psp/src/main.rs\<close>: the provider that ships with the repository. Its state is the
  map \<^verbatim>\<open>seen\<close> from idempotency keys to outcomes. A handler first looks the key up, then waits
  and decides by the card token, then records; the lock on the map is held in the first and in
  the last part only, so the three parts are separate definitions and \<open>mock_charge\<close> is a handler
  that runs undisturbed. The fresh reference is an argument.
\<close>

section \<open>Definitions\<close>

type_synonym seen = "string \<Rightarrow> charge_outcome option"

record charge_request =
  cq_card_token :: string
  cq_amount_cents :: i64
  cq_idempotency_key :: "string option"

text \<open>
  The \<^verbatim>\<open>Json<ChargeRequest>\<close> extractor: the token is required, the others default; a field given
  twice is an error, and the sequence form of the struct is accepted too.
\<close>

definition charge_request_fields ::
  "json option \<Rightarrow> json option \<Rightarrow> json option \<Rightarrow> charge_request option" where
  "charge_request_fields token amount key =
     Option.bind (Option.bind token json_string) (\<lambda>token'.
     Option.bind (case amount of None \<Rightarrow> Some 0 | Some v \<Rightarrow> json_i64 v) (\<lambda>amount'.
     Option.bind (case key of None \<Rightarrow> Some None | Some JNull \<Rightarrow> Some None | Some v \<Rightarrow> map_option Some (json_string v)) (\<lambda>key'.
       Some \<lparr>cq_card_token = token', cq_amount_cents = amount', cq_idempotency_key = key'\<rparr>)))"

definition given_once :: "string list \<Rightarrow> (string \<times> json) list \<Rightarrow> bool" where
  "given_once ks fs = distinct (filter (\<lambda>k. k \<in> set ks) (map fst fs))"

fun charge_request_from_value :: "json \<Rightarrow> charge_request option" where
  "charge_request_from_value (JObject fs) =
     (if given_once [''card_token'', ''amount_cents'', ''idempotency_key''] fs
      then charge_request_fields (map_of fs ''card_token'') (map_of fs ''amount_cents'')
             (map_of fs ''idempotency_key'')
      else None)"
| "charge_request_from_value (JArray [token]) = charge_request_fields (Some token) None None"
| "charge_request_from_value (JArray [token, amount]) = charge_request_fields (Some token) (Some amount) None"
| "charge_request_from_value (JArray [token, amount, key]) =
     charge_request_fields (Some token) (Some amount) (Some key)"
| "charge_request_from_value _ = None"

fun outcome_to_value :: "charge_outcome \<Rightarrow> json" where
  "outcome_to_value (OutSucceeded r) = JObject [(''status'', JString ''succeeded''), (''psp_ref'', JString r)]"
| "outcome_to_value (OutFailed c) = JObject [(''status'', JString ''failed''), (''code'', JString c)]"

type_synonym http_reply = "nat \<times> json"

definition mock_lookup :: "charge_request \<Rightarrow> seen \<Rightarrow> http_reply option" where
  "mock_lookup req seen =
     Option.bind (cq_idempotency_key req) (\<lambda>key.
       map_option (\<lambda>prev. (200, outcome_to_value prev)) (seen key))"

definition mock_decide :: "string \<Rightarrow> string \<Rightarrow> http_reply + charge_outcome" where
  "mock_decide new_ref token =
     (if token = ''tok_success'' then Inr (OutSucceeded new_ref)
      else if token = ''tok_insufficient_funds'' then Inr (OutFailed ''insufficient_funds'')
      else if token = ''tok_card_declined'' then Inr (OutFailed ''card_declined'')
      else if token = ''tok_timeout'' then Inr (OutSucceeded new_ref)
      else if token = ''tok_network_error'' then
        Inl (500, JObject [(''error'', JString ''psp_unavailable'')])
      else
        Inl (400, JObject [(''error'', JString ''unknown_token''),
                           (''message'', JString (''unknown card token: '' @ token))]))"

text \<open>How long the handler sleeps before it answers, in milliseconds.\<close>

definition mock_delay :: "string \<Rightarrow> nat" where
  "mock_delay token =
     (if token \<in> {''tok_success'', ''tok_insufficient_funds'', ''tok_card_declined''} then 100
      else if token = ''tok_timeout'' then 30000
      else 0)"

definition mock_record :: "charge_request \<Rightarrow> charge_outcome \<Rightarrow> seen \<Rightarrow> seen" where
  "mock_record req outcome seen =
     (case cq_idempotency_key req of None \<Rightarrow> seen | Some key \<Rightarrow> seen(key \<mapsto> outcome))"

definition mock_charge :: "string \<Rightarrow> charge_request \<Rightarrow> seen \<Rightarrow> http_reply \<times> seen" where
  "mock_charge new_ref req seen =
     (case mock_lookup req seen of
        Some reply \<Rightarrow> (reply, seen)
      | None \<Rightarrow>
          (case mock_decide new_ref (cq_card_token req) of
             Inl reply \<Rightarrow> (reply, seen)
           | Inr outcome \<Rightarrow> ((200, outcome_to_value outcome), mock_record req outcome seen)))"

text \<open>
  The server: \<^verbatim>\<open>main\<close> binds the address of its environment and serves two routes from an empty map;
  a failed bind ends it. \<open>bind\<close> is the operating system's.
\<close>

definition mock_main :: "(string \<Rightarrow> (string, unit) result) \<Rightarrow> (string \<rightharpoonup> string) \<Rightarrow> (string, seen) result" where
  "mock_main bind env =
     res_bind (bind (case env ''MOCK_PSP_BIND_ADDR'' of None \<Rightarrow> ''0.0.0.0:9090'' | Some v \<Rightarrow> v)) (\<lambda>_. Inr Map.empty)"

datatype mock_request =
    MockHealthz
  | MockCharge json

datatype mock_reply =
    MockText nat string
  | MockJson http_reply
  | MockRejected nat

fun mock_route :: "string \<Rightarrow> mock_request \<Rightarrow> seen \<Rightarrow> mock_reply \<times> seen" where
  "mock_route new_ref MockHealthz seen = (MockText 200 ''ok'', seen)"
| "mock_route new_ref (MockCharge body) seen =
     (case charge_request_from_value body of
        None \<Rightarrow> (MockRejected 422, seen)
      | Some req \<Rightarrow> let (reply, seen') = mock_charge new_ref req seen in (MockJson reply, seen'))"

text \<open>
  One exchange of the invoice service's client with the mock: the client builds the body, the
  mock answers, and the answer reaches the client unless the connection fails first, in which
  case the handler may or may not have finished (\<open>lost = Some finished\<close>, \<open>timed_out\<close> the kind of
  the failure). A body the extractor refuses is answered 422.
\<close>

record exchange_draw =
  xd_ref :: string
  xd_lost :: "bool option"
  xd_timed_out :: bool

fun mock_transport :: "mock_reply \<Rightarrow> transport" where
  "mock_transport (MockText status text) = HttpResponse status None"
| "mock_transport (MockJson (status, body)) = HttpResponse status (Some body)"
| "mock_transport (MockRejected status) = HttpResponse status None"

definition mock_serve :: "exchange_draw \<Rightarrow> string \<Rightarrow> i64 \<Rightarrow> string \<Rightarrow> seen \<Rightarrow> psp_result \<times> seen" where
  "mock_serve x token amount key seen =
     (let (reply, seen') = mock_route (xd_ref x) (MockCharge (charge_body token amount key)) seen
      in case xd_lost x of
           None \<Rightarrow> (charge_result (mock_transport reply), seen')
         | Some finished \<Rightarrow> (charge_result (SendError (xd_timed_out x)), if finished then seen' else seen))"

definition mock_known :: "seen \<Rightarrow> string \<Rightarrow> psp_result option" where
  "mock_known seen key =
     map_option (\<lambda>out. case out of OutSucceeded r \<Rightarrow> PspSucceeded r | OutFailed c \<Rightarrow> PspDeclined c) (seen key)"

section \<open>Lemmas\<close>

lemma client_request [simp]:
  "charge_request_from_value (charge_body token amount key) =
     Some \<lparr>cq_card_token = token, cq_amount_cents = amount, cq_idempotency_key = Some key\<rparr>"
  by (simp add: charge_body_def given_once_def charge_request_fields_def)

lemma charge_result_outcome:
  "charge_result (HttpResponse 200 (Some (outcome_to_value out))) =
     (case out of OutSucceeded r \<Rightarrow> PspSucceeded r | OutFailed c \<Rightarrow> PspDeclined c)"
  by (cases out) (simp_all add: is_server_error_def psp_response_own_json del: psp_response_from_value.simps)

lemma charge_result_refusal: "mock_decide r token = Inl (status, body) \<Longrightarrow> \<not> definite (charge_result (HttpResponse status (Some body)))"
  by (auto simp: mock_decide_def is_server_error_def single_field_def tagged_outcome_def split: if_splits)

lemma mock_charge_keyed:
  "mock_charge x \<lparr>cq_card_token = token, cq_amount_cents = amount, cq_idempotency_key = Some key\<rparr> seen =
     (case seen key of
        Some prev \<Rightarrow> ((200, outcome_to_value prev), seen)
      | None \<Rightarrow> (case mock_decide x token of
           Inl reply \<Rightarrow> (reply, seen)
         | Inr out \<Rightarrow> ((200, outcome_to_value out), seen(key \<mapsto> out))))"
  by (simp add: mock_charge_def mock_lookup_def mock_record_def split: option.splits sum.splits)

text \<open>The mock keeps the provider's promise when its handlers do not overlap.\<close>

interpretation mock: idempotent_psp mock_serve mock_known
proof
  fix x token amount key s r s'
  assume serve: "mock_serve x token amount key s = (r, s')"
  show "mock_known s' key = Some r" if "definite r"
  proof (cases "xd_lost x")
    case None
    with serve that show ?thesis
      by (auto simp: mock_serve_def mock_charge_keyed charge_result_outcome mock_known_def
          simp del: charge_result.simps dest: charge_result_refusal split: option.splits sum.splits)
  next
    case (Some f)
    with serve have "r = charge_result (SendError (xd_timed_out x))"
      by (auto simp: mock_serve_def split: prod.splits simp del: charge_result.simps)
    with that show ?thesis by simp
  qed
  show "mock_known s' k = Some q" if "mock_known s k = Some q" for k q
    using serve that
    by (auto simp: mock_serve_def mock_charge_keyed mock_known_def split: option.splits sum.splits if_splits prod.splits)
qed

section \<open>Properties\<close>

text \<open>
  The mock provider is idempotent. In every sequence of exchanges that do not overlap, with
  lost answers and aborted handlers anywhere in it, all definite answers under one key are the
  same answer, whatever tokens and amounts the requests named.
\<close>

theorem mock_psp_idempotent:
  assumes "exchanges mock_serve qs s = (rs, t)"
    and "(key, r) \<in> set rs" and "(key, r') \<in> set rs" and "definite r" and "definite r'"
  shows "r = r'"
  using mock.exchanges_known [OF assms(1)] assms(2-5) by (metis option.inject)

theorem mock_psp_idempotent_witness:
  "\<exists>rs t. exchanges mock_serve
       [(\<lparr>xd_ref = ''a'', xd_lost = Some True, xd_timed_out = True\<rparr>, ''tok_timeout'', 5, ''k''),
        (\<lparr>xd_ref = ''b'', xd_lost = None, xd_timed_out = False\<rparr>, ''tok_timeout'', 5, ''k''),
        (\<lparr>xd_ref = ''c'', xd_lost = None, xd_timed_out = False\<rparr>, ''tok_timeout'', 5, ''k'')] Map.empty = (rs, t)
     \<and> snd (rs ! 1) = snd (rs ! 2) \<and> snd (rs ! 1) = PspSucceeded ''a''"
proof -
  let ?qs = "[(\<lparr>xd_ref = ''a'', xd_lost = Some True, xd_timed_out = True\<rparr>, ''tok_timeout'', 5 :: i64, ''k''),
        (\<lparr>xd_ref = ''b'', xd_lost = None, xd_timed_out = False\<rparr>, ''tok_timeout'', 5, ''k''),
        (\<lparr>xd_ref = ''c'', xd_lost = None, xd_timed_out = False\<rparr>, ''tok_timeout'', 5, ''k'')]"
  have run: "exchanges mock_serve ?qs Map.empty =
      ([(''k'', PspUnknown ''psp_timeout''), (''k'', PspSucceeded ''a''), (''k'', PspSucceeded ''a'')],
       [''k'' \<mapsto> OutSucceeded ''a''])"
    by (simp add: mock_serve_def mock_charge_keyed mock_decide_def is_server_error_def single_field_def
        tagged_outcome_def)
  have "PspSucceeded ''a'' = PspSucceeded ''a''"
    by (rule mock_psp_idempotent [OF run, of "''k''"]) simp_all
  with run show ?thesis by simp
qed

text \<open>
  What the mock answers to a new key. The token decides: success with the fresh reference,
  a decline with its code, or, for any token that is not one of the mock's, an answer that the
  client reports as unknown and that is never recorded, however often it is asked again.
\<close>

theorem mock_psp_tokens:
  assumes "seen key = None" and "xd_lost x = None"
  shows "mock_serve x ''tok_success'' amount key seen = (PspSucceeded (xd_ref x), seen(key \<mapsto> OutSucceeded (xd_ref x)))
    \<and> mock_serve x ''tok_insufficient_funds'' amount key seen
        = (PspDeclined ''insufficient_funds'', seen(key \<mapsto> OutFailed ''insufficient_funds''))
    \<and> mock_serve x ''tok_card_declined'' amount key seen
        = (PspDeclined ''card_declined'', seen(key \<mapsto> OutFailed ''card_declined''))
    \<and> (token \<notin> {''tok_success'', ''tok_insufficient_funds'', ''tok_card_declined'', ''tok_timeout''} \<longrightarrow>
         fst (exchanges mock_serve (replicate n (x, token, amount, key)) seen)
           = replicate n (key, PspUnknown ''psp_network_error'')
         \<and> snd (exchanges mock_serve (replicate n (x, token, amount, key)) seen) = seen)"
proof -
  have unknown: "mock_serve x token amount key seen = (PspUnknown ''psp_network_error'', seen)"
    if "token \<notin> {''tok_success'', ''tok_insufficient_funds'', ''tok_card_declined'', ''tok_timeout''}"
    using assms that
    by (auto simp: mock_serve_def mock_charge_keyed mock_decide_def is_server_error_def single_field_def tagged_outcome_def)
  have "exchanges mock_serve (replicate n (x, token, amount, key)) seen
      = (replicate n (key, PspUnknown ''psp_network_error''), seen)"
    if "token \<notin> {''tok_success'', ''tok_insufficient_funds'', ''tok_card_declined'', ''tok_timeout''}"
    by (induction n) (simp_all add: unknown [OF that])
  moreover have "mock_serve x ''tok_success'' amount key seen = (PspSucceeded (xd_ref x), seen(key \<mapsto> OutSucceeded (xd_ref x)))"
    "mock_serve x ''tok_insufficient_funds'' amount key seen
        = (PspDeclined ''insufficient_funds'', seen(key \<mapsto> OutFailed ''insufficient_funds''))"
    "mock_serve x ''tok_card_declined'' amount key seen
        = (PspDeclined ''card_declined'', seen(key \<mapsto> OutFailed ''card_declined''))"
    using assms by (simp_all add: mock_serve_def mock_charge_keyed mock_decide_def charge_result_outcome
        del: charge_result.simps outcome_to_value.simps)
  ultimately show ?thesis by auto
qed

theorem mock_psp_tokens_witness:
  "fst (exchanges mock_serve
      (replicate 4 (\<lparr>xd_ref = ''a'', xd_lost = None, xd_timed_out = False\<rparr>, ''tok_typo'', 5, ''k'')) Map.empty)
    = replicate 4 (''k'', PspUnknown ''psp_network_error'')"
  using mock_psp_tokens [of Map.empty "''k''" "\<lparr>xd_ref = ''a'', xd_lost = None, xd_timed_out = False\<rparr>" 5 "''tok_typo''" 4]
  by simp


end
