(* ===== verification/End_To_End.thy ===== *)
theory End_To_End
  imports Runs Mock_Psp
begin

text \<open>
  The service together with a provider that has a state of its own. \<open>System\<close> gives the provider as a
  function from idempotency keys to outcomes; here the provider is a server in the sense of
  \<open>idempotent_psp\<close>, its answers may be lost, and the function is what its books say in the end. So
  every run of the two together is a run of \<open>System\<close>, and what \<open>System\<close> guarantees can be stated of
  the charges the provider really made. The mock of the repository is the instance.
\<close>

section \<open>The combined machine\<close>

text \<open>A charge of a worker is one exchange with the provider; all other steps leave the provider alone.\<close>

inductive served :: "('x \<Rightarrow> string \<Rightarrow> i64 \<Rightarrow> string \<Rightarrow> 's \<Rightarrow> psp_result \<times> 's) \<Rightarrow> ext \<Rightarrow> sys \<times> 's \<Rightarrow> sys \<times> 's \<Rightarrow> bool"
  for serve :: "'x \<Rightarrow> string \<Rightarrow> i64 \<Rightarrow> string \<Rightarrow> 's \<Rightarrow> psp_result \<times> 's" and E :: ext where
  exchange: "s_workers s w = Charge j rest \<Longrightarrow> serve x (jb_token j) (jb_amount j) (jb_key j) m = (r, m') \<Longrightarrow>
     served serve E (s, m) (at (s\<lparr>s_log := s_log s @ [(j, r)]\<rparr>) w (Finalize j r rest), m')"
| aside: "step E (\<lambda>_. PspUnknown []) s t \<Longrightarrow> s_log t = s_log s \<Longrightarrow> served serve E (s, m) (t, m)"

definition opened :: "'s \<Rightarrow> sys \<times> 's \<Rightarrow> bool" where
  "opened m p \<longleftrightarrow> start (fst p) \<and> snd p = m"

text \<open>The answer function a provider's books amount to.\<close>

definition booked :: "('s \<Rightarrow> string \<Rightarrow> psp_result option) \<Rightarrow> 's \<Rightarrow> string \<Rightarrow> psp_result" where
  "booked known m k = (case known m k of None \<Rightarrow> PspUnknown [] | Some q \<Rightarrow> q)"

section \<open>Lemmas: runs of the combined machine\<close>

lemma step_log: "step E ans s t \<Longrightarrow> \<exists>l. s_log t = s_log s @ l"
  by (induction rule: step.induct) auto

lemma step_unanswered:
  assumes "step E ans s t" and "s_log t = s_log s"
  shows "step E ans' s t"
  using assms(1)
proof cases
  case (charge w j r rest)
  then show ?thesis using assms(2) by simp
qed (auto intro: step.intros step.claim_ok [simplified] step.claim_replay [simplified] step.claim_rejected [simplified]
    step.finalize_ok [simplified] step.lease [simplified] step.admin_apply [simplified])

text \<open>A run of the system in which no charge is sent yet is a run next to any provider.\<close>

lemma quiet_served:
  assumes "reach start (step E ans) s" and "s_log s = []"
  shows "reach (opened m) (served serve E) (s, m)"
  using assms
proof (induction rule: reach.induct)
  case (reach_start s)
  then show ?case by (intro reach.reach_start) (simp add: opened_def)
next
  case (reach_step s t)
  then have log: "s_log s = []" using step_log [OF reach_step.hyps(2)] by simp
  then have "served serve E (s, m) (t, m)"
    using step_unanswered [OF reach_step.hyps(2)] reach_step.prems by (intro aside) simp_all
  then show ?case using reach_step.IH [OF log] by (rule reach.reach_step [rotated])
qed

context idempotent_psp
begin

lemma served_step:
  assumes "served serve E p p'"
  shows "known (snd p) k = Some q \<Longrightarrow> known (snd p') k = Some q"
    and "\<forall>k q. known (snd p') k = Some q \<longrightarrow> ans k = q \<Longrightarrow> step E ans (fst p) (fst p')"
  using assms
proof (induction rule: served.induct)
  case (exchange s w j rest x m r m')
  { case 1 then show ?case using record_kept [OF exchange(2)] by simp
  next
    case 2
    have "r = ans (jb_key j) \<or> \<not> definite r" using definite_recorded [OF exchange(2)] 2 by auto
    then show ?case using step.charge [OF exchange(1)] by simp }
next
  case (aside s t m)
  { case 1 then show ?case by simp
  next
    case 2 show ?case using step_unanswered [OF aside] by simp }
qed

lemma served_reach:
  assumes "reach (opened m) (served serve E) p" and "\<forall>k q. known (snd p) k = Some q \<longrightarrow> ans k = q"
  shows "reach start (step E ans) (fst p)"
  using assms
proof (induction rule: reach.induct)
  case (reach_start p)
  then show ?case by (intro reach.reach_start) (simp add: opened_def)
next
  case (reach_step p p')
  have "\<forall>k q. known (snd p) k = Some q \<longrightarrow> ans k = q" using reach_step.prems served_step(1) [OF reach_step.hyps(2)] by blast
  from reach.reach_step [OF reach_step.IH [OF this] served_step(2) [OF reach_step.hyps(2) reach_step.prems]] show ?case .
qed

lemma served_booked: "reach (opened m) (served serve E) (s, m') \<Longrightarrow> reach start (step E (booked known m')) s"
  using served_reach [of m E "(s, m')" "booked known m'"] by (simp add: booked_def)

end

text \<open>A provider that writes nothing but the key it is asked about books no charge the service did not send.\<close>

locale keyed_psp = idempotent_psp +
  assumes record_only: "serve x token amount key s = (r, s') \<Longrightarrow> k \<noteq> key \<Longrightarrow> known s' k = known s k"
begin

lemma booked_sent:
  assumes "reach (opened m) (served serve E) p" and "\<forall>k. known m k = None" and "known (snd p) k = Some q"
  shows "\<exists>(j, r) \<in> set (s_log (fst p)). jb_key j = k"
  using assms(1,3)
proof (induction rule: reach.induct)
  case (reach_start p)
  then show ?case using assms(2) by (simp add: opened_def)
next
  case (reach_step p p')
  from reach_step.hyps(2) show ?case
  proof cases
    case (exchange s w j rest x m1 r m2)
    then show ?thesis
    proof (cases "k = jb_key j")
      case False
      then have "known m1 k = Some q" using record_only [OF exchange(4) False] reach_step.prems exchange(2) by simp
      then show ?thesis using reach_step.IH exchange(1,2) by auto
    qed auto
  next
    case (aside s t m1)
    then show ?thesis using reach_step.IH reach_step.prems by simp
  qed
qed

end

interpretation mock_book: keyed_psp mock_serve mock_known
proof
  fix x token amount key k r and s s' :: seen
  assume "mock_serve x token amount key s = (r, s')" and "k \<noteq> key"
  then show "mock_known s' k = mock_known s k"
    by (auto simp: mock_serve_def mock_charge_keyed mock_known_def split: option.splits sum.splits if_splits prod.splits)
qed

lemma mock_booked: "booked mock_known seen k = PspSucceeded q \<longleftrightarrow> seen k = Some (OutSucceeded q)"
  by (auto simp: booked_def mock_known_def split: option.splits charge_outcome.splits)

section \<open>Properties\<close>

text \<open>
  C2: the mock charges an invoice once. Let the service run against the mock of the repository, with
  any interleaving of workers, crashes on the service's side, lost answers and aborted exchanges,
  but without two handlers of the mock at work on one key. Then every success in the mock's books
  is under the key of a pending or succeeded attempt, over the total of an invoice of that
  attempt's business; no two attempts of one invoice are both in the books as successes; and a
  paid invoice has a succeeded attempt that carries the reference the mock has booked for it.
\<close>

theorem mock_charges_once:
  assumes "mock_main bind env = Inr seen0" and "reach (opened seen0) (served mock_serve E) (s, seen)"
  shows "(\<forall>k q. seen k = Some (OutSucceeded q) \<longrightarrow>
        (\<exists>a \<in> set (db_attempts (s_db s)). pa_idempotency_key a = k \<and> active_attempt a
          \<and> (\<exists>iv \<in> set (db_invoices (s_db s)). inv_id iv = pa_invoice_id a \<and> inv_business_id iv = pa_business_id a
               \<and> inv_total_cents iv = pa_amount_cents a)))
     \<and> (\<forall>a \<in> set (db_attempts (s_db s)). \<forall>b \<in> set (db_attempts (s_db s)). \<forall>q q'. pa_invoice_id a = pa_invoice_id b
          \<and> seen (pa_idempotency_key a) = Some (OutSucceeded q) \<and> seen (pa_idempotency_key b) = Some (OutSucceeded q') \<longrightarrow> a = b)
     \<and> (\<forall>iv \<in> set (db_invoices (s_db s)). inv_state iv = Paid \<longrightarrow> (\<exists>a \<in> set (db_attempts (s_db s)). \<exists>q. pa_invoice_id a = inv_id iv
          \<and> pa_status a = Succeeded \<and> pa_psp_ref a = Some q \<and> seen (pa_idempotency_key a) = Some (OutSucceeded q)))"
proof -
  let ?ans = "booked mock_known seen" and ?as = "set (db_attempts (s_db s))"
  have "seen0 = Map.empty" using assms(1) by (auto simp: mock_main_def result_simps)
  then have empty: "\<forall>k. mock_known seen0 k = None" by (simp add: mock_known_def)
  have run: "reach start (step E ?ans) s" by (rule mock.served_booked [OF assms(2)])
  note core = reach_core [OF run]
  have link: "\<exists>iv \<in> set (db_invoices (s_db s)). link_ok a iv" if "a \<in> ?as" for a using core(2) that by (auto simp: links_ok_def)
  have active: "active_attempt a" if "a \<in> ?as" "seen (pa_idempotency_key a) = Some (OutSucceeded q)" for a q
    using accepted_active [OF core(1) that(1)] that(2) by (simp add: mock_booked)
  have "\<exists>a \<in> ?as. pa_idempotency_key a = k \<and> active_attempt a \<and> (\<exists>iv \<in> set (db_invoices (s_db s)). link_ok a iv)"
    if "seen k = Some (OutSucceeded q)" for k q
  proof -
    have "mock_known (snd (s, seen)) k = Some (PspSucceeded q)" using that by (simp add: mock_known_def)
    from mock_book.booked_sent [OF assms(2) empty this] obtain j r where "(j, r) \<in> set (s_log s)" "jb_key j = k" by auto
    then obtain a where "a \<in> ?as" "pa_idempotency_key a = k" using logged_attempt [OF run] by (fastforce simp: leased_row_of_def)
    then show ?thesis using active link that by blast
  qed
  moreover have "a = b" if "a \<in> ?as" "b \<in> ?as" "pa_invoice_id a = pa_invoice_id b" "seen (pa_idempotency_key a) = Some (OutSucceeded q)"
      "seen (pa_idempotency_key b) = Some (OutSucceeded q')" for a b q q'
    using active_unique [OF core(1) that(1,2)] active that by blast
  moreover have "\<exists>a \<in> ?as. \<exists>q. pa_invoice_id a = inv_id iv \<and> pa_status a = Succeeded \<and> pa_psp_ref a = Some q
      \<and> seen (pa_idempotency_key a) = Some (OutSucceeded q)" if iv: "iv \<in> set (db_invoices (s_db s))" "inv_state iv = Paid" for iv
  proof -
    obtain a where a: "a \<in> ?as" "pa_invoice_id a = inv_id iv" "pa_status a = Succeeded" using core(2) iv by (auto simp: links_ok_def)
    then show ?thesis using attempts_okD(2) [OF core(1) a(1)] by (auto simp: attempt_ok_def mock_booked)
  qed
  ultimately show ?thesis unfolding link_ok_def by blast
qed

theorem mock_charges_once_witness:
  "\<exists>(s :: sys) seen a iv. seen ''k'' = Some (OutSucceeded ''ref'') \<and> a \<in> set (db_attempts (s_db s)) \<and> pa_idempotency_key a = ''k''
     \<and> iv \<in> set (db_invoices (s_db s)) \<and> inv_total_cents iv = pa_amount_cents a"
proof -
  let ?E = sample_ext and ?none = "\<lambda>_. PspUnknown []" and ?x = "\<lparr>xd_ref = ''ref'', xd_lost = None, xd_timed_out = False\<rparr>"
  have main: "mock_main (\<lambda>_. Inr ()) Map.empty = Inr Map.empty" by (simp add: mock_main_def)
  obtain s0 where s0: "reach start (step ?E ?none) s0" "only_final s0" using sample_reach by blast
  obtain s where s: "steps ?E ?none s0 s" "s_workers s = (\<lambda>_. Idle)(0 := Charge sample_job [])" "s_log s = []"
    using sample_to_charge [OF s0(2)] by blast
  have ready: "reach (opened Map.empty) (served mock_serve ?E) (s, Map.empty)"
    by (rule quiet_served [OF reach_steps [OF s0(1) s(1)] s(3)])
  have serve: "mock_serve ?x (jb_token sample_job) (jb_amount sample_job) (jb_key sample_job) Map.empty
      = (PspSucceeded ''ref'', [''k'' \<mapsto> OutSucceeded ''ref''])"
    by (simp add: sample_job_def mock_serve_def mock_charge_keyed mock_decide_def charge_result_outcome
        del: charge_result.simps outcome_to_value.simps)
  let ?t = "at (s\<lparr>s_log := s_log s @ [(sample_job, PspSucceeded ''ref'')]\<rparr>) 0 (Finalize sample_job (PspSucceeded ''ref'') [])"
  have "s_workers s 0 = Charge sample_job []" by (simp add: s(2))
  then have "served mock_serve ?E (s, Map.empty) (?t, [''k'' \<mapsto> OutSucceeded ''ref''])"
    by (rule exchange [where serve = mock_serve and x = ?x]) (rule serve)
  with ready have t: "reach (opened Map.empty) (served mock_serve ?E) (?t, [''k'' \<mapsto> OutSucceeded ''ref''])" by (rule reach_step)
  have "[''k'' \<mapsto> OutSucceeded ''ref''] ''k'' = Some (OutSucceeded ''ref'')" by simp
  then obtain a iv where "a \<in> set (db_attempts (s_db ?t))" "pa_idempotency_key a = ''k''" "iv \<in> set (db_invoices (s_db ?t))"
    "inv_total_cents iv = pa_amount_cents a" using conjunct1 [OF mock_charges_once [OF main t]] by blast
  then show ?thesis by (intro exI [of _ ?t] exI [of _ "[''k'' \<mapsto> OutSucceeded ''ref'']"]) fastforce
qed

end
