(* ===== verification/Spec2Isabelle.thy ===== *)
theory Spec2Isabelle
  imports Customer_Service Service Schema Stampede Unit_Tests End_To_End
begin

text \<open>
  Verification of the invoice and payment service (\<^verbatim>\<open>crates/common\<close>, \<^verbatim>\<open>crates/invoice-service\<close>,
  \<^verbatim>\<open>crates/mock-psp\<close> under \<^verbatim>\<open>src/\<close>).

  \<^bold>\<open>The program.\<close> An HTTP service in which businesses, known by their API keys, create customers and
  invoices, finalize or void them and have them paid by card. A payment runs in two short
  transactions around a call to an external payment provider: the first claims the client's
  idempotency key and inserts a pending attempt, the second records what the provider said. A
  reconciler asks again for attempts whose outcome is unknown. The creation of an invoice and the
  outcome of a payment are written to an outbox in the same transaction, and a dispatcher delivers the outbox to webhook
  endpoints with retries. A mock of the provider is part of the repository.

  \<^bold>\<open>Theories, from the bottom up.\<close>

  \<^item> \<open>Prelude\<close>: base types, Rust's \<^verbatim>\<open>Result\<close>, SQL statement forms on tables as lists of rows, and the
    locales \<open>column_frame\<close> (an UPDATE that leaves a unique column alone), \<open>leasing\<close> (a queue whose
    claimed rows are not due again for thirty seconds), \<open>draining\<close> (a backlog worked off in
    batches), \<open>machine_invariant\<close> and \<open>machine_stable\<close> (invariants of transition systems). \<open>Rust_Std\<close>: what the sources use of the standard library
    (trimming, splitting, UTF-8, decimal printing and parsing, checked 64-bit arithmetic).
  \<^item> \<open>External\<close>: the third-party functions the code calls (hex, UUID and RFC 3339 text, SHA-256,
    HMAC, JSON bytes, citext folding, header decoding) as fields of a record \<open>ext\<close> that every
    definition takes as an argument, with their documented laws as named predicates
    (\<open>hex_laws\<close>, \<open>uuid_laws\<close>, \<open>rfc3339_laws\<close>, \<open>header_laws\<close>) and an instance \<open>sample_ext\<close> that satisfies them.
  \<^item> \<open>Money\<close>, \<open>App_Error\<close>, \<open>Config\<close>, \<open>Pagination\<close>: the files of \<^verbatim>\<open>crates/common/src\<close>. Money is a 64-bit word;
    checked operations are exact or report overflow. Cursors round-trip, and a walk along the
    cursors of a list visits every row once and ends.
  \<^item> \<open>Domain\<close>: \<^verbatim>\<open>domain/*.rs\<close>, with the invoice state machine and the serde form of the cached payment
    response. \<open>Database\<close>: the schema of \<^verbatim>\<open>migrations/\<close>. \<open>Repositories\<close>: \<^verbatim>\<open>repositories/*.rs\<close>.
  \<^item> \<open>Customer_Service\<close>, \<open>Invoice_Service\<close>, \<open>Webhook_Service\<close>, \<open>Payment_Service\<close>: the services of the same
    name. One definition per function, split where the code leaves the database: \<open>pay\<close> is
    \<open>pay_read\<close>, \<open>pay_tx1\<close>, the provider call and \<open>pay_finalize\<close>; a transition is \<open>check_transition\<close> and
    \<open>apply_transition\<close>. Their lemmas give the exact result and database of every branch.
  \<^item> \<open>Auth\<close> (\<^verbatim>\<open>auth/*.rs\<close>), \<open>Psp\<close> (\<^verbatim>\<open>psp/mod.rs\<close>, with the locale \<open>idempotent_psp\<close> for what the service needs of
    a provider), \<open>Mock_Psp\<close> (the mock, an interpretation of that locale), \<open>Reconciler\<close>
    (\<^verbatim>\<open>reconciler.rs\<close>) and \<open>Dispatcher\<close> (\<^verbatim>\<open>webhooks/dispatcher.rs\<close>), both interpretations of \<open>leasing\<close>,
    \<open>Signing\<close> (\<^verbatim>\<open>webhooks/signing.rs\<close>), and \<open>Routes\<close> (\<^verbatim>\<open>routes/*.rs\<close> behind the auth layer of \<^verbatim>\<open>lib.rs\<close>), whose
    lemmas keep the tenants apart.
  \<^item> \<open>System\<close>: the payment system with concurrency. Any number of workers run requests, reconciler
    ticks and admin calls; a step is one transaction, one provider call or one internal move of
    one worker, in any order, with arbitrary times, ids and locked rows, and any worker may stop
    at any point (a crash, a lost connection, a failed COMMIT). \<open>System_Invariant\<close>: the invariant
    \<open>sys_ok\<close> and its preservation by every step. \<open>Ledger\<close>: the abstract machine of states and
    totals that the system refines. \<open>Runs\<close>: the sequential \<open>pay\<close> and \<open>tick\<close> are runs of the system, and
    a concrete run from the empty database.
  \<^item> \<open>Delivery\<close>: the webhook pipeline with concurrency. Any number of dispatcher replicas are
    interleaved between the claim, the SELECT, the POST and the UPDATE of each delivery, and may
    die at any of these points, while the API adds endpoints, events and redeliveries. Its
    invariant \<open>hooks_ok\<close> ties every delivery, job and POST to an event and an endpoint of one business.
  \<^item> \<open>Stampede\<close>: \<open>System\<close> with nothing but concurrent payments of one invoice under different keys, the
    scenario of \<^verbatim>\<open>tests/payment_flows.rs\<close>, where the database is known exactly at every moment.
  \<^item> \<open>End_To_End\<close>: \<open>System\<close> next to a provider with a state of its own, and the mock as the instance.
  \<^item> \<open>Transactions\<close>: every transaction of the service with the facts its code has read before. Two
    locales carry a relation on databases upwards: \<open>requests\<close> from what the handlers call to whole
    requests, \<open>transactional\<close> from single transactions to requests, ticks and batches. \<open>txn\<close> is the least
    such relation, so its runs are all interleavings of transactions.
  \<^item> \<open>Background\<close>: the running service (\<^verbatim>\<open>main.rs\<close>, \<^verbatim>\<open>lib.rs\<close>, \<^verbatim>\<open>state.rs\<close> and the loops of the two background
    tasks). A process serves requests and runs the two tasks on one database until it is shut
    down; by an interpretation of \<open>transactional\<close> it is a run of \<open>Delivery\<close>, its reconciler is an
    interpretation of \<open>draining\<close>, and one wake-up of its dispatcher delivers a new event.
  \<^item> \<open>Schema\<close>: what the migrations declare (primary and foreign keys, unique indexes, checks) and seed,
    proved of every interleaving of transactions and so of a deployment through all its restarts,
    with what they do not declare: the books balance and history is append-only.
  \<^item> \<open>Service\<close>: the same process is a run of \<open>System\<close> when the provider answers by idempotency key, with
    the same charges, so the properties below hold of the running service.
  \<^item> \<open>Unit_Tests\<close>: the tests inside the source files as definitions, with the proof that they pass.
  \<^item> This theory: the properties of the whole payment system.

  \<^bold>\<open>State and time.\<close> The database is a record of tables; a definition that writes returns the new
  database. Each transaction is atomic and isolated: the statements of the service take the row
  locks or unique-index waits that make READ COMMITTED behave so for the rows they touch, and the
  reads outside a transaction are separate steps. The clock, fresh ids, random bytes and jitter
  are arguments. Errors are values: \<open>sqlx_error\<close> with SQLSTATE and constraint, \<open>app_error\<close> for the
  API. No definition needs fuel: the loops of the sources run over lists, and the two endless ones
  (the background tasks) are given by one iteration per event of the process.

  \<^bold>\<open>The provider.\<close> In \<open>System\<close> the provider is a function \<open>ans\<close> from idempotency keys to outcomes: a call
  reports the outcome of its key or something indefinite. This is the documented behaviour of an
  idempotent provider: \<open>End_To_End\<close> shows that any provider that keeps the laws of \<open>idempotent_psp\<close>
  amounts to such a function. \<open>Mock_Psp\<close> proves these laws of the mock for requests that do not
  overlap, and shows that overlapping ones can break them.

  \<^bold>\<open>Not modelled.\<close> Foreign-key errors (\<open>Schema\<close> shows that no statement can raise one, and no row is
  ever deleted) and the index definitions other than unique ones; URL matching, JSON
  extraction of requests and header parsing by axum beyond decoding to text; TLS, sockets, tracing,
  the connection pool (opening it is a parameter); the lengths of the timers of
  the background tasks (a task may wake at any time); \<^verbatim>\<open>common::ids\<close>, which only wraps a UUID
  generator. \<open>Dispatcher\<close> and \<open>Background\<close> take the concurrent sends of one batch one after the other;
  \<open>Delivery\<close> has them in any order.
\<close>

section \<open>Properties of the whole system\<close>

text \<open>
  C1: no double charge. In every reachable state of the concurrent system, whatever requests,
  reconcilers, retries, crashes and admin calls ran, all charges ever sent for one invoice that
  the provider accepts belong to one attempt: the same key, so that the provider moves money
  once, the same card token, and an amount that is the total of that invoice of that business.
\<close>

theorem no_double_charge:
  assumes "reach start (step E ans) s" and "(j, r) \<in> set (s_log s)" and "(j', r') \<in> set (s_log s)"
    and "jb_invoice j = jb_invoice j'" and "ans (jb_key j) = PspSucceeded q" and "ans (jb_key j') = PspSucceeded q'"
  shows "j = j' \<and> (\<exists>iv \<in> set (db_invoices (s_db s)). inv_id iv = jb_invoice j \<and> inv_business_id iv = jb_business j
     \<and> cents (inv_total_cents iv) = jb_amount j)"
proof -
  note core = reach_core [OF assms(1)]
  obtain a a' where a: "a \<in> set (db_attempts (s_db s))" "leased_row_of a = j"
      and a': "a' \<in> set (db_attempts (s_db s))" "leased_row_of a' = j'" using logged_attempt [OF assms(1)] assms(2,3) by blast
  have "active_attempt a" "active_attempt a'"
    using accepted_active [OF core(1) a(1), of q] accepted_active [OF core(1) a'(1), of q'] assms(5,6) a(2) a'(2)
    by (auto simp: leased_row_of_def)
  then have "a = a'" using active_unique [OF core(1) a(1) a'(1)] assms(4) a(2) a'(2) by (auto simp: leased_row_of_def)
  moreover obtain iv where "iv \<in> set (db_invoices (s_db s))" "link_ok a iv" using core(2) a(1) by (auto simp: links_ok_def)
  ultimately show ?thesis using a(2) a'(2) by (auto simp: link_ok_def leased_row_of_def)
qed

theorem no_double_charge_witness:
  "\<exists>s j r. reach start (step sample_ext sample_yes) s \<and> (j, r) \<in> set (s_log s) \<and> sample_yes (jb_key j) = PspSucceeded ''ref''
     \<and> (\<exists>iv \<in> set (db_invoices (s_db s)). inv_id iv = jb_invoice j \<and> cents (inv_total_cents iv) = jb_amount j)"
proof -
  obtain s t where st: "sample_paid s t" using sample_paid_run by blast
  obtain j r where log: "s_log t = [(j, r)]" using sample_paid_rows(4) [OF st] by blast
  have mem: "(j, r) \<in> set (s_log t)" by (simp add: log)
  have yes: "sample_yes (jb_key j) = PspSucceeded ''ref''" by (simp add: sample_yes_def)
  from no_double_charge [OF sample_paid_rows(1) [OF st] mem mem refl yes yes]
  show ?thesis using sample_paid_rows(1) [OF st] mem yes by blast
qed

text \<open>
  C7: one active attempt. In every reachable state at most one attempt of an invoice is pending
  or succeeded, and every attempt is for the exact total of an invoice of its own business that
  has left draft, and that is in a final state once the attempt succeeded.
\<close>

theorem single_active_attempt:
  assumes "reach start (step E ans) s" and "a \<in> set (db_attempts (s_db s))"
  shows "(\<forall>x \<in> set (db_attempts (s_db s)). active_attempt a \<and> active_attempt x \<and> pa_invoice_id x = pa_invoice_id a \<longrightarrow> x = a)
     \<and> (\<exists>iv \<in> set (db_invoices (s_db s)). inv_id iv = pa_invoice_id a \<and> inv_business_id iv = pa_business_id a
          \<and> inv_total_cents iv = pa_amount_cents a \<and> inv_state iv \<noteq> Draft
          \<and> (pa_status a = Succeeded \<longrightarrow> is_terminal (inv_state iv)))"
proof -
  note core = reach_core [OF assms(1)]
  have "\<exists>iv \<in> set (db_invoices (s_db s)). link_ok a iv" using core(2) assms(2) by (auto simp: links_ok_def)
  then show ?thesis using active_unique [OF core(1) _ assms(2)] unfolding link_ok_def by blast
qed

theorem single_active_attempt_witness:
  "\<exists>s a. reach start (step sample_ext sample_yes) s \<and> a \<in> set (db_attempts (s_db s)) \<and> pa_status a = Succeeded
     \<and> (\<exists>iv \<in> set (db_invoices (s_db s)). inv_id iv = pa_invoice_id a \<and> is_terminal (inv_state iv))"
proof -
  obtain s t where st: "sample_paid s t" using sample_paid_run by blast
  obtain a where a: "db_attempts (s_db t) = [a]" "pa_status a = Succeeded" using sample_paid_rows(3) [OF st] by blast
  have mem: "a \<in> set (db_attempts (s_db t))" by (simp add: a(1))
  show ?thesis using single_active_attempt [OF sample_paid_rows(1) [OF st] mem] sample_paid_rows(1) [OF st] mem a(2) by blast
qed

text \<open>
  C4: paid means charged. In every reachable state a paid invoice has a succeeded attempt over
  exactly its total; the provider was asked for that attempt and answered with the success and
  the reference the attempt carries; and the outbox has an invoice.paid event for it.
\<close>

theorem paid_means_charged:
  assumes "reach start (step E ans) s" and "iv \<in> set (db_invoices (s_db s))" and "inv_state iv = Paid"
  shows "\<exists>a \<in> set (db_attempts (s_db s)). \<exists>q. pa_invoice_id a = inv_id iv \<and> pa_status a = Succeeded
     \<and> pa_psp_ref a = Some q \<and> (leased_row_of a, PspSucceeded q) \<in> set (s_log s)
     \<and> (\<exists>iv' \<in> set (db_invoices (s_db s)). inv_id iv' = inv_id iv \<and> inv_total_cents iv' = pa_amount_cents a)
     \<and> (\<exists>e \<in> set (db_events (s_db s)). ev_event_type e = INVOICE_PAID \<and> ev_aggregate_id e = inv_id iv)"
proof -
  note core = reach_core [OF assms(1)]
  obtain a where a: "a \<in> set (db_attempts (s_db s))" "pa_invoice_id a = inv_id iv" "pa_status a = Succeeded"
    using core(2) assms(2,3) by (auto simp: links_ok_def)
  obtain q where q: "ans (pa_idempotency_key a) = PspSucceeded q" "pa_psp_ref a = Some q"
    using attempts_okD(2) [OF core(1) a(1)] a(3) by (auto simp: attempt_ok_def)
  have "leased_row_of a \<in> settled_jobs (s_db s)" using a(1,3) by (auto simp: settled_jobs_def)
  then have "(leased_row_of a, PspSucceeded q) \<in> set (s_log s)"
    using reach_logged [OF assms(1)] q(1) by (auto simp: logged_def leased_row_of_def)
  moreover obtain e where "e \<in> set (db_events (s_db s))" "event_ok E ans a e" using core(4) a(1,3) by (auto simp: outbox_has_def)
  moreover obtain iv' where "iv' \<in> set (db_invoices (s_db s))" "link_ok a iv'" using core(2) a(1) by (auto simp: links_ok_def)
  ultimately show ?thesis using a q(2) by (intro bexI [of _ a] exI [of _ q]) (auto simp: event_ok_def link_ok_def)
qed

theorem paid_means_charged_witness:
  "\<exists>s a q. reach start (step sample_ext sample_yes) s \<and> a \<in> set (db_attempts (s_db s)) \<and> (leased_row_of a, PspSucceeded q) \<in> set (s_log s)"
proof -
  obtain s t where st: "sample_paid s t" using sample_paid_run by blast
  obtain iv where iv: "db_invoices (s_db t) = [iv]" "inv_state iv = Paid" using sample_paid_rows(2) [OF st] by blast
  have "iv \<in> set (db_invoices (s_db t))" by (simp add: iv(1))
  from paid_means_charged [OF sample_paid_rows(1) [OF st] this iv(2)] show ?thesis using sample_paid_rows(1) [OF st] by blast
qed

text \<open>
  C5: a settled answer is final. Once an attempt is settled, then in every later state of every
  run a repeat of its request is answered from the key with the one outcome the provider has
  for it, the same status and the same body, and the attempt itself never changes again.
\<close>

theorem settled_replay_stable:
  assumes "reach start (step E ans) s" and "(step E ans)\<^sup>*\<^sup>* s t" and "a \<in> set (db_attempts (s_db s))" and "pa_status a \<noteq> Pending"
    and "uuid_laws E"
  shows "a \<in> set (db_attempts (s_db t))
     \<and> replay E (pa_business_id a) (pa_idempotency_key a)
          (fingerprint E (pa_invoice_id a) (pa_card_token a) (cents (pa_amount_cents a))) (pa_invoice_id a) (s_db t)
        = Inr (outcome_response E (pa_invoice_id a) (pa_id a) (cents (pa_amount_cents a)) (ans (pa_idempotency_key a)))"
proof -
  have "grows (s_db s) (s_db t)"
    using history.steps_stable [OF assms(2) payments.reach_inv [OF assms(1)], of "s_db s"] by simp
  then have a: "a \<in> set (db_attempts (s_db t))" using growsD(1) [OF _ assms(3)] assms(4) by blast
  note core = reach_core [OF reach_steps [OF assms(1,2)]]
  show ?thesis
    using a settled_key_replays [OF core(3) a assms(4,5) attempts_okD(2) [OF core(1) a]] by (simp add: attempt_outcome_def)
qed

theorem settled_replay_stable_witness:
  "\<exists>s a. reach start (step sample_ext sample_yes) s \<and> a \<in> set (db_attempts (s_db s))
     \<and> replay sample_ext 1 ''k'' (fingerprint sample_ext 10 ''tok_success'' 750) 10 (s_db s)
        = Inr (outcome_response sample_ext 10 21 750 (PspSucceeded ''ref''))"
proof -
  obtain s t where st: "sample_paid s t" using sample_paid_run by blast
  obtain a where a: "db_attempts (s_db t) = [a]" "pa_status a = Succeeded" "pa_business_id a = 1" "pa_invoice_id a = 10" "pa_id a = 21"
      "pa_idempotency_key a = ''k''" "pa_card_token a = ''tok_success''" "cents (pa_amount_cents a) = 750"
    using sample_paid_rows(3) [OF st] by blast
  have mem: "a \<in> set (db_attempts (s_db t))" by (simp add: a(1))
  have "pa_status a \<noteq> Pending" by (simp add: a(2))
  from settled_replay_stable [OF sample_paid_rows(1) [OF st] rtranclp.rtrancl_refl mem this sample_uuid_laws]
  show ?thesis using sample_paid_rows(1) [OF st] mem a by (intro exI [of _ t] exI [of _ a]) (simp add: sample_yes_def)
qed

text \<open>
  C6: the system refines the ledger. Every run of the concurrent system, seen as states and
  totals by invoice id, is a run of the abstract ledger, whose only moves are a new draft and
  one invoice along one edge of the state machine. So an invoice is never lost, its total never
  changes after creation, its state only follows legal transitions, and a final state is final.
\<close>

theorem ledger_refinement:
  assumes "reach start (step E ans) s" and "(step E ans)\<^sup>*\<^sup>* s t"
  shows "ledger_step\<^sup>*\<^sup>* (ledger s) (ledger t)
     \<and> (\<forall>i st m. ledger s i = Some (st, m) \<longrightarrow>
          (\<exists>st'. ledger t i = Some (st', m) \<and> can_transition_to\<^sup>*\<^sup>* st st' \<and> (is_terminal st \<longrightarrow> st' = st)))"
proof -
  have "ledger_step\<^sup>*\<^sup>* (ledger s) (ledger t)" by (rule books.run_simulated [OF assms(2) payments.reach_inv [OF assms(1)]])
  then show ?thesis using ledger_run_entry terminal_stays by blast
qed

theorem ledger_refinement_witness:
  "\<exists>s t m. reach start (step sample_ext sample_yes) s \<and> (step sample_ext sample_yes)\<^sup>*\<^sup>* s t
     \<and> ledger s 10 = Some (Open, m) \<and> ledger t 10 = Some (Paid, m)"
proof -
  obtain s t where st: "sample_paid s t" using sample_paid_run by blast
  then have run: "reach start (step sample_ext sample_yes) s" "(step sample_ext sample_yes)\<^sup>*\<^sup>* s t" and "only_final s"
    by (simp_all add: sample_paid_def)
  then have "ledger s 10 = Some (Open, inv_total_cents sample_final)"
    by (simp add: ledger_def only_final_def sample_rows)
  moreover obtain iv where "db_invoices (s_db t) = [iv]" "inv_id iv = 10" "inv_state iv = Paid"
    using sample_paid_rows(2) [OF st] by blast
  then have "ledger t 10 = Some (Paid, inv_total_cents iv)" by (simp add: ledger_def)
  ultimately show ?thesis using ledger_refinement [OF run] run by fastforce
qed





text \<open>
  C11: a charge can outlive its invoice. There is a run in which an admin voids the invoice while
  the provider is being asked: the provider accepts, the request is answered 200 with the
  invoice state \<open>paid\<close> and an invoice.paid event is stored, but the invoice is void and stays so.
\<close>

theorem paid_after_void:
  "\<exists>s iv a e out. reach start (step sample_ext sample_yes) s
     \<and> db_invoices (s_db s) = [iv] \<and> inv_state iv = Void
     \<and> a \<in> set (db_attempts (s_db s)) \<and> pa_invoice_id a = inv_id iv \<and> pa_status a = Succeeded
     \<and> e \<in> set (db_events (s_db s)) \<and> ev_event_type e = INVOICE_PAID \<and> ev_aggregate_id e = inv_id iv
     \<and> s_workers s 0 = Done (Inr out) \<and> fst out = 200 \<and> rs_invoice_state (snd out) = ''paid''"
proof -
  let ?E = sample_ext and ?ans = sample_yes and ?ok = "PspSucceeded ''ref''"
  obtain s where s: "reach start (step ?E ?ans) s" "only_final s" using sample_reach by blast
  obtain t where t: "steps ?E ?ans s t" "s_workers t = (\<lambda>_. Idle)(0 := Finalize sample_job ?ok [])"
      "s_db t = claimed_db ?E sample_draws 1 10 ''k'' 750 ''tok_success'' (s_db s)" using sample_charging [OF s(2)] by blast
  let ?d = "(s_db t)\<lparr>db_invoices := [sample_voided]\<rparr>" and ?u = "t\<lparr>s_db := (s_db t)\<lparr>db_invoices := [sample_voided]\<rparr>\<rparr>"
  have "steps ?E ?ans t ?u"
    by (rule admin_run [where w = 1 and iv = sample_final and i = 10 and b = 1 and to = Void and now = 300])
      (use s(2) t(2,3) in \<open>simp_all add: only_final_def claimed_db_def sample_rows sample_voided_row\<close>)
  then have u: "reach start (step ?E ?ans) ?u" using s(1) t(1) by (meson reach_steps)
  obtain d' where d': "pay_finalize ?E 101 22 1 10 21 ''k'' 750 ?ok ?d = Inr (outcome_response ?E 10 21 750 ?ok, d')"
      "db_invoices d' = [sample_voided]" "\<exists>a \<in> set (db_attempts d'). pa_invoice_id a = 10 \<and> pa_status a = Succeeded"
      "\<exists>e \<in> set (db_events d'). ev_event_type e = INVOICE_PAID \<and> ev_aggregate_id e = 10"
    using sample_finalize_voided [OF s(2)] unfolding t(3) by blast
  let ?v = "at (?u\<lparr>s_db := d'\<rparr>) 0 (next_job (Inr (outcome_response ?E 10 21 750 ?ok)) [])"
  have "step ?E ?ans ?u ?v"
    by (rule step.finalize_ok [where now = 101 and eid = 22 and j = sample_job and r = ?ok and rest = "[]"])
      (use t(2) d'(1) in \<open>simp_all add: sample_job_def\<close>)
  with u have "reach start (step ?E ?ans) ?v" by (rule reach_step)
  moreover have "inv_id sample_voided = 10" "inv_state sample_voided = Void" by (simp_all add: sample_voided_def sample_rows)
  ultimately show ?thesis using d'(2-4) by (intro exI [of _ ?v]) auto
qed

end
